(* ===== verification/Go_Strings.thy ===== *)
theory Go_Strings
  imports Main "HOL-Library.Sublist" "HOL-Library.Word"
begin

text \<open>
  The part of Go's standard library that the relay's code calls on strings and decimal
  numbers: \<^verbatim>\<open>strings.Split\<close>, \<^verbatim>\<open>SplitN\<close>, \<^verbatim>\<open>Join\<close>, \<^verbatim>\<open>Trim\<close>,
  \<^verbatim>\<open>TrimSuffix\<close>, \<^verbatim>\<open>HasPrefix\<close>, \<^verbatim>\<open>HasSuffix\<close>, \<^verbatim>\<open>ToLower\<close>, \<^verbatim>\<open>ToUpper\<close>,
  \<^verbatim>\<open>fmt.Sprintf("%d")\<close>, \<^verbatim>\<open>strconv.ParseUint\<close> and \<^verbatim>\<open>strconv.ParseInt\<close>.
  A Go string is a sequence of bytes, here a \<^typ>\<open>string\<close>. Every separator the program
  uses is one byte long, so the separators are characters. The case mappings are those of
  the ASCII letters; other bytes are left alone.
\<close>

section \<open>Splitting and joining\<close>

fun break_at :: "char \<Rightarrow> string \<Rightarrow> (string \<times> string) option" where
  "break_at c [] = None"
| "break_at c (x # xs) =
     (if x = c then Some ([], xs) else map_option (\<lambda>(a, b). (x # a, b)) (break_at c xs))"

fun split_on :: "char \<Rightarrow> string \<Rightarrow> string list" where
  "split_on c [] = [[]]"
| "split_on c (x # xs) =
     (if x = c then [] # split_on c xs
      else (case split_on c xs of [] \<Rightarrow> [[x]] | y # ys \<Rightarrow> (x # y) # ys))"

fun split_n :: "char \<Rightarrow> nat \<Rightarrow> string \<Rightarrow> string list" where
  "split_n c 0 s = []"
| "split_n c (Suc 0) s = [s]"
| "split_n c (Suc (Suc n)) s =
     (case break_at c s of None \<Rightarrow> [s] | Some (a, b) \<Rightarrow> a # split_n c (Suc n) b)"

fun join_with :: "char \<Rightarrow> string list \<Rightarrow> string" where
  "join_with c [] = []"
| "join_with c [x] = x"
| "join_with c (x # y # ys) = x @ c # join_with c (y # ys)"

definition trim_char :: "char \<Rightarrow> string \<Rightarrow> string" where
  "trim_char c s = rev (dropWhile (\<lambda>x. x = c) (rev (dropWhile (\<lambda>x. x = c) s)))"

definition trim_suffix :: "string \<Rightarrow> string \<Rightarrow> string" where
  "trim_suffix s suf = (if suffix suf s then take (length s - length suf) s else s)"

abbreviation has_prefix :: "string \<Rightarrow> string \<Rightarrow> bool" where
  "has_prefix s p \<equiv> prefix p s"

abbreviation has_suffix :: "string \<Rightarrow> string \<Rightarrow> bool" where
  "has_suffix s p \<equiv> suffix p s"

definition to_lower_char :: "char \<Rightarrow> char" where
  "to_lower_char c =
     (if 65 \<le> (of_char c :: nat) \<and> (of_char c :: nat) \<le> 90 then char_of (of_char c + 32 :: nat) else c)"

definition to_upper_char :: "char \<Rightarrow> char" where
  "to_upper_char c =
     (if 97 \<le> (of_char c :: nat) \<and> (of_char c :: nat) \<le> 122 then char_of (of_char c - 32 :: nat) else c)"

abbreviation to_lower :: "string \<Rightarrow> string" where
  "to_lower \<equiv> map to_lower_char"

abbreviation to_upper :: "string \<Rightarrow> string" where
  "to_upper \<equiv> map to_upper_char"

section \<open>Decimal numbers\<close>

definition digit_char :: "nat \<Rightarrow> char" where
  "digit_char d = char_of (48 + d)"

definition digit_value :: "char \<Rightarrow> nat option" where
  "digit_value c =
     (if 48 \<le> (of_char c :: nat) \<and> (of_char c :: nat) \<le> 57 then Some (of_char c - 48) else None)"

fun show_nat :: "nat \<Rightarrow> string" where
  "show_nat n = (if n < 10 then [digit_char n] else show_nat (n div 10) @ [digit_char (n mod 10)])"

definition show_int :: "int \<Rightarrow> string" where
  "show_int i = (if i < 0 then CHR ''-'' # show_nat (nat (- i)) else show_nat (nat i))"

fun read_digits :: "nat \<Rightarrow> string \<Rightarrow> nat option" where
  "read_digits acc [] = Some acc"
| "read_digits acc (c # cs) =
     (case digit_value c of None \<Rightarrow> None | Some d \<Rightarrow> read_digits (10 * acc + d) cs)"

datatype num_error = SyntaxErr | RangeErr

text \<open>
  \<^verbatim>\<open>strconv.ParseUint(s, 10, 64)\<close> returns a value beside its error: 0 on a syntax error
  and the largest value on a range error. Callers that drop the error use that value.
\<close>

definition parse_uint64 :: "string \<Rightarrow> 64 word \<times> num_error option" where
  "parse_uint64 s =
     (if s = [] then (0, Some SyntaxErr)
      else case read_digits 0 s of
        None \<Rightarrow> (0, Some SyntaxErr)
      | Some n \<Rightarrow> if n < 2 ^ 64 then (of_nat n, None) else (- 1, Some RangeErr))"

definition parse_int64 :: "string \<Rightarrow> int \<times> num_error option" where
  "parse_int64 s =
     (let neg = (s \<noteq> [] \<and> hd s = CHR ''-'');
          body = (if s \<noteq> [] \<and> (hd s = CHR ''-'' \<or> hd s = CHR ''+'') then tl s else s)
      in if body = [] then (0, Some SyntaxErr)
         else case read_digits 0 body of
           None \<Rightarrow> (0, Some SyntaxErr)
         | Some n \<Rightarrow>
             if \<not> neg \<and> n \<ge> 2 ^ 63 then (2 ^ 63 - 1, Some RangeErr)
             else if neg \<and> n > 2 ^ 63 then (- (2 ^ 63), Some RangeErr)
             else (if neg then - int n else int n, None))"

declare show_nat.simps [simp del]

section \<open>Laws\<close>

named_theorems go_string "laws of the string functions, used as rewrite rules"

lemma split_on_nonempty [simp]: "split_on c s \<noteq> []"
  by (cases s) (auto split: list.splits)

lemma join_split_on [go_string]: "join_with c (split_on c s) = s"
proof (induction s)
  case Nil
  then show ?case by simp
next
  case (Cons x xs)
  then show ?case
    by (cases "split_on c xs") (auto, metis join_with.simps(2,3) append_Cons neq_Nil_conv)
qed

lemma split_on_pieces: "p \<in> set (split_on c s) \<Longrightarrow> c \<notin> set p"
proof (induction s arbitrary: p)
  case Nil
  then show ?case by simp
next
  case (Cons x xs)
  then show ?case by (cases "split_on c xs") (auto split: if_splits)
qed

lemma split_on_no_sep: "c \<notin> set s \<Longrightarrow> split_on c s = [s]"
  by (induction s) auto

lemma split_on_append: "c \<notin> set a \<Longrightarrow> split_on c (a @ c # b) = a # split_on c b"
  by (induction a) auto

lemma split_on_join:
  "xs \<noteq> [] \<Longrightarrow> \<forall>x \<in> set xs. c \<notin> set x \<Longrightarrow> split_on c (join_with c xs) = xs"
  by (induction c xs rule: join_with.induct) (auto simp: split_on_no_sep split_on_append)

lemma length_split_on: "length (split_on c s) = Suc (count_list s c)"
proof (induction s)
  case Nil
  then show ?case by simp
next
  case (Cons x xs)
  then show ?case by (cases "split_on c xs") auto
qed

lemma break_at_None: "break_at c s = None \<longleftrightarrow> c \<notin> set s"
  by (induction s) auto

lemma break_at_Some: "break_at c s = Some (a, b) \<Longrightarrow> s = a @ c # b \<and> c \<notin> set a"
  by (induction s arbitrary: a b) (auto split: if_splits)

lemma break_at_append: "c \<notin> set a \<Longrightarrow> break_at c (a @ c # b) = Some (a, b)"
  by (induction a) auto

lemma length_split_n: "length (split_n c n s) \<le> n"
  by (induction c n s rule: split_n.induct) (auto split: option.splits)

lemma split_n_nonempty: "0 < n \<Longrightarrow> split_n c n s \<noteq> []"
  by (induction c n s rule: split_n.induct) (auto split: option.splits)

lemma join_split_n: "0 < n \<Longrightarrow> join_with c (split_n c n s) = s"
proof (induction c n s rule: split_n.induct)
  case (3 c n s)
  show ?case
  proof (cases "break_at c s")
    case None
    then show ?thesis by simp
  next
    case (Some ab)
    obtain a b where ab: "ab = (a, b)" by (cases ab)
    with Some have s: "s = a @ c # b" by (auto dest: break_at_Some)
    have "join_with c (split_n c (Suc n) b) = b" using "3.IH" [OF Some ab [symmetric]] by simp
    moreover obtain y ys where "split_n c (Suc n) b = y # ys"
      using split_n_nonempty [of "Suc n" c b] by (cases "split_n c (Suc n) b") auto
    ultimately show ?thesis using Some ab s by simp
  qed
qed simp_all

lemma split_on_break_at:
  "split_on c s = (case break_at c s of None \<Rightarrow> [s] | Some (a, b) \<Rightarrow> a # split_on c b)"
proof (cases "break_at c s")
  case None
  then have "c \<notin> set s" by (simp add: break_at_None)
  with None show ?thesis by (simp add: split_on_no_sep)
next
  case (Some ab)
  then show ?thesis by (cases ab) (auto dest!: break_at_Some simp: split_on_append)
qed

lemma length_split_n_min: "0 < n \<Longrightarrow> length (split_n c n s) = min n (length (split_on c s))"
proof (induction c n s rule: split_n.induct)
  case (2 c s)
  then show ?case by (simp add: length_split_on)
next
  case (3 c n s)
  then show ?case
    by (subst split_on_break_at) (auto split: option.split prod.split simp: length_split_on)
qed simp

text \<open>All pieces but the last of a bounded split are those of the unbounded one.\<close>

lemma split_n_nth: "Suc i < n \<Longrightarrow> i < length (split_on c s) \<Longrightarrow> split_n c n s ! i = split_on c s ! i"
proof (induction c n s arbitrary: i rule: split_n.induct)
  case (3 c n s)
  show ?case
  proof (cases "break_at c s")
    case None
    then have "c \<notin> set s" by (simp add: break_at_None)
    with 3 None show ?thesis by (simp add: split_on_no_sep)
  next
    case (Some ab)
    obtain a b where ab: "ab = (a, b)" by (cases ab)
    then have s: "split_on c s = a # split_on c b" using Some by (subst split_on_break_at) simp
    show ?thesis
    proof (cases i)
      case (Suc j)
      with 3 Some ab s show ?thesis by auto
    qed (simp add: Some ab s)
  qed
qed simp_all

lemma trim_char_idem [go_string]: "trim_char c (trim_char c s) = trim_char c s"
proof -
  define a where "a = dropWhile (\<lambda>x. x = c) s"
  define b where "b = dropWhile (\<lambda>x. x = c) (rev a)"
  have drop_hd: "t = [] \<or> hd t \<noteq> c \<Longrightarrow> dropWhile (\<lambda>x. x = c) t = t" for t
    by (cases t) auto
  have "rev a = takeWhile (\<lambda>x. x = c) (rev a) @ b" by (simp add: b_def)
  then obtain p where a: "a = rev b @ p" by (metis rev_append rev_rev_ident)
  have "rev b = [] \<or> hd (rev b) \<noteq> c"
  proof (cases "b = []")
    case False
    then have "a \<noteq> []" and "hd a = hd (rev b)" by (simp_all add: a)
    moreover have "hd a \<noteq> c" using \<open>a \<noteq> []\<close> hd_dropWhile [of "\<lambda>x. x = c" s] by (simp add: a_def)
    ultimately show ?thesis by simp
  qed simp
  then have "dropWhile (\<lambda>x. x = c) (rev b) = rev b" by (rule drop_hd)
  moreover have "trim_char c s = rev b" by (simp add: trim_char_def a_def b_def)
  moreover have "dropWhile (\<lambda>x. x = c) b = b"
    by (simp add: b_def)
  ultimately show ?thesis by (simp add: trim_char_def)
qed

lemma digit_value_char [simp]: "d < 10 \<Longrightarrow> digit_value (digit_char d) = Some d"
  by (simp add: digit_value_def digit_char_def of_char_of)

lemma digit_chars [simp]:
  "digit_char 0 = CHR ''0''" "digit_char 1 = CHR ''1''" "digit_char (Suc 0) = CHR ''1''"
  "digit_char 2 = CHR ''2''" "digit_char 3 = CHR ''3''" "digit_char 4 = CHR ''4''"
  "digit_char 5 = CHR ''5''" "digit_char 6 = CHR ''6''" "digit_char 7 = CHR ''7''"
  "digit_char 8 = CHR ''8''" "digit_char 9 = CHR ''9''"
  by code_simp+

lemma show_nat_digit [simp]: "n < 10 \<Longrightarrow> show_nat n = [digit_char n]"
  by (simp add: show_nat.simps)

lemma read_digits_append:
  "read_digits acc (xs @ [c]) =
     (case read_digits acc xs of None \<Rightarrow> None
      | Some n \<Rightarrow> map_option (\<lambda>d. 10 * n + d) (digit_value c))"
  by (induction xs arbitrary: acc) (auto split: option.splits)

lemma read_show_nat [go_string]: "read_digits 0 (show_nat n) = Some n"
proof (induction n rule: show_nat.induct)
  case (1 n)
  show ?case
  proof (cases "n < 10")
    case True
    then show ?thesis by (simp add: show_nat.simps [of n])
  next
    case False
    with "1.IH" have "read_digits 0 (show_nat (n div 10)) = Some (n div 10)" by simp
    with False show ?thesis by (simp add: show_nat.simps [of n] read_digits_append)
  qed
qed

lemma show_nat_nonempty [simp]: "show_nat n \<noteq> []"
  by (subst show_nat.simps) simp

lemma show_nat_inject [simp]: "show_nat m = show_nat n \<longleftrightarrow> m = n"
  by (metis option.inject read_show_nat)

lemma parse_show_uint64 [go_string]: "parse_uint64 (show_nat (unat w)) = (w, None)" for w :: "64 word"
  using unsigned_less [of w, where ?'a = nat] by (simp add: parse_uint64_def go_string)

lemma parse_uint64_empty [simp]: "parse_uint64 [] = (0, Some SyntaxErr)"
  by (simp add: parse_uint64_def)

end
