(* ===== verification/Relay_Prelude.thy ===== *)
theory Relay_Prelude
  imports Go_Strings
begin

text \<open>
  What the component theories share: the types that stand for Go's run-time outcomes and
  dynamic values, the iteration order of a Go map, the reachable states of a step relation,
  and the rewrite-rule collections the component proofs use.
\<close>

section \<open>Run-time outcomes and dynamic values\<close>

text \<open>
  An \<^verbatim>\<open>error\<close> value is its message. \<open>Panic\<close> is a Go panic (a nil dereference, an index
  out of range, a failed type assertion, or an explicit \<^verbatim>\<open>panic\<close>) with what caused it.
\<close>

type_synonym error = string

datatype 'a go_result = Ret 'a | Panic string

fun go_bind :: "'a go_result \<Rightarrow> ('a \<Rightarrow> 'b go_result) \<Rightarrow> 'b go_result" where
  "go_bind (Ret x) f = f x"
| "go_bind (Panic p) f = Panic p"

lemma go_bind_Ret_iff [simp]: "go_bind r f = Ret y \<longleftrightarrow> (\<exists>x. r = Ret x \<and> f x = Ret y)"
  by (cases r) auto

lemma go_bind_assoc: "go_bind (go_bind m f) g = go_bind m (\<lambda>x. go_bind (f x) g)"
  by (cases m) simp_all

text \<open>
  A value of type \<^verbatim>\<open>interface{}\<close>: what the JSON decoder (with \<^verbatim>\<open>UseNumber\<close>, so numbers
  keep their text) and the YAML decoder produce; a float carries the text \<^verbatim>\<open>fmt\<close> prints it as. A map carries its entries in the order in
  which the run-time iterates over it.
\<close>

datatype go_value =
    GNil
  | GBool bool
  | GNumber string
  | GInt int
  | GFloat string
  | GString string
  | GSlice "go_value list"
  | GMap "(string \<times> go_value) list"

section \<open>Go maps\<close>

text \<open>
  A Go map is a partial function. \<^verbatim>\<open>range\<close> over it visits each key once, in an order the
  language leaves open: a loop over a map takes that order as an argument, and the theorems
  quantify over every order that \<open>range_order\<close> admits.
\<close>

type_synonym ('k, 'v) gomap = "'k \<rightharpoonup> 'v"

definition range_order :: "('k \<rightharpoonup> 'v) \<Rightarrow> 'k list \<Rightarrow> bool" where
  "range_order m ks \<longleftrightarrow> distinct ks \<and> set ks = dom m"

definition map_len :: "('k \<rightharpoonup> 'v) \<Rightarrow> nat" where
  "map_len m = card (dom m)"

abbreviation map_delete :: "'k \<Rightarrow> ('k \<rightharpoonup> 'v) \<Rightarrow> ('k \<rightharpoonup> 'v)" where
  "map_delete k m \<equiv> m(k := None)"

named_theorems go_map "laws of Go maps and of loops over them"

lemma range_order_set [go_map]: "range_order m ks \<Longrightarrow> set ks = dom m"
  by (simp add: range_order_def)

lemma range_order_distinct [go_map]: "range_order m ks \<Longrightarrow> distinct ks"
  by (simp add: range_order_def)

lemma range_order_finite: "range_order m ks \<Longrightarrow> finite (dom m)"
  by (metis range_order_def List.finite_set)

lemma range_order_exists: "finite (dom m) \<Longrightarrow> \<exists>ks. range_order m ks"
  by (metis range_order_def finite_distinct_list)

lemma range_order_length: "range_order m ks \<Longrightarrow> length ks = map_len m"
  by (metis range_order_def map_len_def distinct_card)

lemma map_len_delete_neq:
  assumes "finite (dom m)"
  shows "map_len m \<noteq> map_len (map_delete k m) \<longleftrightarrow> k \<in> dom m"
proof (cases "k \<in> dom m")
  case True
  then have "card (dom m - {k}) < card (dom m)" using assms by (rule card_Diff1_less [rotated])
  with True show ?thesis by (simp add: map_len_def)
next
  case False
  then show ?thesis by (simp add: map_len_def)
qed

lemma map_len_pos: "finite (dom m) \<Longrightarrow> 0 < map_len m \<longleftrightarrow> m \<noteq> Map.empty"
  by (auto simp: map_len_def card_gt_0_iff)

text \<open>Deleting a list of keys, and storing a list of entries, one after the other.\<close>

lemma fold_delete_apply [go_map]:
  "fold map_delete ks m k = (if k \<in> set ks then None else m k)"
  by (induction ks arbitrary: m) auto

lemma fold_store_apply:
  "fold (\<lambda>x m. m(f x \<mapsto> x)) xs m k =
     (case find (\<lambda>x. f x = k) (rev xs) of Some x \<Rightarrow> Some x | None \<Rightarrow> m k)"
  by (induction xs rule: rev_induct) auto

lemma find_append:
  "find P (xs @ ys) = (case find P xs of Some y \<Rightarrow> Some y | None \<Rightarrow> find P ys)"
  by (induction xs) auto

lemma find_rev_distinct:
  "distinct (map f xs) \<Longrightarrow> find (\<lambda>x. f x = k) (rev xs) = find (\<lambda>x. f x = k) xs"
proof (induction xs)
  case Nil
  then show ?case by simp
next
  case (Cons x xs)
  then have "f x = k \<Longrightarrow> find (\<lambda>x. f x = k) xs = None"
    by (auto simp: find_None_iff image_iff)
  with Cons show ?case by (auto simp: find_append split: option.splits)
qed

section \<open>Components in a list\<close>

text \<open>One component of a list takes a step: what that means for a predicate of all, for a value of each and for a sum over them.\<close>

lemma list_all_update: "list_all P xs \<Longrightarrow> P x \<Longrightarrow> list_all P (xs[i := x])"
  using set_update_subset_insert [of xs i x] by (auto simp: list_all_iff)

lemma map_update_same: "i < length xs \<Longrightarrow> f x = f (xs ! i) \<Longrightarrow> map f (xs[i := x]) = map f xs"
  by (simp add: map_update list_update_same_conv)

lemma sum_list_map_update:
  fixes f :: "'a \<Rightarrow> nat"
  shows "i < length xs \<Longrightarrow> sum_list (map f (xs[i := x])) + f (xs ! i) = sum_list (map f xs) + f x"
  using member_le_sum_list [of "f (xs ! i)" "map f xs"] by (simp add: map_update sum_list_update)

section \<open>Reachable states\<close>

text \<open>
  The states a component can get into: the least set with the initial states that is closed
  under its steps.
\<close>

inductive reachable :: "('s \<Rightarrow> bool) \<Rightarrow> ('s \<Rightarrow> 's \<Rightarrow> bool) \<Rightarrow> 's \<Rightarrow> bool"
  for init :: "'s \<Rightarrow> bool" and step :: "'s \<Rightarrow> 's \<Rightarrow> bool" where
  reachable_init: "init s \<Longrightarrow> reachable init step s"
| reachable_step: "reachable init step s \<Longrightarrow> step s t \<Longrightarrow> reachable init step t"

text \<open>
  The contract every stateful component of the relay has: a start condition, a step relation
  that covers its operations, and an invariant that the start establishes and every step
  keeps. The client's facts are about the reachable states.
\<close>

locale invariant_system =
  fixes init :: "'s \<Rightarrow> bool"
    and step :: "'s \<Rightarrow> 's \<Rightarrow> bool"
    and inv :: "'s \<Rightarrow> bool"
  assumes inv_init: "init s \<Longrightarrow> inv s"
    and inv_step: "inv s \<Longrightarrow> step s t \<Longrightarrow> inv t"
begin

lemma reachable_inv: "reachable init step s \<Longrightarrow> inv s"
  by (induction rule: reachable.induct) (auto intro: inv_init inv_step)

lemma steps_inv: "step\<^sup>*\<^sup>* s t \<Longrightarrow> inv s \<Longrightarrow> inv t"
  by (induction rule: rtranclp_induct) (auto intro: inv_step)

end

lemma reachable_steps: "reachable init step s \<Longrightarrow> step\<^sup>*\<^sup>* s t \<Longrightarrow> reachable init step t"
  by (rotate_tac, induction rule: rtranclp_induct) (auto intro: reachable_step)

end
