(* ===== verification/Relay_Config.thy ===== *)
theory Relay_Config
  imports Relay_Prelude
begin

text \<open>
  The relay's own configuration: \<^verbatim>\<open>relay/config/config.go\<close>, \<^verbatim>\<open>raw.go\<close>, \<^verbatim>\<open>cog_info.go\<close>,
  \<^verbatim>\<open>docker_info.go\<close>, \<^verbatim>\<open>execution_info.go\<close> and \<^verbatim>\<open>loader.go\<close>. The code fills defaults and
  environment variables in by reflection over the struct tags, so the model has the reflective
  view too: a struct is the list of its fields with their \<^verbatim>\<open>env\<close> and \<^verbatim>\<open>default\<close> tags, and
  each configuration record is written out to and read back from such a list. The YAML decoder,
  the validator and the process environment are parameters.
\<close>

section \<open>Paths\<close>

text \<open>The lexical part of the standard library's \<^verbatim>\<open>path\<close>: \<^verbatim>\<open>Clean\<close> and \<^verbatim>\<open>Join\<close>.\<close>

definition clean_step :: "bool \<Rightarrow> string list \<Rightarrow> string \<Rightarrow> string list" where
  "clean_step rooted out c =
     (if c = [] \<or> c = ''.'' then out
      else if c = ''..'' then
        (if out \<noteq> [] \<and> last out \<noteq> ''..'' then butlast out else if rooted then out else out @ [c])
      else out @ [c])"

definition path_clean :: "string \<Rightarrow> string" where
  "path_clean s =
     (let rooted = (s \<noteq> [] \<and> hd s = CHR ''/'');
          out = foldl (clean_step rooted) [] (split_on (CHR ''/'') s)
      in if rooted then CHR ''/'' # join_with (CHR ''/'') out
         else if out = [] then ''.'' else join_with (CHR ''/'') out)"

definition path_join :: "string list \<Rightarrow> string" where
  "path_join elems =
     (let es = filter (\<lambda>e. e \<noteq> []) elems
      in if es = [] then [] else path_clean (join_with (CHR ''/'') es))"

section \<open>The configuration records\<close>

record CogInfo =
  Host :: string
  Port :: int
  Token :: string
  SSLEnabled :: bool
  SSLCertPath :: string
  RefreshInterval :: string

record DockerInfo =
  UseEnv :: bool
  SocketPath :: string
  ContainerMemory :: int
  CleanInterval :: string
  CommandDriverVersion :: string
  RegistryHost :: string
  RegistryUser :: string
  RegistryEmail :: string
  RegistryPassword :: string

record ExecutionInfo =
  ExtraEnv :: "string list"
  ParsedExtraEnv :: "string \<rightharpoonup> string"

record Config =
  cfg_Version :: int
  ID :: string
  MaxConcurrent :: int
  DynamicConfigRoot :: string
  ManagedDynamicConfig :: bool
  DynamicConfigInterval :: string
  LogLevel :: string
  LogJSON :: bool
  LogPath :: string
  Cog :: "CogInfo option"
  EnginesEnabled :: string
  ParsedEnginesEnabled :: "string list"
  DevMode :: bool
  cfg_Docker :: "DockerInfo option"
  Execution :: "ExecutionInfo option"

definition RelayConfigVersion :: int where
  "RelayConfigVersion = 1"

definition DockerEngine :: string where
  "DockerEngine = ''docker''"

definition NativeEngine :: string where
  "NativeEngine = ''native''"

definition ManagedDynamicConfigLink :: string where
  "ManagedDynamicConfigLink = ''__managed__''"

definition validEngineNames :: "string list" where
  "validEngineNames = [DockerEngine, NativeEngine]"

section \<open>Structs by reflection\<close>

datatype field_value = FInt int | FBool bool | FString string | FOther

record struct_field =
  f_env :: string
  f_default :: string
  f_value :: field_value

text \<open>
  \<^verbatim>\<open>strconv.ParseBool\<close> and \<^verbatim>\<open>ParseInt\<close>, whose failure makes both loops panic.
\<close>

definition parse_bool :: "string \<Rightarrow> bool option" where
  "parse_bool s =
     (if s \<in> {''1'', ''t'', ''T'', ''true'', ''TRUE'', ''True''} then Some True
      else if s \<in> {''0'', ''f'', ''F'', ''false'', ''FALSE'', ''False''} then Some False
      else None)"

definition set_default_field :: "struct_field \<Rightarrow> (struct_field \<times> bool) go_result" where
  "set_default_field f =
     (if f_default f = [] then Ret (f, False)
      else case f_value f of
        FInt i \<Rightarrow>
          if i = 0 then
            (case parse_int64 (f_default f) of
               (n, None) \<Rightarrow> Ret (f\<lparr>f_value := FInt n\<rparr>, True)
             | (n, Some e) \<Rightarrow> Panic ''default'')
          else Ret (f, False)
      | FBool b \<Rightarrow>
          (case parse_bool (f_default f) of
             Some newValue \<Rightarrow>
               if b = False \<and> newValue = True then Ret (f\<lparr>f_value := FBool newValue\<rparr>, True)
               else Ret (f, False)
           | None \<Rightarrow> Panic ''default'')
      | FString s \<Rightarrow>
          if s = [] then Ret (f\<lparr>f_value := FString (f_default f)\<rparr>, True) else Ret (f, False)
      | FOther \<Rightarrow> Ret (f, False))"

definition envVarForTag :: "(string \<Rightarrow> string) \<Rightarrow> string \<Rightarrow> string" where
  "envVarForTag getenv varName = (if varName = [] then [] else getenv varName)"

definition set_env_field :: "(string \<Rightarrow> string) \<Rightarrow> struct_field \<Rightarrow> (struct_field \<times> bool) go_result" where
  "set_env_field getenv f =
     (let envValue = envVarForTag getenv (f_env f)
      in if envValue = [] then Ret (f, False)
         else case f_value f of
           FInt i \<Rightarrow>
             (case parse_int64 envValue of
                (n, None) \<Rightarrow> Ret (f\<lparr>f_value := FInt n\<rparr>, True)
              | (n, Some e) \<Rightarrow> Panic ''env'')
         | FBool b \<Rightarrow>
             (case parse_bool envValue of
                Some newValue \<Rightarrow> Ret (f\<lparr>f_value := FBool newValue\<rparr>, True)
              | None \<Rightarrow> Panic ''env'')
         | FString s \<Rightarrow> Ret (f\<lparr>f_value := FString envValue\<rparr>, True)
         | FOther \<Rightarrow> Ret (f, False))"

text \<open>The loop over the fields that both functions share, with the flag they return.\<close>

fun update_fields ::
    "(struct_field \<Rightarrow> (struct_field \<times> bool) go_result) \<Rightarrow> struct_field list \<Rightarrow> (struct_field list \<times> bool) go_result" where
  "update_fields upd [] = Ret ([], False)"
| "update_fields upd (f # fs) =
     go_bind (upd f) (\<lambda>(f', u).
     go_bind (update_fields upd fs) (\<lambda>(fs', us). Ret (f' # fs', u \<or> us)))"

definition setDefaultValues :: "struct_field list \<Rightarrow> (struct_field list \<times> bool) go_result" where
  "setDefaultValues = update_fields set_default_field"

definition setEnvVars :: "(string \<Rightarrow> string) \<Rightarrow> struct_field list \<Rightarrow> (struct_field list \<times> bool) go_result" where
  "setEnvVars getenv = update_fields (set_env_field getenv)"

text \<open>The tags of the four structs, in the order of their fields.\<close>

abbreviation tagged :: "string \<Rightarrow> string \<Rightarrow> field_value \<Rightarrow> struct_field" where
  "tagged e d v \<equiv> \<lparr>f_env = e, f_default = d, f_value = v\<rparr>"

definition cog_fields :: "CogInfo \<Rightarrow> struct_field list" where
  "cog_fields c =
     [tagged ''RELAY_COG_HOST'' ''127.0.0.1'' (FString (Host c)),
      tagged ''RELAY_COG_PORT'' ''1883'' (FInt (Port c)),
      tagged ''RELAY_COG_TOKEN'' '''' (FString (Token c)),
      tagged ''RELAY_COG_ENABLE_SSL'' ''false'' (FBool (SSLEnabled c)),
      tagged ''RELAY_COG_SSL_CERT_PATH'' '''' (FString (SSLCertPath c)),
      tagged ''RELAY_COG_REFRESH_INTERVAL'' ''1m'' (FString (RefreshInterval c))]"

definition docker_fields :: "DockerInfo \<Rightarrow> struct_field list" where
  "docker_fields d =
     [tagged ''RELAY_DOCKER_USE_ENV'' ''false'' (FBool (UseEnv d)),
      tagged ''RELAY_DOCKER_SOCKET_PATH'' ''unix:///var/run/docker.sock'' (FString (SocketPath d)),
      tagged ''RELAY_DOCKER_CONTAINER_MEMORY'' ''16'' (FInt (ContainerMemory d)),
      tagged ''RELAY_DOCKER_CLEAN_INTERVAL'' ''5m'' (FString (CleanInterval d)),
      tagged ''RELAY_DOCKER_CIRCUIT_DRIVER_VERSION'' '''' (FString (CommandDriverVersion d)),
      tagged ''RELAY_DOCKER_REGISTRY_HOST'' ''index.docker.io'' (FString (RegistryHost d)),
      tagged ''RELAY_DOCKER_REGISTRY_USER'' '''' (FString (RegistryUser d)),
      tagged ''RELAY_DOCKER_REGISTRY_EMAIL'' '''' (FString (RegistryEmail d)),
      tagged ''RELAY_DOCKER_REGISTRY_PASSWORD'' '''' (FString (RegistryPassword d))]"

definition execution_fields :: "ExecutionInfo \<Rightarrow> struct_field list" where
  "execution_fields x = [tagged ''RELAY_CONTAINER_ENV'' '''' FOther, tagged '''' '''' FOther]"

definition config_fields :: "Config \<Rightarrow> struct_field list" where
  "config_fields c =
     [tagged '''' '''' (FInt (cfg_Version c)),
      tagged ''RELAY_ID'' '''' (FString (ID c)),
      tagged ''RELAY_MAX_CONCURRENT'' ''16'' (FInt (MaxConcurrent c)),
      tagged ''RELAY_DYNAMIC_CONFIG_ROOT'' '''' (FString (DynamicConfigRoot c)),
      tagged ''RELAY_MANAGED_DYNAMIC_CONFIG'' ''true'' (FBool (ManagedDynamicConfig c)),
      tagged ''RELAY_MANAGED_DYNAMIC_CONFIG_INTERVAL'' ''5s'' (FString (DynamicConfigInterval c)),
      tagged ''RELAY_LOG_LEVEL'' ''info'' (FString (LogLevel c)),
      tagged ''RELAY_LOG_JSON'' ''false'' (FBool (LogJSON c)),
      tagged ''RELAY_LOG_PATH'' ''stdout'' (FString (LogPath c)),
      tagged '''' '''' FOther,
      tagged ''RELAY_ENABLED_ENGINES'' ''docker,native'' (FString (EnginesEnabled c)),
      tagged '''' '''' FOther,
      tagged '''' '''' (FBool (DevMode c)),
      tagged '''' '''' FOther,
      tagged '''' '''' FOther]"

text \<open>Writing a field list back into its struct: the setters of \<^verbatim>\<open>reflect.Value\<close>.\<close>

fun as_string :: "struct_field \<Rightarrow> string" where
  "as_string f = (case f_value f of FString s \<Rightarrow> s | _ \<Rightarrow> [])"

fun as_int :: "struct_field \<Rightarrow> int" where
  "as_int f = (case f_value f of FInt i \<Rightarrow> i | _ \<Rightarrow> 0)"

fun as_bool :: "struct_field \<Rightarrow> bool" where
  "as_bool f = (case f_value f of FBool b \<Rightarrow> b | _ \<Rightarrow> False)"

definition cog_write :: "CogInfo \<Rightarrow> struct_field list \<Rightarrow> CogInfo" where
  "cog_write c fs = c\<lparr>Host := as_string (fs ! 0), Port := as_int (fs ! 1), Token := as_string (fs ! 2),
     SSLEnabled := as_bool (fs ! 3), SSLCertPath := as_string (fs ! 4), RefreshInterval := as_string (fs ! 5)\<rparr>"

definition docker_write :: "DockerInfo \<Rightarrow> struct_field list \<Rightarrow> DockerInfo" where
  "docker_write d fs = d\<lparr>UseEnv := as_bool (fs ! 0), SocketPath := as_string (fs ! 1),
     ContainerMemory := as_int (fs ! 2), CleanInterval := as_string (fs ! 3),
     CommandDriverVersion := as_string (fs ! 4), RegistryHost := as_string (fs ! 5),
     RegistryUser := as_string (fs ! 6), RegistryEmail := as_string (fs ! 7),
     RegistryPassword := as_string (fs ! 8)\<rparr>"

definition config_write :: "Config \<Rightarrow> struct_field list \<Rightarrow> Config" where
  "config_write c fs = c\<lparr>cfg_Version := as_int (fs ! 0), ID := as_string (fs ! 1),
     MaxConcurrent := as_int (fs ! 2), DynamicConfigRoot := as_string (fs ! 3),
     ManagedDynamicConfig := as_bool (fs ! 4), DynamicConfigInterval := as_string (fs ! 5),
     LogLevel := as_string (fs ! 6), LogJSON := as_bool (fs ! 7), LogPath := as_string (fs ! 8),
     EnginesEnabled := as_string (fs ! 10), DevMode := as_bool (fs ! 12)\<rparr>"

section \<open>Engines\<close>

fun isValidEngineName_loop :: "string \<Rightarrow> string list \<Rightarrow> bool" where
  "isValidEngineName_loop name [] = False"
| "isValidEngineName_loop name (v # vs) = (if name = v then True else isValidEngineName_loop name vs)"

definition isValidEngineName :: "string \<Rightarrow> bool" where
  "isValidEngineName name = isValidEngineName_loop name validEngineNames"

fun is_dupe :: "string list \<Rightarrow> string \<Rightarrow> bool" where
  "is_dupe [] engine = False"
| "is_dupe (p # ps) engine = (if p = engine then True else is_dupe ps engine)"

fun parseEngines_loop :: "string list \<Rightarrow> string list \<Rightarrow> string list" where
  "parseEngines_loop [] parsed = parsed"
| "parseEngines_loop (e # engines) parsed =
     (let engine = trim_char (CHR '' '') e
      in if isValidEngineName engine \<and> \<not> is_dupe parsed engine
         then parseEngines_loop engines (parsed @ [engine])
         else parseEngines_loop engines parsed)"

definition parseEngines :: "Config \<Rightarrow> Config" where
  "parseEngines c =
     c\<lparr>ParsedEnginesEnabled := parseEngines_loop (split_on (CHR '','') (EnginesEnabled c)) []\<rparr>"

fun engineEnabled_loop :: "string \<Rightarrow> string list \<Rightarrow> bool" where
  "engineEnabled_loop name [] = False"
| "engineEnabled_loop name (v # vs) = (if v = name then True else engineEnabled_loop name vs)"

definition engineEnabled :: "string \<Rightarrow> Config \<Rightarrow> bool" where
  "engineEnabled name c = engineEnabled_loop name (ParsedEnginesEnabled c)"

definition DockerEnabled :: "Config \<Rightarrow> bool" where
  "DockerEnabled = engineEnabled DockerEngine"

definition NativeEnabled :: "Config \<Rightarrow> bool" where
  "NativeEnabled = engineEnabled NativeEngine"

section \<open>Verification of the configuration\<close>

definition errorNoExecutionEngines :: error where
  "errorNoExecutionEngines =
     ''Invalid Relay configuration detected. At least one execution engine must be enabled.''"

definition errorMissingDynamicConfigRoot :: error where
  "errorMissingDynamicConfigRoot =
     ''Enabling 'managed_dynamic_config' requires setting 'dynamic_config_root'.''"

definition Verify :: "Config \<Rightarrow> error + Config" where
  "Verify c =
     (if DockerEnabled c = False \<and> NativeEnabled c = False then Inl errorNoExecutionEngines
      else if ManagedDynamicConfig c \<and> DynamicConfigRoot c = [] then Inl errorMissingDynamicConfigRoot
      else if ManagedDynamicConfig c
      then Inr (c\<lparr>DynamicConfigRoot := path_join [DynamicConfigRoot c, ManagedDynamicConfigLink]\<rparr>)
      else Inr c)"

section \<open>Extra environment variables\<close>

definition reserved_key :: "string \<Rightarrow> bool" where
  "reserved_key k \<longleftrightarrow> has_prefix k ''COG_'' \<or> has_prefix k ''RELAY_''"

fun parse_extra_env :: "string list \<Rightarrow> (string \<rightharpoonup> string) \<Rightarrow> (string \<rightharpoonup> string) go_result" where
  "parse_extra_env [] m = Ret m"
| "parse_extra_env (v # vs) m =
     (case split_n (CHR ''='') 2 v of
        [k, x] \<Rightarrow>
          if has_prefix k ''COG_'' \<or> has_prefix k ''RELAY_'' then parse_extra_env vs m
          else parse_extra_env vs (m(k \<mapsto> x))
      | _ \<Rightarrow> Panic (''Illegal environment var specification in execution/env: '' @ v))"

definition ExecutionInfo_parse :: "ExecutionInfo \<Rightarrow> ExecutionInfo go_result" where
  "ExecutionInfo_parse x =
     go_bind (parse_extra_env (ExtraEnv x) Map.empty) (\<lambda>m. Ret (x\<lparr>ParsedExtraEnv := m\<rparr>))"

section \<open>Populating and parsing\<close>

definition zero_cog :: CogInfo where
  "zero_cog = \<lparr>Host = [], Port = 0, Token = [], SSLEnabled = False, SSLCertPath = [], RefreshInterval = []\<rparr>"

definition zero_docker :: DockerInfo where
  "zero_docker = \<lparr>UseEnv = False, SocketPath = [], ContainerMemory = 0, CleanInterval = [],
     CommandDriverVersion = [], RegistryHost = [], RegistryUser = [], RegistryEmail = [], RegistryPassword = []\<rparr>"

definition zero_execution :: ExecutionInfo where
  "zero_execution = \<lparr>ExtraEnv = [], ParsedExtraEnv = Map.empty\<rparr>"

definition zero_config :: Config where
  "zero_config = \<lparr>cfg_Version = 0, ID = [], MaxConcurrent = 0, DynamicConfigRoot = [],
     ManagedDynamicConfig = False, DynamicConfigInterval = [], LogLevel = [], LogJSON = False, LogPath = [],
     Cog = None, EnginesEnabled = [], ParsedEnginesEnabled = [], DevMode = False, cfg_Docker = None,
     Execution = None\<rparr>"

text \<open>Defaults first, then the environment, on one struct.\<close>

definition fill_struct ::
    "(string \<Rightarrow> string) \<Rightarrow> ('a \<Rightarrow> struct_field list) \<Rightarrow> ('a \<Rightarrow> struct_field list \<Rightarrow> 'a) \<Rightarrow> 'a \<Rightarrow> 'a go_result" where
  "fill_struct getenv flds write x =
     go_bind (setDefaultValues (flds x)) (\<lambda>(fs, _).
       let x1 = write x fs
       in go_bind (setEnvVars getenv (flds x1)) (\<lambda>(fs', _). Ret (write x1 fs')))"

definition populate :: "(string \<Rightarrow> string) \<Rightarrow> Config \<Rightarrow> Config go_result" where
  "populate getenv c =
     go_bind (fill_struct getenv config_fields config_write c) (\<lambda>c1.
     go_bind (fill_struct getenv cog_fields cog_write (case Cog c1 of None \<Rightarrow> zero_cog | Some x \<Rightarrow> x)) (\<lambda>cog.
     go_bind (fill_struct getenv docker_fields docker_write
       (case cfg_Docker c1 of None \<Rightarrow> zero_docker | Some x \<Rightarrow> x)) (\<lambda>dock.
     go_bind (fill_struct getenv execution_fields (\<lambda>x _. x)
       (case Execution c1 of None \<Rightarrow> zero_execution | Some x \<Rightarrow> x)) (\<lambda>exec.
     go_bind (ExecutionInfo_parse exec) (\<lambda>exec'.
     Ret (parseEngines (c1\<lparr>Cog := Some cog, cfg_Docker := Some dock, Execution := Some exec'\<rparr>)))))))"

definition IsEmpty :: "string \<Rightarrow> bool" where
  "IsEmpty rc = (length rc = 0)"

definition errorWrongConfigVersion :: error where
  "errorWrongConfigVersion = ''Only Cog Relay config version '' @ show_int RelayConfigVersion @ '' is supported''"

definition dockersocket :: "string \<Rightarrow> bool" where
  "dockersocket value = (has_prefix value ''unix://'' \<or> has_prefix value ''tcp://'')"

text \<open>
  \<^verbatim>\<open>RawConfig.Parse\<close> returns the configuration together with the validation error, if there
  is one. The validator takes the predicate registered for the tag \<^verbatim>\<open>dockersocket\<close>.
\<close>

definition RawConfig_Parse ::
    "(string \<Rightarrow> error + Config) \<Rightarrow> (string \<Rightarrow> string) \<Rightarrow> (Config \<Rightarrow> error option) \<Rightarrow>
     ((string \<Rightarrow> bool) \<Rightarrow> DockerInfo \<Rightarrow> error option) \<Rightarrow> string \<Rightarrow> string \<Rightarrow>
     (Config option \<times> error option) go_result" where
  "RawConfig_Parse yaml getenv validate validateDocker dockerDriverTag rc =
     (case (if IsEmpty rc then Inr (zero_config\<lparr>cfg_Version := RelayConfigVersion\<rparr>)
            else case yaml rc of
              Inl e \<Rightarrow> Inl e
            | Inr config \<Rightarrow>
                if cfg_Version config \<noteq> RelayConfigVersion then Inl errorWrongConfigVersion else Inr config) of
        Inl e \<Rightarrow> Ret (None, Some e)
      | Inr config \<Rightarrow>
          go_bind (populate getenv config) (\<lambda>c1.
            let c2 = c1\<lparr>ID := to_lower (ID c1)\<rparr>;
                c3 = c2\<lparr>cfg_Docker := map_option (\<lambda>d.
                       if CommandDriverVersion d = [] then d\<lparr>CommandDriverVersion := dockerDriverTag\<rparr> else d)
                       (cfg_Docker c2)\<rparr>;
                err = validate c3
            in case (err, cfg_Docker c3) of
                 (None, Some d) \<Rightarrow> Ret (Some c3, validateDocker dockersocket d)
               | _ \<Rightarrow> Ret (Some c3, err)))"

definition LoadConfig ::
    "(string \<Rightarrow> error option) \<Rightarrow> (string \<Rightarrow> error + string) \<Rightarrow> string \<Rightarrow> error + string" where
  "LoadConfig stat readFile path =
     (if path = [] then Inl ''Path to configuration file is required''
      else case stat path of
        Some e \<Rightarrow> Inl ''Config file not found or is unreadable''
      | None \<Rightarrow> readFile path)"

text \<open>The broker URL of \<^verbatim>\<open>CogInfo\<close>, and the three interval accessors, which panic on bad text.\<close>

definition URL :: "CogInfo \<Rightarrow> string" where
  "URL ci = (if SSLEnabled ci then ''ssl'' else ''tcp'') @ ''://'' @ Host ci @ '':'' @ show_int (Port ci)"

definition RefreshDuration :: "(string \<Rightarrow> error + int) \<Rightarrow> Config \<Rightarrow> int go_result" where
  "RefreshDuration parseDuration c =
     (case Cog c of
        None \<Rightarrow> Panic ''nil Cog''
      | Some cog \<Rightarrow>
          (case parseDuration (RefreshInterval cog) of
             Inl e \<Rightarrow> Panic (''Error parsing refresh_interval: '' @ e)
           | Inr duration \<Rightarrow> Ret duration))"

definition ManagedDynamicConfigRefreshDuration :: "(string \<Rightarrow> error + int) \<Rightarrow> Config \<Rightarrow> int go_result" where
  "ManagedDynamicConfigRefreshDuration parseDuration c =
     (case parseDuration (DynamicConfigInterval c) of
        Inl e \<Rightarrow> Panic ''Error parsing managed_dynamic_config_interval''
      | Inr duration \<Rightarrow> Ret duration)"

definition CleanDuration :: "(string \<Rightarrow> error + int) \<Rightarrow> DockerInfo \<Rightarrow> int go_result" where
  "CleanDuration parseDuration di =
     (case parseDuration (CleanInterval di) of
        Inl e \<Rightarrow> Panic ''Error parsing docker/clean_interval''
      | Inr duration \<Rightarrow> Ret duration)"

section \<open>Laws\<close>

lemma isValidEngineName_iff: "isValidEngineName e \<longleftrightarrow> e = ''docker'' \<or> e = ''native''"
  by (simp add: isValidEngineName_def validEngineNames_def DockerEngine_def NativeEngine_def)

lemma is_dupe_iff [simp]: "is_dupe ps e \<longleftrightarrow> e \<in> set ps"
  by (induction ps) auto

lemma engineEnabled_loop_iff [simp]: "engineEnabled_loop n vs \<longleftrightarrow> n \<in> set vs"
  by (induction vs) auto

lemma engineEnabled_iff [simp]: "engineEnabled n c \<longleftrightarrow> n \<in> set (ParsedEnginesEnabled c)"
  by (simp add: engineEnabled_def)

lemma parseEngines_loop_set:
  "set (parseEngines_loop es ps) = set ps \<union> {e \<in> trim_char (CHR '' '') ` set es. isValidEngineName e}"
  by (induction es ps rule: parseEngines_loop.induct) (auto simp: Let_def)

lemma parseEngines_loop_distinct: "distinct ps \<Longrightarrow> distinct (parseEngines_loop es ps)"
  by (induction es ps rule: parseEngines_loop.induct) (auto simp: Let_def)

lemma parse_extra_env_reserved:
  "parse_extra_env vs m = Ret m' \<Longrightarrow> (\<forall>k \<in> dom m. \<not> reserved_key k) \<Longrightarrow> k \<in> dom m' \<Longrightarrow> \<not> reserved_key k"
proof (induction vs arbitrary: m)
  case (Cons v vs)
  from Cons.prems(1) obtain a b where ab: "split_n (CHR ''='') 2 v = [a, b]"
    by (auto split: list.splits)
  show ?case
  proof (cases "reserved_key a")
    case True
    with Cons.prems(1) ab have "parse_extra_env vs m = Ret m'" by (simp add: reserved_key_def)
    then show ?thesis using Cons.prems(2,3) by (rule Cons.IH)
  next
    case False
    with Cons.prems(1) ab have "parse_extra_env vs (m(a \<mapsto> b)) = Ret m'" by (simp add: reserved_key_def)
    moreover have "\<forall>k \<in> dom (m(a \<mapsto> b)). \<not> reserved_key k" using Cons.prems(2) False by simp
    ultimately show ?thesis using Cons.prems(3) by (rule Cons.IH)
  qed
qed simp

lemma ExecutionInfo_parse_reserved:
  "ExecutionInfo_parse x = Ret x' \<Longrightarrow> k \<in> dom (ParsedExtraEnv x') \<Longrightarrow> \<not> reserved_key k"
  using parse_extra_env_reserved [of "ExtraEnv x" Map.empty "ParsedExtraEnv x'" k]
  by (auto simp: ExecutionInfo_parse_def)

subsection \<open>Where a field's value comes from\<close>

definition pick :: "string \<Rightarrow> string \<Rightarrow> string \<Rightarrow> string" where
  "pick env file dflt = (if env \<noteq> [] then env else if file \<noteq> [] then file else dflt)"

definition pick_int :: "string \<Rightarrow> int \<Rightarrow> int \<Rightarrow> int" where
  "pick_int env file dflt =
     (if env \<noteq> [] then fst (parse_int64 env) else if file \<noteq> 0 then file else dflt)"

definition pick_bool :: "string \<Rightarrow> bool \<Rightarrow> bool \<Rightarrow> bool" where
  "pick_bool env file dflt =
     (if env \<noteq> [] then parse_bool env = Some True else file \<or> dflt)"

lemma update_fields_nth:
  "update_fields upd fs = Ret (fs', u) \<Longrightarrow>
     length fs' = length fs \<and> (\<forall>i < length fs. \<exists>v. upd (fs ! i) = Ret (fs' ! i, v))"
proof (induction fs arbitrary: fs' u)
  case Nil
  then show ?case by simp
next
  case (Cons f fs)
  then obtain f' v gs w where f': "upd f = Ret (f', v)" "update_fields upd fs = Ret (gs, w)" "fs' = f' # gs"
    by auto
  with Cons.IH [of gs w] show ?case by (auto simp: nth_Cons split: nat.splits)
qed

lemma set_default_field_string:
  "set_default_field (tagged e d (FString s)) = Ret (f, u) \<Longrightarrow> f = tagged e d (FString (pick [] s d))"
  by (auto simp: set_default_field_def pick_def split: if_splits)

lemma set_env_field_string:
  "set_env_field getenv (tagged e d (FString s)) = Ret (f, u) \<Longrightarrow>
     f = tagged e d (FString (pick (envVarForTag getenv e) s []))"
  by (auto simp: set_env_field_def pick_def Let_def split: if_splits)

lemma set_default_field_int:
  "set_default_field (tagged e d (FInt n)) = Ret (f, u) \<Longrightarrow>
     f = tagged e d (FInt (pick_int [] n (if d = [] then 0 else fst (parse_int64 d))))"
  by (auto simp: set_default_field_def pick_int_def split: if_splits prod.splits option.splits)

lemma set_env_field_int:
  "set_env_field getenv (tagged e d (FInt n)) = Ret (f, u) \<Longrightarrow>
     f = tagged e d (FInt (pick_int (envVarForTag getenv e) n 0))"
  by (auto simp: set_env_field_def pick_int_def Let_def split: if_splits prod.splits option.splits)

lemma parse_bool_Nil [simp]: "parse_bool [] = None"
  by (simp add: parse_bool_def)

lemma set_default_field_bool:
  "set_default_field (tagged e d (FBool b)) = Ret (f, u) \<Longrightarrow>
     f = tagged e d (FBool (pick_bool [] b (parse_bool d = Some True)))"
  by (auto simp: set_default_field_def pick_bool_def split: if_splits option.splits)

lemma set_env_field_bool:
  "set_env_field getenv (tagged e d (FBool b)) = Ret (f, u) \<Longrightarrow>
     f = tagged e d (FBool (pick_bool (envVarForTag getenv e) b False))"
  by (auto simp: set_env_field_def pick_bool_def Let_def split: if_splits option.splits)

lemmas field_laws = set_default_field_string set_env_field_string set_default_field_int
  set_env_field_int set_default_field_bool set_env_field_bool

lemma pick_pick [simp]:
  "pick e (pick [] s d) [] = pick e s d"
  "pick_int e (pick_int [] n k) 0 = pick_int e n k"
  "pick_bool e (pick_bool [] b c) False = pick_bool e b c"
  by (auto simp: pick_def pick_int_def pick_bool_def)

lemma fill_structE:
  assumes "fill_struct getenv flds write x = Ret y"
  obtains fs fs' where "y = write (write x fs) fs'"
    and "\<And>i. i < length (flds x) \<Longrightarrow> \<exists>v. set_default_field (flds x ! i) = Ret (fs ! i, v)"
    and "\<And>i. i < length (flds (write x fs)) \<Longrightarrow>
           \<exists>v. set_env_field getenv (flds (write x fs) ! i) = Ret (fs' ! i, v)"
  using assms
  by (fastforce simp: fill_struct_def Let_def setDefaultValues_def setEnvVars_def dest!: update_fields_nth)

text \<open>One field of a filled struct: what the two loops leave in it.\<close>

lemma filled_string:
  "\<exists>v. set_default_field (tagged e d (FString s)) = Ret (f, v) \<Longrightarrow>
   \<exists>v. set_env_field getenv (tagged e d (FString (as_string f))) = Ret (f', v) \<Longrightarrow>
   as_string f' = pick (envVarForTag getenv e) s d"
  by (auto dest!: field_laws)

lemma filled_int:
  "\<exists>v. set_default_field (tagged e d (FInt n)) = Ret (f, v) \<Longrightarrow>
   \<exists>v. set_env_field getenv (tagged e d (FInt (as_int f))) = Ret (f', v) \<Longrightarrow>
   as_int f' = pick_int (envVarForTag getenv e) n (if d = [] then 0 else fst (parse_int64 d))"
  by (auto dest!: field_laws)

lemma filled_bool:
  "\<exists>v. set_default_field (tagged e d (FBool b)) = Ret (f, v) \<Longrightarrow>
   \<exists>v. set_env_field getenv (tagged e d (FBool (as_bool f))) = Ret (f', v) \<Longrightarrow>
   as_bool f' = pick_bool (envVarForTag getenv e) b (parse_bool d = Some True)"
  by (auto dest!: field_laws)

lemma fill_struct_fields:
  assumes "fill_struct getenv flds write x = Ret y"
    and len: "\<And>fs. length (flds (write x fs)) = length (flds x)"
  obtains z fs where "y = write (write x z) fs"
    and "\<And>i e d s. i < length (flds x) \<Longrightarrow> flds x ! i = tagged e d (FString s) \<Longrightarrow>
      (\<And>gs. flds (write x gs) ! i = tagged e d (FString (as_string (gs ! i)))) \<Longrightarrow>
      as_string (fs ! i) = pick (envVarForTag getenv e) s d"
    and "\<And>i e d n. i < length (flds x) \<Longrightarrow> flds x ! i = tagged e d (FInt n) \<Longrightarrow>
      (\<And>gs. flds (write x gs) ! i = tagged e d (FInt (as_int (gs ! i)))) \<Longrightarrow>
      as_int (fs ! i) = pick_int (envVarForTag getenv e) n (if d = [] then 0 else fst (parse_int64 d))"
    and "\<And>i e d b. i < length (flds x) \<Longrightarrow> flds x ! i = tagged e d (FBool b) \<Longrightarrow>
      (\<And>gs. flds (write x gs) ! i = tagged e d (FBool (as_bool (gs ! i)))) \<Longrightarrow>
      as_bool (fs ! i) = pick_bool (envVarForTag getenv e) b (parse_bool d = Some True)"
proof -
  from assms(1) obtain z fs where y: "y = write (write x z) fs"
    and d: "\<And>i. i < length (flds x) \<Longrightarrow> \<exists>v. set_default_field (flds x ! i) = Ret (z ! i, v)"
    and e: "\<And>i. i < length (flds x) \<Longrightarrow> \<exists>v. set_env_field getenv (flds (write x z) ! i) = Ret (fs ! i, v)"
    by (elim fill_structE) (simp add: len)
  show thesis
    by (rule that [OF y]) (metis d e filled_string, metis d e filled_int, metis d e filled_bool)
qed

lemma fill_config:
  assumes "fill_struct getenv config_fields config_write c = Ret c'"
  shows "ID c' = pick (getenv ''RELAY_ID'') (ID c) []"
    and "MaxConcurrent c' = pick_int (getenv ''RELAY_MAX_CONCURRENT'') (MaxConcurrent c) 16"
    and "DynamicConfigRoot c' = pick (getenv ''RELAY_DYNAMIC_CONFIG_ROOT'') (DynamicConfigRoot c) []"
    and "ManagedDynamicConfig c' = pick_bool (getenv ''RELAY_MANAGED_DYNAMIC_CONFIG'') (ManagedDynamicConfig c) True"
    and "LogLevel c' = pick (getenv ''RELAY_LOG_LEVEL'') (LogLevel c) ''info''"
    and "LogPath c' = pick (getenv ''RELAY_LOG_PATH'') (LogPath c) ''stdout''"
    and "EnginesEnabled c' = pick (getenv ''RELAY_ENABLED_ENGINES'') (EnginesEnabled c) ''docker,native''"
    and "Cog c' = Cog c" and "cfg_Docker c' = cfg_Docker c" and "Execution c' = Execution c"
proof -
  have len: "length (config_fields (config_write c fs)) = length (config_fields c)" for fs
    by (simp add: config_fields_def)
  obtain z fs where c': "c' = config_write (config_write c z) fs"
    and str: "\<And>i e d s. i < length (config_fields c) \<Longrightarrow> config_fields c ! i = tagged e d (FString s) \<Longrightarrow>
      (\<And>gs. config_fields (config_write c gs) ! i = tagged e d (FString (as_string (gs ! i)))) \<Longrightarrow>
      as_string (fs ! i) = pick (envVarForTag getenv e) s d"
    and num: "\<And>i e d n. i < length (config_fields c) \<Longrightarrow> config_fields c ! i = tagged e d (FInt n) \<Longrightarrow>
      (\<And>gs. config_fields (config_write c gs) ! i = tagged e d (FInt (as_int (gs ! i)))) \<Longrightarrow>
      as_int (fs ! i) = pick_int (envVarForTag getenv e) n (if d = [] then 0 else fst (parse_int64 d))"
    and flag: "\<And>i e d b. i < length (config_fields c) \<Longrightarrow> config_fields c ! i = tagged e d (FBool b) \<Longrightarrow>
      (\<And>gs. config_fields (config_write c gs) ! i = tagged e d (FBool (as_bool (gs ! i)))) \<Longrightarrow>
      as_bool (fs ! i) = pick_bool (envVarForTag getenv e) b (parse_bool d = Some True)"
    using fill_struct_fields [OF assms len] by blast
  note simps = config_fields_def config_write_def c' envVarForTag_def parse_int64_def digit_value_def parse_bool_def
  show "ID c' = pick (getenv ''RELAY_ID'') (ID c) []"
    using str [of 1] by (simp add: simps)
  show "MaxConcurrent c' = pick_int (getenv ''RELAY_MAX_CONCURRENT'') (MaxConcurrent c) 16"
    using num [of 2] by (simp add: simps)
  show "DynamicConfigRoot c' = pick (getenv ''RELAY_DYNAMIC_CONFIG_ROOT'') (DynamicConfigRoot c) []"
    using str [of 3] by (simp add: simps)
  show "ManagedDynamicConfig c' = pick_bool (getenv ''RELAY_MANAGED_DYNAMIC_CONFIG'') (ManagedDynamicConfig c) True"
    using flag [of 4] by (simp add: simps)
  show "LogLevel c' = pick (getenv ''RELAY_LOG_LEVEL'') (LogLevel c) ''info''"
    using str [of 6] by (simp add: simps)
  show "LogPath c' = pick (getenv ''RELAY_LOG_PATH'') (LogPath c) ''stdout''"
    using str [of 8] by (simp add: simps)
  show "EnginesEnabled c' = pick (getenv ''RELAY_ENABLED_ENGINES'') (EnginesEnabled c) ''docker,native''"
    using str [of 10] by (simp add: simps)
  show "Cog c' = Cog c" "cfg_Docker c' = cfg_Docker c" "Execution c' = Execution c"
    by (simp_all add: c' config_write_def)
qed

lemma populateE:
  assumes "populate getenv c = Ret c'"
  obtains c1 where "fill_struct getenv config_fields config_write c = Ret c1"
    and "ID c' = ID c1" "MaxConcurrent c' = MaxConcurrent c1" "DynamicConfigRoot c' = DynamicConfigRoot c1"
    and "ManagedDynamicConfig c' = ManagedDynamicConfig c1" "LogLevel c' = LogLevel c1"
    and "LogPath c' = LogPath c1" "EnginesEnabled c' = EnginesEnabled c1"
    and "ParsedEnginesEnabled c' = parseEngines_loop (split_on (CHR '','') (EnginesEnabled c1)) []"
  using assms by (auto simp: populate_def parseEngines_def)

lemma parse_extra_env_panic:
  "(\<exists>p. parse_extra_env vs m = Panic p) \<longleftrightarrow> (\<exists>v \<in> set vs. CHR ''='' \<notin> set v)"
proof (induction vs arbitrary: m)
  case (Cons v vs)
  have two: "2 = Suc (Suc 0)" by simp
  show ?case
  proof (cases "break_at (CHR ''='') v")
    case None
    then show ?thesis by (simp add: two break_at_None [symmetric])
  next
    case (Some ab)
    then obtain a b where ab: "ab = (a, b)" by (cases ab)
    with Some have "CHR ''='' \<in> set v" by (auto dest: break_at_Some)
    moreover have "split_n (CHR ''='') 2 v = [a, b]" using Some ab by (simp add: two)
    ultimately show ?thesis using Cons.IH by simp
  qed
qed simp

section \<open>Properties\<close>

definition empty_environment :: "string \<Rightarrow> string" where
  "empty_environment name = []"

lemma setEnvVars_empty: "setEnvVars empty_environment fs = Ret (fs, False)"
  by (induction fs)
    (simp_all add: setEnvVars_def set_env_field_def envVarForTag_def empty_environment_def)

lemma fill_struct_empty:
  "fill_struct empty_environment flds write x =
     go_bind (setDefaultValues (flds x)) (\<lambda>(fs, _). Ret (write (write x fs) (flds (write x fs))))"
  by (simp add: fill_struct_def setEnvVars_empty Let_def split_beta)

lemma defaults_parse:
  "\<exists>r. setDefaultValues (config_fields (zero_config\<lparr>cfg_Version := v, DynamicConfigRoot := root\<rparr>)) = Ret r"
  "\<exists>r. setDefaultValues (cog_fields zero_cog) = Ret r"
  "\<exists>r. setDefaultValues (docker_fields zero_docker) = Ret r"
  "\<exists>r. setDefaultValues (execution_fields zero_execution) = Ret r"
  by (simp_all add: setDefaultValues_def config_fields_def cog_fields_def docker_fields_def
    execution_fields_def set_default_field_def zero_config_def zero_cog_def zero_docker_def
    parse_int64_def digit_value_def parse_bool_def split_beta) blast+

lemma populate_start:
  "\<exists>c'. populate empty_environment (zero_config\<lparr>cfg_Version := v, DynamicConfigRoot := root\<rparr>) = Ret c'"
proof -
  let ?c = "zero_config\<lparr>cfg_Version := v, DynamicConfigRoot := root\<rparr>"
  obtain r1 r2 r3 r4 where r: "setDefaultValues (config_fields ?c) = Ret r1"
    "setDefaultValues (cog_fields zero_cog) = Ret r2"
    "setDefaultValues (docker_fields zero_docker) = Ret r3"
    "setDefaultValues (execution_fields zero_execution) = Ret r4"
    using defaults_parse by blast
  have zero: "Cog (config_write (config_write ?c a) b) = None"
    "cfg_Docker (config_write (config_write ?c a) b) = None"
    "Execution (config_write (config_write ?c a) b) = None" for a b
    by (simp_all add: config_write_def zero_config_def)
  show ?thesis
    by (simp add: populate_def fill_struct_empty r zero split_beta)
      (simp add: ExecutionInfo_parse_def zero_execution_def)
qed

lemma populate_empty: "\<exists>c'. populate empty_environment zero_config = Ret c'"
proof -
  have "zero_config\<lparr>cfg_Version := 0, DynamicConfigRoot := []\<rparr> = zero_config" by (simp add: zero_config_def)
  then show ?thesis using populate_start [where v = 0 and root = "[]"] by simp
qed



text \<open>
  Switching managed dynamic configuration off in the configuration file has no effect. The
  default is true and is written over the file's false; only the environment variable can
  switch it off.
\<close>

theorem managed_config_cannot_be_disabled_by_file:
  assumes "populate getenv (c\<lparr>ManagedDynamicConfig := False\<rparr>) = Ret c'"
    and "getenv ''RELAY_MANAGED_DYNAMIC_CONFIG'' = []"
  shows "ManagedDynamicConfig c'"
  using assms by (elim populateE) (simp add: fill_config pick_bool_def)

theorem managed_config_cannot_be_disabled_by_file_witness:
  "\<exists>c'. populate empty_environment (zero_config\<lparr>ManagedDynamicConfig := False\<rparr>) = Ret c' \<and> ManagedDynamicConfig c'"
proof -
  have "zero_config\<lparr>ManagedDynamicConfig := False\<rparr> = zero_config" by (simp add: zero_config_def)
  then obtain c' where "populate empty_environment (zero_config\<lparr>ManagedDynamicConfig := False\<rparr>) = Ret c'"
    using populate_empty by auto
  with managed_config_cannot_be_disabled_by_file [OF this] show ?thesis
    by (auto simp: empty_environment_def)
qed

text \<open>
  The enabled engines. An engine is enabled exactly when its name is one of the comma
  separated entries of \<^verbatim>\<open>enabled_engines\<close>, up to surrounding spaces; other names are dropped
  and no engine is listed twice.
\<close>

theorem enabled_engines:
  "DockerEnabled (parseEngines c) = (''docker'' \<in> trim_char (CHR '' '') ` set (split_on (CHR '','') (EnginesEnabled c))) \<and>
   NativeEnabled (parseEngines c) = (''native'' \<in> trim_char (CHR '' '') ` set (split_on (CHR '','') (EnginesEnabled c))) \<and>
   set (ParsedEnginesEnabled (parseEngines c)) \<subseteq> {''docker'', ''native''} \<and>
   distinct (ParsedEnginesEnabled (parseEngines c))"
  by (auto simp: DockerEnabled_def NativeEnabled_def DockerEngine_def NativeEngine_def parseEngines_def
    parseEngines_loop_set isValidEngineName_iff parseEngines_loop_distinct)

text \<open>
  What \<^verbatim>\<open>Verify\<close> accepts. A configuration passes exactly when some engine is enabled and
  managed dynamic configuration, if on, has a root directory; the root then becomes the managed
  link below it and nothing else changes.
\<close>

theorem Verify_accepts:
  "(\<exists>c'. Verify c = Inr c') = ((DockerEnabled c \<or> NativeEnabled c) \<and> (ManagedDynamicConfig c \<longrightarrow> DynamicConfigRoot c \<noteq> [])) \<and>
   (\<forall>c'. Verify c = Inr c' \<longrightarrow>
      c' = c\<lparr>DynamicConfigRoot := (if ManagedDynamicConfig c then path_join [DynamicConfigRoot c, ''__managed__'']
                                 else DynamicConfigRoot c)\<rparr>)"
  by (auto simp: Verify_def ManagedDynamicConfigLink_def)

theorem Verify_accepts_witness:
  "Verify (zero_config\<lparr>ParsedEnginesEnabled := [''native''], ManagedDynamicConfig := True, DynamicConfigRoot := ''/tmp/dyn''\<rparr>) =
   Inr (zero_config\<lparr>ParsedEnginesEnabled := [''native''], ManagedDynamicConfig := True, DynamicConfigRoot := ''/tmp/dyn/__managed__''\<rparr>)"
proof -
  let ?c = "zero_config\<lparr>ParsedEnginesEnabled := [''native''], ManagedDynamicConfig := True, DynamicConfigRoot := ''/tmp/dyn''\<rparr>"
  have "path_join [''/tmp/dyn'', ''__managed__''] = ''/tmp/dyn/__managed__''" by code_simp
  then show ?thesis
    using Verify_accepts [of ?c] by (auto simp: NativeEnabled_def NativeEngine_def)
qed

text \<open>
  The extra environment of all commands. When the entries parse, no variable of the result
  begins with a reserved prefix; parsing panics exactly when an entry has no equals sign.
\<close>

theorem extra_env_safe:
  "(\<forall>x'. ExecutionInfo_parse x = Ret x' \<longrightarrow> (\<forall>k \<in> dom (ParsedExtraEnv x'). \<not> reserved_key k)) \<and>
   (\<exists>p. ExecutionInfo_parse x = Panic p) = (\<exists>v \<in> set (ExtraEnv x). CHR ''='' \<notin> set v)"
proof -
  have "(\<exists>p. ExecutionInfo_parse x = Panic p) = (\<exists>p. parse_extra_env (ExtraEnv x) Map.empty = Panic p)"
    by (cases "parse_extra_env (ExtraEnv x) Map.empty") (simp_all add: ExecutionInfo_parse_def)
  then show ?thesis by (auto simp: parse_extra_env_panic dest: ExecutionInfo_parse_reserved)
qed

theorem extra_env_safe_witness:
  "\<exists>x'. ExecutionInfo_parse (zero_execution\<lparr>ExtraEnv := [''A=1'', ''COG_X=2'']\<rparr>) = Ret x' \<and> \<not> reserved_key ''A'' \<and>
     ParsedExtraEnv x' = [''A'' \<mapsto> ''1'']"
proof -
  let ?x = "zero_execution\<lparr>ExtraEnv := [''A=1'', ''COG_X=2'']\<rparr>"
  have "ExecutionInfo_parse ?x = Ret (?x\<lparr>ParsedExtraEnv := [''A'' \<mapsto> ''1'']\<rparr>)"
    by (simp add: ExecutionInfo_parse_def numeral_2_eq_2)
  with extra_env_safe [of ?x] show ?thesis by auto
qed

end
