(* ===== verification/Dynamic_Config.thy ===== *)
theory Dynamic_Config
  imports Relay_Config
begin

text \<open>
  Loading a bundle's dynamic configuration, \<^verbatim>\<open>relay/config/dynamic_config.go\<close>: up to three
  YAML files (base, room, user) are read in this order into one map, and the keys that could
  shadow the relay's own environment variables are removed. The file system is read through
  two parameters, \<open>stat\<close> (nothing on an error, else whether the path is a directory) and
  \<open>readFile\<close>; \<open>yaml\<close> is the third-party decoder, which decodes a file into an existing map.
\<close>

section \<open>The model\<close>

definition resolveYAMLFile :: "(string \<Rightarrow> bool option) \<Rightarrow> string \<Rightarrow> string" where
  "resolveYAMLFile stat base =
     (let fullYamlPath = base @ ''.yaml''
      in if stat fullYamlPath = None \<or> stat fullYamlPath = Some True
         then let fullYmlPath = base @ ''.yml''
              in if stat fullYmlPath = None \<or> stat fullYmlPath = Some True then [] else fullYmlPath
         else fullYamlPath)"

definition allConfigFiles :: "(string \<Rightarrow> bool option) \<Rightarrow> string \<Rightarrow> string \<Rightarrow> string \<Rightarrow> string \<Rightarrow> string list" where
  "allConfigFiles stat configRoot bundle room user =
     (let base = resolveYAMLFile stat (path_join [configRoot, bundle, ''config'']);
          roomFile = resolveYAMLFile stat (path_join [configRoot, bundle, ''room_'' @ to_lower room]);
          userFile = resolveYAMLFile stat (path_join [configRoot, bundle, ''user_'' @ to_lower user])
      in (if base \<noteq> [] then [base] else []) @ (if roomFile \<noteq> [] then [roomFile] else []) @
         (if userFile \<noteq> [] then [userFile] else []))"

text \<open>The loop over the files. Any failure gives the empty map.\<close>

fun read_layers ::
    "(string \<Rightarrow> error + string) \<Rightarrow> (string \<Rightarrow> (string \<rightharpoonup> go_value) \<Rightarrow> error + (string \<rightharpoonup> go_value)) \<Rightarrow>
     string list \<Rightarrow> (string \<rightharpoonup> go_value) \<Rightarrow> (string \<rightharpoonup> go_value) option" where
  "read_layers readFile yaml [] retval = Some retval"
| "read_layers readFile yaml (f # fs) retval =
     (case readFile f of
        Inl e \<Rightarrow> None
      | Inr buf \<Rightarrow>
          (case yaml buf retval of
             Inl e \<Rightarrow> None
           | Inr retval' \<Rightarrow> read_layers readFile yaml fs retval'))"

fun strip_reserved :: "string list \<Rightarrow> (string \<rightharpoonup> go_value) \<Rightarrow> (string \<rightharpoonup> go_value)" where
  "strip_reserved [] retval = retval"
| "strip_reserved (k # ks) retval =
     strip_reserved ks (if has_prefix k ''COG_'' \<or> has_prefix k ''RELAY_'' then map_delete k retval else retval)"

text \<open>
  \<^verbatim>\<open>LoadDynamicConfig\<close>; \<open>ord\<close> gives the order in which the final loop visits the keys of
  the merged map.
\<close>

definition LoadDynamicConfig ::
    "(string \<Rightarrow> bool option) \<Rightarrow> (string \<Rightarrow> error + string) \<Rightarrow>
     (string \<Rightarrow> (string \<rightharpoonup> go_value) \<Rightarrow> error + (string \<rightharpoonup> go_value)) \<Rightarrow>
     ((string \<rightharpoonup> go_value) \<Rightarrow> string list) \<Rightarrow> Config \<Rightarrow> string \<Rightarrow> string \<Rightarrow> string \<Rightarrow> (string \<rightharpoonup> go_value)" where
  "LoadDynamicConfig stat readFile yaml ord c bundle roomName userName =
     (if DynamicConfigRoot c = [] then Map.empty
      else if stat (DynamicConfigRoot c) = None \<or> stat (DynamicConfigRoot c) = Some False then Map.empty
      else case read_layers readFile yaml (allConfigFiles stat (DynamicConfigRoot c) bundle roomName userName) Map.empty of
        None \<Rightarrow> Map.empty
      | Some retval \<Rightarrow> strip_reserved (ord retval) retval)"

section \<open>Laws\<close>

lemma strip_reserved_apply:
  "strip_reserved ks m k = (if k \<in> set ks \<and> reserved_key k then None else m k)"
  by (induction ks arbitrary: m) (auto simp: reserved_key_def)

lemma LoadDynamicConfig_reserved:
  assumes "\<And>m. read_layers readFile yaml (allConfigFiles stat (DynamicConfigRoot c) bundle room user) Map.empty = Some m \<Longrightarrow>
      range_order m (ord m)"
    and "k \<in> dom (LoadDynamicConfig stat readFile yaml ord c bundle room user)"
  shows "\<not> reserved_key k"
  using assms
  by (auto simp: LoadDynamicConfig_def strip_reserved_apply range_order_def split: if_splits option.splits)

text \<open>
  What the loader relies on from the decoder, as its documentation states it: decoding into a
  map sets the keys of the document and keeps the others.
\<close>

definition yaml_merges ::
    "(string \<Rightarrow> (string \<rightharpoonup> go_value) \<Rightarrow> error + (string \<rightharpoonup> go_value)) \<Rightarrow> (string \<Rightarrow> (string \<rightharpoonup> go_value)) \<Rightarrow> bool" where
  "yaml_merges yaml doc \<longleftrightarrow> (\<forall>buf m. yaml buf m = Inr (m ++ doc buf))"

definition layer ::
    "(string \<Rightarrow> bool option) \<Rightarrow> (string \<Rightarrow> string) \<Rightarrow> (string \<Rightarrow> (string \<rightharpoonup> go_value)) \<Rightarrow> string \<Rightarrow> (string \<rightharpoonup> go_value)" where
  "layer stat contents doc base =
     (if resolveYAMLFile stat base = [] then Map.empty else doc (contents (resolveYAMLFile stat base)))"

lemma read_layers_merge:
  assumes "yaml_merges yaml doc" and "\<And>f. readFile f = Inr (contents f)"
  shows "read_layers readFile yaml fs m = Some (foldl (\<lambda>m f. m ++ doc (contents f)) m fs)"
  using assms by (induction fs arbitrary: m) (auto simp: yaml_merges_def)

lemma read_layers_failure:
  "f \<in> set fs \<Longrightarrow> readFile f = Inl e \<Longrightarrow> read_layers readFile yaml fs m = None"
  by (induction fs arbitrary: m) (auto split: sum.splits)

section \<open>Properties\<close>

text \<open>
  Dynamic configuration never shadows the relay's variables. No key of the loaded map
  begins with \<^verbatim>\<open>COG_\<close> or \<^verbatim>\<open>RELAY_\<close>, whatever the files contain and whatever order the
  loop visits the keys in.
\<close>

theorem dynamic_config_no_reserved_keys:
  assumes "\<And>m. read_layers readFile yaml (allConfigFiles stat (DynamicConfigRoot c) bundle room user) Map.empty = Some m \<Longrightarrow>
      range_order m (ord m)"
    and "k \<in> dom (LoadDynamicConfig stat readFile yaml ord c bundle room user)"
  shows "\<not> reserved_key k"
  using assms by (rule LoadDynamicConfig_reserved)

theorem dynamic_config_no_reserved_keys_witness:
  "\<not> reserved_key ''A''"
proof (rule dynamic_config_no_reserved_keys)
  let ?stat = "\<lambda>f. if f = ''/d'' then Some True else if f = ''/d/b/config.yaml'' then Some False else None"
  let ?yaml = "\<lambda>_ m. Inr (m(''A'' \<mapsto> GInt 1, ''COG_X'' \<mapsto> GInt 2)) :: error + (string \<rightharpoonup> go_value)"
  let ?c = "zero_config\<lparr>DynamicConfigRoot := ''/d''\<rparr>"
  have files: "allConfigFiles ?stat ''/d'' ''b'' ''r'' ''u'' = [''/d/b/config.yaml'']" by code_simp
  have layers: "read_layers (\<lambda>_. Inr []) ?yaml (allConfigFiles ?stat (DynamicConfigRoot ?c) ''b'' ''r'' ''u'') Map.empty =
      Some [''A'' \<mapsto> GInt 1, ''COG_X'' \<mapsto> GInt 2]"
    by (simp add: files)
  show "range_order m ((\<lambda>_. [''A'', ''COG_X'']) m)"
    if "read_layers (\<lambda>_. Inr []) ?yaml (allConfigFiles ?stat (DynamicConfigRoot ?c) ''b'' ''r'' ''u'') Map.empty = Some m" for m
    using that layers by (auto simp: range_order_def)
  show "''A'' \<in> dom (LoadDynamicConfig ?stat (\<lambda>_. Inr []) ?yaml (\<lambda>_. [''A'', ''COG_X'']) ?c ''b'' ''r'' ''u'')"
    by (simp add: LoadDynamicConfig_def files)
qed



text \<open>
  A dynamic configuration file that exists but cannot be read makes the whole dynamic
  configuration empty: no partly merged map is ever returned.
\<close>

theorem dynamic_config_all_or_nothing:
  assumes "f \<in> set (allConfigFiles stat (DynamicConfigRoot c) bundle room user)" and "readFile f = Inl e"
  shows "LoadDynamicConfig stat readFile yaml ord c bundle room user = Map.empty"
  using read_layers_failure [of f _ readFile e, OF assms] by (auto simp: LoadDynamicConfig_def)

theorem dynamic_config_all_or_nothing_witness:
  "LoadDynamicConfig (\<lambda>f. Some (f = ''/d'')) (\<lambda>f. Inl ''denied'') (\<lambda>buf m. Inr m) (\<lambda>m. [])
     (zero_config\<lparr>DynamicConfigRoot := ''/d''\<rparr>) ''b'' ''r'' ''u'' = Map.empty"
proof (rule dynamic_config_all_or_nothing)
  have "''/d/b/room_r.yaml'' \<in> set (allConfigFiles (\<lambda>f. Some (f = ''/d'')) ''/d'' ''b'' ''r'' ''u'')" by code_simp
  then show "''/d/b/room_r.yaml'' \<in> set (allConfigFiles (\<lambda>f. Some (f = ''/d''))
      (DynamicConfigRoot (zero_config\<lparr>DynamicConfigRoot := ''/d''\<rparr>)) ''b'' ''r'' ''u'')"
    by simp
qed (rule refl)

end
