(* ===== verification/Bundle_Config.thy ===== *)
theory Bundle_Config
  imports Relay_Prelude
begin

text \<open>
  Command bundles, \<^verbatim>\<open>relay/config/bundle_config.go\<close>: the configuration Cog sends for a
  bundle, its availability flag, the test that decides whether its assets have to be fetched
  again, and the parser that validates a bundle and fills in the names its maps are keyed by.
  A pointer field that may be nil is an \<^typ>\<open>'a option\<close>.
\<close>

record DockerImage =
  Image :: string
  Tag :: string
  Binds :: "string list"

record BundleCommandOption =
  opt_Name :: string
  opt_Type :: string
  opt_Description :: string
  opt_Required :: bool
  opt_ShortFlag :: string

record BundleCommand =
  cmd_Name :: string
  Executable :: string
  cmd_Options :: "string \<rightharpoonup> BundleCommandOption option"
  Rules :: "string list"
  EnvVars :: "string \<rightharpoonup> string"

record BundleTemplate =
  tmpl_Name :: string
  Slack :: string
  HipChat :: string
  IRC :: string

record Bundle =
  BundleVersion :: int
  Name :: string
  Version :: string
  Permissions :: "string list"
  Docker :: "DockerImage option"
  Commands :: "string \<rightharpoonup> BundleCommand option"
  Templates :: "string \<rightharpoonup> BundleTemplate option"
  available :: bool

definition IsDocker :: "Bundle \<Rightarrow> bool" where
  "IsDocker b = (Docker b \<noteq> None)"

definition IsAvailable :: "Bundle \<Rightarrow> bool" where
  "IsAvailable b = available b"

definition SetAvailable :: "bool \<Rightarrow> Bundle \<Rightarrow> Bundle" where
  "SetAvailable flag b = b\<lparr>available := flag\<rparr>"

definition NeedsRefresh :: "Bundle \<Rightarrow> bool" where
  "NeedsRefresh b =
     (case Docker b of
        Some d \<Rightarrow> Tag d = ''latest'' \<or> \<not> available b
      | None \<Rightarrow> \<not> available b)"

definition PrettyImageName :: "DockerImage \<Rightarrow> string" where
  "PrettyImageName di = Image di @ '':'' @ Tag di"

text \<open>
  \<^verbatim>\<open>validateBundleConfig\<close> runs the validator over the bundle and, only when that succeeds
  and the bundle has a Docker stanza, over the stanza. The validator is third-party code, a
  parameter: it returns the error, if any.
\<close>

definition validateBundleConfig ::
    "(Bundle \<Rightarrow> error option) \<Rightarrow> (DockerImage \<Rightarrow> error option) \<Rightarrow> Bundle \<Rightarrow> error option" where
  "validateBundleConfig validate validateDocker b =
     (case validate b of
        Some e \<Rightarrow> Some e
      | None \<Rightarrow> (case Docker b of None \<Rightarrow> None | Some d \<Rightarrow> validateDocker d))"

text \<open>
  The loops of \<^verbatim>\<open>ParseBundleConfig\<close> that store each map key into the value it maps to.
  A JSON \<^verbatim>\<open>null\<close> leaves a nil pointer in the map, and storing through it panics.
\<close>

fun name_options ::
    "string list \<Rightarrow> (string \<rightharpoonup> BundleCommandOption option) \<Rightarrow> (string \<rightharpoonup> BundleCommandOption option) go_result" where
  "name_options [] m = Ret m"
| "name_options (k # ks) m =
     (case m k of
        Some (Some option) \<Rightarrow> name_options ks (m(k \<mapsto> Some (option\<lparr>opt_Name := k\<rparr>)))
      | Some None \<Rightarrow> Panic ''nil option''
      | None \<Rightarrow> name_options ks m)"

fun name_commands ::
    "(string \<Rightarrow> string list) \<Rightarrow> string list \<Rightarrow> (string \<rightharpoonup> BundleCommand option) \<Rightarrow>
     (string \<rightharpoonup> BundleCommand option) go_result" where
  "name_commands opt_order [] m = Ret m"
| "name_commands opt_order (k # ks) m =
     (case m k of
        Some (Some command) \<Rightarrow>
          go_bind (name_options (opt_order k) (cmd_Options command))
            (\<lambda>opts. name_commands opt_order ks
               (m(k \<mapsto> Some (command\<lparr>cmd_Options := opts, cmd_Name := k\<rparr>))))
      | Some None \<Rightarrow> Panic ''nil command''
      | None \<Rightarrow> name_commands opt_order ks m)"

fun name_templates ::
    "string list \<Rightarrow> (string \<rightharpoonup> BundleTemplate option) \<Rightarrow> (string \<rightharpoonup> BundleTemplate option) go_result" where
  "name_templates [] m = Ret m"
| "name_templates (k # ks) m =
     (case m k of
        Some (Some template) \<Rightarrow> name_templates ks (m(k \<mapsto> Some (template\<lparr>tmpl_Name := k\<rparr>)))
      | Some None \<Rightarrow> Panic ''nil template''
      | None \<Rightarrow> name_templates ks m)"

text \<open>
  \<^verbatim>\<open>ParseBundleConfig\<close>. The JSON decoder is a parameter, and so are the iteration orders of
  the three maps: of the commands, of each command's options and of the templates.
\<close>

definition ParseBundleConfig ::
    "(string \<Rightarrow> error + Bundle) \<Rightarrow> (Bundle \<Rightarrow> error option) \<Rightarrow> (DockerImage \<Rightarrow> error option) \<Rightarrow>
     (string \<Rightarrow> string list) \<Rightarrow> string list \<Rightarrow> string list \<Rightarrow> string \<Rightarrow> (error + Bundle) go_result" where
  "ParseBundleConfig unmarshal validate validateDocker opt_order cmd_order tmpl_order data =
     (case unmarshal data of
        Inl e \<Rightarrow> Ret (Inl e)
      | Inr result \<Rightarrow>
          (case validateBundleConfig validate validateDocker result of
             Some e \<Rightarrow> Ret (Inl e)
           | None \<Rightarrow>
               go_bind (name_commands opt_order cmd_order (Commands result)) (\<lambda>cmds.
               go_bind (name_templates tmpl_order (Templates result)) (\<lambda>tmpls.
               Ret (Inr (result\<lparr>Commands := cmds, Templates := tmpls\<rparr>))))))"

section \<open>Laws\<close>

named_theorems bundle_simps "the bundle accessors, as rewrite rules"

lemma bundle_accessors [bundle_simps]:
  "IsAvailable b = available b"
  "available (SetAvailable f b) = f"
  "Name (SetAvailable f b) = Name b"
  "Version (SetAvailable f b) = Version b"
  "Docker (SetAvailable f b) = Docker b"
  "IsDocker (SetAvailable f b) = IsDocker b"
  by (simp_all add: IsAvailable_def SetAvailable_def IsDocker_def)

text \<open>A bundle marked available is only fetched again when its image is tagged \<^verbatim>\<open>latest\<close>.\<close>

lemma NeedsRefresh_available:
  "available b \<Longrightarrow> NeedsRefresh b \<longleftrightarrow> (\<exists>d. Docker b = Some d \<and> Tag d = ''latest'')"
  by (auto simp: NeedsRefresh_def split: option.splits)

lemma NeedsRefresh_unavailable: "\<not> available b \<Longrightarrow> NeedsRefresh b"
  by (auto simp: NeedsRefresh_def split: option.splits)

lemma name_options_apply:
  "name_options ks m = Ret m' \<Longrightarrow>
     m' k = (if k \<in> set ks then map_option (map_option (\<lambda>opt. opt\<lparr>opt_Name := k\<rparr>)) (m k) else m k)"
  by (induction ks m rule: name_options.induct) (auto split: option.splits if_splits)

lemma name_options_total:
  "(\<forall>k \<in> set ks. m k \<noteq> Some None) \<Longrightarrow> \<exists>m'. name_options ks m = Ret m'"
  by (induction ks m rule: name_options.induct) (auto split: option.splits)

lemma name_templates_apply:
  "name_templates ks m = Ret m' \<Longrightarrow>
     m' k = (if k \<in> set ks then map_option (map_option (\<lambda>t. t\<lparr>tmpl_Name := k\<rparr>)) (m k) else m k)"
  by (induction ks m rule: name_templates.induct) (auto split: option.splits if_splits)

end
