(* ===== verification/Directives.thy ===== *)
theory Directives
  imports Bundle_Config
begin

text \<open>
  The directives Cog and the relay exchange, \<^verbatim>\<open>relay/messages/directives.go\<close> and
  \<^verbatim>\<open>relay/messages/helpers.go\<close>. A message is the value the Go code hands to the JSON
  encoder; the encoding itself is the standard library's. The decoder of an untyped directive
  is a parameter of \<open>ParseUntypedDirective\<close>.
\<close>

record ListBundlesMessage =
  lb_RelayID :: string
  lb_ReplyTo :: string

record BundleSpec =
  ConfigFile :: Bundle

record ListBundlesResponseEnvelope =
  resp_Bundles :: "BundleSpec list"

record BundleRef =
  ref_Name :: string
  ref_Version :: string

record GetDynamicConfigs =
  gdc_RelayID :: string
  gdc_Signature :: string
  gdc_ReplyTo :: string

record DynamicConfig =
  Layer :: string
  dc_Name :: string
  dc_Config :: go_value

record DynamicConfigsResponseEnvelope =
  Signature :: string
  Changed :: bool
  Configs :: "string \<rightharpoonup> DynamicConfig list"

record Announcement =
  ann_ID :: string
  ann_RelayID :: string
  Online :: bool
  ann_Bundles :: "BundleRef list"
  Snapshot :: bool
  ann_ReplyTo :: string

record AnnouncementReceipt =
  rcpt_ID :: string
  rcpt_Status :: string
  rcpt_Bundles :: go_value

definition NewOfflineAnnouncement :: "string \<Rightarrow> string \<Rightarrow> Announcement" where
  "NewOfflineAnnouncement relayID replyTo =
     \<lparr>ann_ID = ''0'', ann_RelayID = relayID, Online = False, ann_Bundles = [], Snapshot = True,
      ann_ReplyTo = replyTo\<rparr>"

text \<open>
  The loop of \<^verbatim>\<open>NewBundleAnnouncementExtended\<close> stores name and version of the i-th bundle
  into the i-th entry of a slice of the same length.
\<close>

fun bundle_refs :: "Bundle list \<Rightarrow> BundleRef list" where
  "bundle_refs [] = []"
| "bundle_refs (v # vs) = \<lparr>ref_Name = Name v, ref_Version = Version v\<rparr> # bundle_refs vs"

definition NewBundleAnnouncementExtended ::
    "string \<Rightarrow> Bundle list \<Rightarrow> string \<Rightarrow> string \<Rightarrow> Announcement" where
  "NewBundleAnnouncementExtended relayID bs replyTo annID =
     \<lparr>ann_ID = annID, ann_RelayID = relayID, Online = True, ann_Bundles = bundle_refs bs,
      Snapshot = True, ann_ReplyTo = replyTo\<rparr>"

text \<open>
  \<^verbatim>\<open>ParseUntypedDirective\<close> decodes the payload twice: as a generic object, to see which keys
  it has, and, when \<^verbatim>\<open>bundles\<close> is one of them, as a bundle list. When the second decoding
  fails the function returns the partly filled result beside the error; its caller looks at
  the error first, so the model returns the error alone.
\<close>

definition errorUnknownMessageType :: error where
  "errorUnknownMessageType = ''Unknown message type''"

definition ParseUntypedDirective ::
    "(string \<Rightarrow> error + (string \<rightharpoonup> go_value)) \<Rightarrow> (string \<Rightarrow> error + ListBundlesResponseEnvelope) \<Rightarrow>
     string \<Rightarrow> error + ListBundlesResponseEnvelope" where
  "ParseUntypedDirective unmarshalAny unmarshalList payload =
     (case unmarshalAny payload of
        Inl e \<Rightarrow> Inl e
      | Inr untypedPayload \<Rightarrow>
          if untypedPayload ''bundles'' \<noteq> None then unmarshalList payload
          else Inl errorUnknownMessageType)"

lemma bundle_refs_map:
  "bundle_refs bs = map (\<lambda>b. \<lparr>ref_Name = Name b, ref_Version = Version b\<rparr>) bs"
  by (induction bs) auto

end
