(* ===== verification/Mqtt_Bus.thy ===== *)
theory Mqtt_Bus
  imports Relay_Prelude
begin

text \<open>
  The message bus, \<^verbatim>\<open>relay/bus/{backoff,connection,mqtt}.go\<close>. The MQTT client library, the
  compression library, the certificate parser and the file system are parameters: \<open>attempt n\<close> is
  the error of the \<open>n\<close>-th attempt to connect, if it fails. The retry loops take fuel; sleeping
  is recorded as the list of the intervals waited for.
\<close>

section \<open>Backoff\<close>

definition intervalTable :: "int list" where
  "intervalTable = [5, 5, 5, 15, 15, 15, 30, 30, 30, 60, 60, 60, 90]"

definition intervals :: "8 word" where
  "intervals = of_nat (length intervalTable - 1)"

record Backoff =
  interval :: "8 word"

definition NewBackoff :: Backoff where
  "NewBackoff = \<lparr>interval = 0\<rparr>"

definition Backoff_Reset :: "Backoff \<Rightarrow> Backoff" where
  "Backoff_Reset b = b\<lparr>interval := 0\<rparr>"

definition second :: int where
  "second = 10 ^ 9"

text \<open>\<open>jitter\<close> is the result of \<^verbatim>\<open>rand.Intn(4)\<close>. Indexing the table out of range would panic.\<close>

definition nextInterval :: "int \<Rightarrow> Backoff \<Rightarrow> (int \<times> Backoff) go_result" where
  "nextInterval jitter b =
     (let b' = (if interval b < intervals then b\<lparr>interval := interval b + 1\<rparr> else b)
      in if unat (interval b') < length intervalTable
         then Ret ((intervalTable ! unat (interval b') + jitter) * second, b')
         else Panic ''index out of range'')"

definition Wait :: "int \<Rightarrow> Backoff \<times> int list \<Rightarrow> (Backoff \<times> int list) go_result" where
  "Wait jitter = (\<lambda>(b, slept). go_bind (nextInterval jitter b) (\<lambda>(d, b'). Ret (b', slept @ [d])))"

section \<open>Connections\<close>

datatype Event = ConnectedEvent

record DisconnectMessage =
  dm_Topic :: string
  dm_Body :: string

text \<open>The event handler is represented by whether there is one.\<close>

record ConnectionOptions =
  Userid :: string
  co_Password :: string
  co_Host :: string
  co_Port :: int
  co_SSLEnabled :: bool
  co_SSLCertPath :: string
  EventsHandler :: bool
  AutoReconnect :: bool
  OnDisconnect :: "DisconnectMessage option"

datatype tls_config =
    No_TLS
  | Skip_Verify
  | Root_CAs string

text \<open>\<^verbatim>\<open>mqtt.ClientOptions\<close>, as far as the connection sets them.\<close>

record mqtt_options =
  mo_AutoReconnect :: bool
  mo_KeepAlive :: int
  mo_PingTimeout :: int
  mo_Username :: string
  mo_Password :: string
  mo_ClientID :: string
  mo_CleanSession :: bool
  mo_Broker :: string
  mo_LostHandler :: bool
  mo_OnConnect :: bool
  mo_TLS :: tls_config
  mo_Will :: "(string \<times> string) option"

definition brokerURL :: "ConnectionOptions \<Rightarrow> string" where
  "brokerURL options =
     (if co_SSLEnabled options then ''ssl'' else ''tcp'') @ ''://'' @ co_Host options @ '':'' @ show_int (co_Port options)"

definition buildMQTTOptions :: "string \<Rightarrow> ConnectionOptions \<Rightarrow> mqtt_options" where
  "buildMQTTOptions clientID options =
     \<lparr>mo_AutoReconnect = AutoReconnect options, mo_KeepAlive = 60 * second, mo_PingTimeout = 15 * second,
      mo_Username = Userid options, mo_Password = co_Password options, mo_ClientID = clientID, mo_CleanSession = True,
      mo_Broker = brokerURL options, mo_LostHandler = (\<not> AutoReconnect options), mo_OnConnect = False,
      mo_TLS = No_TLS, mo_Will = None\<rparr>"

definition errorBadTLSCert :: error where
  "errorBadTLSCert = ''Bad TLS certificate''"

definition configureSSL ::
    "(string \<Rightarrow> error + string) \<Rightarrow> (string \<Rightarrow> bool) \<Rightarrow> ConnectionOptions \<Rightarrow> mqtt_options \<Rightarrow> error + mqtt_options" where
  "configureSSL readFile parsePEM options mqttOpts =
     (if \<not> co_SSLEnabled options then Inr mqttOpts
      else if co_SSLCertPath options = [] then Inr (mqttOpts\<lparr>mo_TLS := Skip_Verify\<rparr>)
      else case readFile (co_SSLCertPath options) of
        Inl err \<Rightarrow> Inl err
      | Inr buf \<Rightarrow>
          if \<not> parsePEM buf then Inl errorBadTLSCert
          else Inr (mqttOpts\<lparr>mo_TLS := Root_CAs buf\<rparr>))"

record MQTTConnection =
  mqc_options :: "ConnectionOptions option"
  mqc_conn :: "mqtt_options option"
  mqc_backoff :: Backoff

definition new_connection :: MQTTConnection where
  "new_connection = \<lparr>mqc_options = None, mqc_conn = None, mqc_backoff = NewBackoff\<rparr>"

text \<open>
  The retry loop that \<^verbatim>\<open>Connect\<close> and \<^verbatim>\<open>disconnected\<close> share. It returns the number of the
  attempt that succeeded, the backoff and what was slept; \<open>None\<close> is running out of fuel.
\<close>

fun connect_loop ::
    "nat \<Rightarrow> (nat \<Rightarrow> error option) \<Rightarrow> (nat \<Rightarrow> int) \<Rightarrow> nat \<Rightarrow> Backoff \<times> int list \<Rightarrow>
     (nat \<times> Backoff \<times> int list) go_result option" where
  "connect_loop 0 attempt jitter n st = None"
| "connect_loop (Suc fuel) attempt jitter n st =
     (case attempt n of
        Some err \<Rightarrow>
          (case Wait (jitter n) st of
             Panic p \<Rightarrow> Some (Panic p)
           | Ret st' \<Rightarrow> connect_loop fuel attempt jitter (Suc n) st')
      | None \<Rightarrow> Some (Ret (n, Backoff_Reset (fst st), snd st)))"

text \<open>
  \<^verbatim>\<open>Connect\<close>: the error, the connection, what was slept and the events the handler was
  called with. With automatic reconnection the client library calls the handler instead.
\<close>

definition Connect ::
    "nat \<Rightarrow> (string \<Rightarrow> error + string) \<Rightarrow> (string \<Rightarrow> bool) \<Rightarrow> (string \<Rightarrow> string) \<Rightarrow> string \<Rightarrow>
     (nat \<Rightarrow> error option) \<Rightarrow> (nat \<Rightarrow> int) \<Rightarrow> ConnectionOptions \<Rightarrow> MQTTConnection \<Rightarrow>
     (error option \<times> MQTTConnection \<times> int list \<times> Event list) go_result option" where
  "Connect fuel readFile parsePEM snappy clientID attempt jitter options mqc =
     (case configureSSL readFile parsePEM options (buildMQTTOptions clientID options) of
        Inl err \<Rightarrow> Some (Ret (Some err, mqc, [], []))
      | Inr o1 \<Rightarrow>
          let o2 = (case OnDisconnect options of
                      None \<Rightarrow> o1
                    | Some m \<Rightarrow> o1\<lparr>mo_Will := Some (dm_Topic m, snappy (dm_Body m))\<rparr>);
              o3 = (if EventsHandler options \<and> AutoReconnect options then o2\<lparr>mo_OnConnect := True\<rparr> else o2)
          in case connect_loop fuel attempt jitter 0 (NewBackoff, []) of
               None \<Rightarrow> None
             | Some (Panic p) \<Rightarrow> Some (Panic p)
             | Some (Ret (n, b, slept)) \<Rightarrow>
                 Some (Ret (None, mqc\<lparr>mqc_options := Some options, mqc_conn := Some o3, mqc_backoff := b\<rparr>, slept,
                   if EventsHandler options \<and> \<not> AutoReconnect options then [ConnectedEvent] else [])))"

text \<open>The handler of a lost connection, which is installed without automatic reconnection.\<close>

definition disconnected ::
    "nat \<Rightarrow> (nat \<Rightarrow> error option) \<Rightarrow> (nat \<Rightarrow> int) \<Rightarrow> MQTTConnection \<Rightarrow>
     (MQTTConnection \<times> int list \<times> Event list) go_result option" where
  "disconnected fuel attempt jitter mqc =
     (case connect_loop fuel attempt jitter 0 (mqc_backoff mqc, []) of
        None \<Rightarrow> None
      | Some (Panic p) \<Rightarrow> Some (Panic p)
      | Some (Ret (n, b, slept)) \<Rightarrow>
          Some (Ret (mqc\<lparr>mqc_backoff := b\<rparr>, slept,
            case mqc_options mqc of
              Some options \<Rightarrow> if EventsHandler options then [ConnectedEvent] else []
            | None \<Rightarrow> [])))"

text \<open>
  Publishing compresses the payload; a subscription decompresses what arrives and drops what
  does not decompress.
\<close>

definition Publish ::
    "(string \<Rightarrow> string) \<Rightarrow> (string \<Rightarrow> string \<Rightarrow> error option) \<Rightarrow> string \<Rightarrow> string \<Rightarrow> error option \<times> string" where
  "Publish snappy send topic payload = (let compressed = snappy payload in (send topic compressed, compressed))"

definition mqttHandler ::
    "(string \<Rightarrow> error + string) \<Rightarrow> (string \<Rightarrow> string \<Rightarrow> 's \<Rightarrow> 's) \<Rightarrow> string \<Rightarrow> string \<Rightarrow> 's \<Rightarrow> 's" where
  "mqttHandler unsnappy handler topic compressed s =
     (case unsnappy compressed of
        Inl err \<Rightarrow> s
      | Inr payload \<Rightarrow> handler topic payload s)"

section \<open>Laws\<close>

definition backoff_ok :: "Backoff \<Rightarrow> bool" where
  "backoff_ok b \<longleftrightarrow> interval b \<le> 12"

lemma intervals_12 [simp]: "intervals = 12"
  by (simp add: intervals_def intervalTable_def)

lemma interval_succ: "interval b < 12 \<Longrightarrow> unat (interval b + 1) = Suc (unat (interval b)) \<and> interval b + 1 \<le> 12"
  by (simp add: word_less_nat_alt word_le_nat_alt unat_add_lem [THEN iffD1])

lemma nextInterval_ok:
  assumes "backoff_ok b"
  shows "\<exists>b'. nextInterval jitter b = Ret ((intervalTable ! min 12 (Suc (unat (interval b))) + jitter) * second, b') \<and>
    backoff_ok b' \<and> unat (interval b') = min 12 (Suc (unat (interval b)))"
proof (cases "interval b < 12")
  case True
  then have "unat (interval b) < 12" by (simp add: word_less_nat_alt)
  with True interval_succ [OF True] show ?thesis
    by (simp add: nextInterval_def Let_def backoff_ok_def intervalTable_def min_def)
next
  case False
  with assms have "interval b = 12" by (simp add: backoff_ok_def)
  then show ?thesis by (simp add: nextInterval_def backoff_ok_def intervalTable_def)
qed

text \<open>The \<open>i\<close>-th wait of a run of failures that starts with the backoff at \<open>k\<close>.\<close>

definition schedule :: "nat \<Rightarrow> nat \<Rightarrow> int" where
  "schedule k i = intervalTable ! min 12 (Suc k + i)"

lemma schedule_Suc: "schedule (Suc (min 11 k)) i = schedule k (Suc i)"
  by (simp add: schedule_def min_def)

lemma connect_loop_returns:
  assumes "\<forall>i < m. attempt (n + i) \<noteq> None" and "attempt (n + m) = None" and "backoff_ok b" and "m < fuel"
  shows "connect_loop fuel attempt jitter n (b, slept) =
    Some (Ret (n + m, \<lparr>interval = 0\<rparr>,
      slept @ map (\<lambda>i. (schedule (unat (interval b)) i + jitter (n + i)) * second) [0..<m]))"
  using assms
proof (induction m arbitrary: n b slept fuel)
  case 0
  then obtain f where "fuel = Suc f" by (cases fuel) auto
  with 0 show ?case by (cases b) (simp add: Backoff_Reset_def)
next
  case (Suc m)
  then obtain f where f: "fuel = Suc f" "m < f" by (cases fuel) auto
  from Suc.prems(1) obtain err where err: "attempt n = Some err" by fastforce
  obtain b' where b': "nextInterval (jitter n) b = Ret ((schedule (unat (interval b)) 0 + jitter n) * second, b')"
    "backoff_ok b'" "unat (interval b') = min 12 (Suc (unat (interval b)))"
    using nextInterval_ok [OF Suc.prems(3), of "jitter n"] by (auto simp: schedule_def)
  have "connect_loop f attempt jitter (Suc n) (b', slept @ [(schedule (unat (interval b)) 0 + jitter n) * second]) =
      Some (Ret (Suc n + m, \<lparr>interval = 0\<rparr>, (slept @ [(schedule (unat (interval b)) 0 + jitter n) * second]) @
        map (\<lambda>i. (schedule (unat (interval b')) i + jitter (Suc n + i)) * second) [0..<m]))"
    using Suc.prems(1,2) b'(2) f(2) by (intro Suc.IH) auto
  then show ?case
    using f(1) err b'(1,3) by (simp add: Wait_def schedule_Suc upt_conv_Cons map_Suc_upt [symmetric] comp_def del: upt_Suc)
qed

lemma schedule_bounds: "5 \<le> schedule k i \<and> schedule k i \<le> 90"
proof -
  have "schedule k i \<in> set intervalTable" unfolding schedule_def by (rule nth_mem) (simp add: intervalTable_def)
  then show ?thesis by (auto simp: intervalTable_def)
qed

section \<open>Properties\<close>

text \<open>
  C30: connecting ends as soon as an attempt succeeds. If the broker refuses the first \<open>m\<close>
  attempts and accepts the next one, and the certificate is usable, \<^verbatim>\<open>Connect\<close> returns
  without an error after exactly \<open>m\<close> waits, with its backoff reset; it calls the event handler
  once, unless the client library does. More fuel than \<open>m\<close> is enough.
\<close>

theorem Connect_returns:
  assumes "\<forall>i < m. attempt i \<noteq> None" and "attempt m = None" and "m < fuel"
    and "configureSSL readFile parsePEM options (buildMQTTOptions clientID options) = Inr o1"
  shows "\<exists>mqc' slept. Connect fuel readFile parsePEM snappy clientID attempt jitter options mqc =
      Some (Ret (None, mqc', slept, if EventsHandler options \<and> \<not> AutoReconnect options then [ConnectedEvent] else [])) \<and>
    length slept = m \<and> interval (mqc_backoff mqc') = 0 \<and> mqc_options mqc' = Some options"
proof -
  have "connect_loop fuel attempt jitter 0 (NewBackoff, []) = Some (Ret (m, \<lparr>interval = 0\<rparr>,
      map (\<lambda>i. (schedule (unat (interval NewBackoff)) i + jitter (0 + i)) * second) [0..<m]))"
    using connect_loop_returns [of m attempt 0 NewBackoff fuel jitter "[]"] assms(1-3)
    by (simp add: backoff_ok_def NewBackoff_def)
  then show ?thesis using assms(4) by (simp add: Connect_def Let_def)
qed

theorem Connect_returns_witness:
  "\<exists>mqc' slept. Connect 3 (\<lambda>_. Inl []) (\<lambda>_. True) (\<lambda>s. s) ''id'' (\<lambda>n. if n < 2 then Some ''refused'' else None) (\<lambda>_. 0)
      \<lparr>Userid = [], co_Password = [], co_Host = ''h'', co_Port = 1, co_SSLEnabled = False, co_SSLCertPath = [],
       EventsHandler = True, AutoReconnect = False, OnDisconnect = None\<rparr> new_connection =
    Some (Ret (None, mqc', slept, [ConnectedEvent])) \<and> length slept = 2"
proof -
  let ?o = "\<lparr>Userid = [], co_Password = [], co_Host = ''h'', co_Port = 1, co_SSLEnabled = False, co_SSLCertPath = [],
       EventsHandler = True, AutoReconnect = False, OnDisconnect = None\<rparr>"
  have "configureSSL (\<lambda>_. Inl []) (\<lambda>_. True) ?o (buildMQTTOptions ''id'' ?o) = Inr (buildMQTTOptions ''id'' ?o)"
    by (simp add: configureSSL_def)
  from Connect_returns [of 2 "\<lambda>n. if n < 2 then Some ''refused'' else None" 3, OF _ _ _ this, where snappy = "\<lambda>s. s" and
      jitter = "\<lambda>_. 0" and mqc = new_connection]
  show ?thesis by auto
qed

text \<open>
  C31: how long a relay waits between attempts. In a run of failures that starts with any
  backoff a connection can have, every wait is between 5 and 93 seconds, from the twelfth on
  each wait is at least 90 seconds, and the index into the table is always in range, in 8-bit
  arithmetic.
\<close>

theorem reconnect_waits_bounded:
  assumes "backoff_ok b" and "\<forall>i < m. attempt i \<noteq> None" and "attempt m = None" and "m < fuel"
    and "\<forall>i. 0 \<le> jitter i \<and> jitter i < 4"
  shows "\<exists>b' slept. connect_loop fuel attempt jitter 0 (b, []) = Some (Ret (m, b', slept)) \<and> backoff_ok b' \<and>
    (\<forall>d \<in> set slept. 5 * second \<le> d \<and> d \<le> 93 * second) \<and>
    (\<forall>i < length slept. 11 \<le> i \<longrightarrow> 90 * second \<le> slept ! i)"
proof -
  let ?slept = "map (\<lambda>i. (schedule (unat (interval b)) i + jitter i) * second) [0..<m]"
  have run: "connect_loop fuel attempt jitter 0 (b, []) = Some (Ret (m, \<lparr>interval = 0\<rparr>, ?slept))"
    using connect_loop_returns [of m attempt 0 b fuel jitter "[]"] assms(1-4) by simp
  have "5 * second \<le> (schedule k i + jitter i) * second \<and> (schedule k i + jitter i) * second \<le> 93 * second" for k i
    using schedule_bounds [of k i] assms(5) [rule_format, of i] by (simp add: second_def)
  moreover have "90 * second \<le> (schedule k i + jitter i) * second" if "11 \<le> i" for k i
  proof -
    have "schedule k i = 90" using that by (simp add: schedule_def intervalTable_def min_def)
    then show ?thesis using assms(5) [rule_format, of i] by (simp add: second_def)
  qed
  ultimately show ?thesis using run by (auto simp: backoff_ok_def)
qed

theorem reconnect_waits_bounded_witness:
  "\<exists>b' slept. connect_loop 15 (\<lambda>n. if n < 14 then Some ''refused'' else None) (\<lambda>_. 3) 0 (NewBackoff, []) = Some (Ret (14, b', slept)) \<and>
     (\<forall>d \<in> set slept. 5 * second \<le> d \<and> d \<le> 93 * second)"
  using reconnect_waits_bounded [of NewBackoff 14 "\<lambda>n. if n < 14 then Some ''refused'' else None" 15 "\<lambda>_. 3"]
  by (auto simp: backoff_ok_def NewBackoff_def)

text \<open>
  What one side publishes, the other side's handler receives: the payload of a publication
  goes unchanged through compression and decompression to the subscribed handler, and a message
  that does not decompress is dropped without calling the handler.
\<close>

theorem publish_subscribe_roundtrip:
  assumes "\<And>p. unsnappy (snappy p) = Inr p"
  shows "mqttHandler unsnappy handler topic (snd (Publish snappy send topic payload)) s = handler topic payload s \<and>
    (unsnappy bad = Inl err \<longrightarrow> mqttHandler unsnappy handler topic bad s = s)"
  using assms by (simp add: mqttHandler_def Publish_def Let_def)

theorem publish_subscribe_roundtrip_witness:
  "mqttHandler (\<lambda>z. case z of [] \<Rightarrow> Inl ''corrupt'' | c # p \<Rightarrow> Inr p) (\<lambda>t p s. s @ [(t, p)]) ''t''
     (snd (Publish (\<lambda>p. CHR ''z'' # p) (\<lambda>_ _. None) ''t'' ''hello'')) [] = [(''t'', ''hello'')]"
  using publish_subscribe_roundtrip [of "\<lambda>z. case z of [] \<Rightarrow> Inl ''corrupt'' | c # p \<Rightarrow> Inr p" "\<lambda>p. CHR ''z'' # p"
    "\<lambda>t p s. s @ [(t, p)]" "''t''" "\<lambda>_ _. None" "''hello''" "[]"] by simp

text \<open>
  A connection with a certificate is verified. When TLS is enabled with a certificate path,
  a connection attempt is only ever made with that file's certificates as the trusted roots; an
  unreadable or malformed file makes \<^verbatim>\<open>Connect\<close> return the error without one attempt.
\<close>

theorem certificate_path_is_verified:
  assumes "co_SSLEnabled options" and "co_SSLCertPath options \<noteq> []"
    and "Connect fuel readFile parsePEM snappy clientID attempt jitter options mqc = Some (Ret (err, mqc', slept, events))"
  shows "(\<exists>buf o'. readFile (co_SSLCertPath options) = Inr buf \<and> parsePEM buf \<and> err = None \<and>
      mqc_conn mqc' = Some o' \<and> mo_TLS o' = Root_CAs buf \<and> prefix ''ssl://'' (mo_Broker o')) \<or>
    (err \<noteq> None \<and> mqc' = mqc \<and> slept = [] \<and> events = [])"
  using assms
  by (auto simp: Connect_def configureSSL_def buildMQTTOptions_def brokerURL_def Let_def split: sum.splits if_splits option.splits go_result.splits)

theorem certificate_path_is_verified_witness:
  "\<exists>mqc'. Connect 1 (\<lambda>_. Inr ''pem'') (\<lambda>_. False) (\<lambda>s. s) ''id'' (\<lambda>_. None) (\<lambda>_. 0)
     \<lparr>Userid = [], co_Password = [], co_Host = ''h'', co_Port = 1, co_SSLEnabled = True, co_SSLCertPath = ''/c'',
      EventsHandler = False, AutoReconnect = False, OnDisconnect = None\<rparr> new_connection =
     Some (Ret (Some ''Bad TLS certificate'', mqc', [], [])) \<and> mqc' = new_connection"
proof -
  let ?o = "\<lparr>Userid = [], co_Password = [], co_Host = ''h'', co_Port = 1, co_SSLEnabled = True, co_SSLCertPath = ''/c'',
      EventsHandler = False, AutoReconnect = False, OnDisconnect = None\<rparr>"
  have run: "Connect 1 (\<lambda>_. Inr ''pem'') (\<lambda>_. False) (\<lambda>s. s) ''id'' (\<lambda>_. None) (\<lambda>_. 0) ?o new_connection =
     Some (Ret (Some ''Bad TLS certificate'', new_connection, [], []))"
    by (simp add: Connect_def configureSSL_def errorBadTLSCert_def)
  from certificate_path_is_verified [OF _ _ run] run show ?thesis by auto
qed

end
