(* ===== verification/Go_Files.thy ===== *)
theory Go_Files
  imports Relay_Config
begin

text \<open>
  The part of \<^verbatim>\<open>os\<close>, \<^verbatim>\<open>ioutil\<close> and \<^verbatim>\<open>filepath\<close> that the managed dynamic configuration
  uses, over a file system with directories, files and symbolic links. A location is the list
  of the components of an absolute path; a link keeps the text it was created with, which is
  resolved from the directory that holds the link. A system call may fail for a reason the
  model does not see: \<open>os_fault\<close> gives the error of the \<open>n\<close>-th call, if it fails. The world
  keeps every state the file system went through, since other goroutines read in between.
\<close>

section \<open>The file system\<close>

datatype node =
    Dir
  | File string
  | Link string

type_synonym location = "string list"

type_synonym fs = "location \<rightharpoonup> node"

definition node_at :: "fs \<Rightarrow> location \<Rightarrow> node option" where
  "node_at fs p = (if p = [] then Some Dir else fs p)"

abbreviation is_abs :: "string \<Rightarrow> bool" where
  "is_abs s \<equiv> s \<noteq> [] \<and> hd s = CHR ''/''"

text \<open>Resolving the components of a path, following at most \<open>links\<close> symbolic links.\<close>

fun walk :: "nat \<Rightarrow> fs \<Rightarrow> location \<Rightarrow> string list \<Rightarrow> location option" where
  "walk links fs cur [] = Some cur"
| "walk links fs cur (c # cs) =
     (if c = [] \<or> c = ''.'' then walk links fs cur cs
      else if c = ''..'' then walk links fs (butlast cur) cs
      else case fs (cur @ [c]) of
             Some (Link t) \<Rightarrow>
               if links = 0 then None
               else walk (links - 1) fs (if is_abs t then [] else cur) (split_on (CHR ''/'') t @ cs)
           | _ \<Rightarrow> walk links fs (cur @ [c]) cs)"

record os_env =
  os_cwd :: location
  os_fault :: "nat \<Rightarrow> error option"
  os_partial :: "nat \<Rightarrow> string option"

definition start_of :: "os_env \<Rightarrow> string \<Rightarrow> location" where
  "start_of os s = (if is_abs s then [] else os_cwd os)"

definition follow :: "os_env \<Rightarrow> fs \<Rightarrow> string \<Rightarrow> location option" where
  "follow os fs s = walk 40 fs (start_of os s) (split_on (CHR ''/'') s)"

text \<open>The location a cleaned path names, with its last component not followed.\<close>

definition nofollow :: "os_env \<Rightarrow> fs \<Rightarrow> string \<Rightarrow> location option" where
  "nofollow os fs s =
     (let cs = split_on (CHR ''/'') s
      in map_option (\<lambda>d. d @ [last cs]) (walk 40 fs (start_of os s) (butlast cs)))"

section \<open>Reading\<close>

definition ENOENT :: error where "ENOENT = ''no such file or directory''"
definition EEXIST :: error where "EEXIST = ''file exists''"
definition ENOTDIR :: error where "ENOTDIR = ''not a directory''"
definition EISDIR :: error where "EISDIR = ''is a directory''"
definition ELOOP :: error where "ELOOP = ''too many levels of symbolic links''"

definition os_Stat :: "os_env \<Rightarrow> fs \<Rightarrow> string \<Rightarrow> bool option" where
  "os_Stat os fs s =
     (case follow os fs s of
        None \<Rightarrow> None
      | Some p \<Rightarrow> map_option (\<lambda>n. n = Dir) (node_at fs p))"

definition ReadFile :: "os_env \<Rightarrow> fs \<Rightarrow> string \<Rightarrow> error + string" where
  "ReadFile os fs s =
     (case follow os fs s of
        None \<Rightarrow> Inl ELOOP
      | Some p \<Rightarrow>
          (case node_at fs p of
             Some (File d) \<Rightarrow> Inr d
           | Some Dir \<Rightarrow> Inl EISDIR
           | _ \<Rightarrow> Inl ENOENT))"

definition Lstat :: "os_env \<Rightarrow> fs \<Rightarrow> string \<Rightarrow> error + node" where
  "Lstat os fs s =
     (case nofollow os fs s of
        None \<Rightarrow> Inl ELOOP
      | Some p \<Rightarrow> (case node_at fs p of None \<Rightarrow> Inl ENOENT | Some n \<Rightarrow> Inr n))"

section \<open>Changing\<close>

record fs_world =
  fw_fs :: fs
  fw_trace :: "fs list"

definition syscall :: "os_env \<Rightarrow> (fs \<Rightarrow> error + fs) \<Rightarrow> fs_world \<Rightarrow> error option \<times> fs_world" where
  "syscall os f w =
     (case (case os_fault os (length (fw_trace w)) of Some e \<Rightarrow> Inl e | None \<Rightarrow> f (fw_fs w)) of
        Inl e \<Rightarrow> (Some e, w\<lparr>fw_trace := fw_trace w @ [fw_fs w]\<rparr>)
      | Inr fs \<Rightarrow> (None, \<lparr>fw_fs = fs, fw_trace = fw_trace w @ [fs]\<rparr>))"

definition make_dir :: "location \<Rightarrow> fs \<Rightarrow> error + fs" where
  "make_dir p fs =
     (if node_at fs (butlast p) \<noteq> Some Dir then Inl ENOENT
      else if node_at fs p \<noteq> None then Inl EEXIST
      else Inr (fs(p \<mapsto> Dir)))"

text \<open>\<^verbatim>\<open>os.MkdirAll\<close>: the missing directories are made one by one, from the top.\<close>

fun make_dirs :: "os_env \<Rightarrow> location \<Rightarrow> string list \<Rightarrow> fs_world \<Rightarrow> error option \<times> fs_world" where
  "make_dirs os cur [] w = (None, w)"
| "make_dirs os cur (c # cs) w =
     (case walk 40 (fw_fs w) cur [c] of
        None \<Rightarrow> (Some ELOOP, w)
      | Some p \<Rightarrow>
          (case node_at (fw_fs w) p of
             Some Dir \<Rightarrow> make_dirs os p cs w
           | Some _ \<Rightarrow> (Some ENOTDIR, w)
           | None \<Rightarrow>
               (case syscall os (make_dir (cur @ [c])) w of
                  (Some e, w') \<Rightarrow> (Some e, w')
                | (None, w') \<Rightarrow> make_dirs os (cur @ [c]) cs w')))"

definition MkdirAll :: "os_env \<Rightarrow> string \<Rightarrow> fs_world \<Rightarrow> error option \<times> fs_world" where
  "MkdirAll os s = make_dirs os (start_of os s) (split_on (CHR ''/'') s)"

definition store_file :: "location \<Rightarrow> string \<Rightarrow> fs \<Rightarrow> error + fs" where
  "store_file p contents fs =
     (if node_at fs (butlast p) \<noteq> Some Dir then Inl ENOENT
      else if node_at fs p = Some Dir then Inl EISDIR
      else Inr (fs(p \<mapsto> File contents)))"

text \<open>
  \<^verbatim>\<open>ioutil.WriteFile\<close> truncates the file before it writes: when it fails, \<open>os_partial\<close> says
  what the file holds, if it was opened at all.
\<close>

definition WriteFile :: "os_env \<Rightarrow> string \<Rightarrow> string \<Rightarrow> fs_world \<Rightarrow> error option \<times> fs_world" where
  "WriteFile os s contents w =
     (case follow os (fw_fs w) s of
        None \<Rightarrow> (Some ELOOP, w)
      | Some p \<Rightarrow>
          (case os_fault os (length (fw_trace w)) of
             None \<Rightarrow> syscall os (store_file p contents) w
           | Some e \<Rightarrow>
               (case os_partial os (length (fw_trace w)) of
                  None \<Rightarrow> syscall os (store_file p contents) w
                | Some part \<Rightarrow>
                    (case store_file p part (fw_fs w) of
                       Inl _ \<Rightarrow> (Some e, w)
                     | Inr fs \<Rightarrow> (Some e, \<lparr>fw_fs = fs, fw_trace = fw_trace w @ [fs]\<rparr>)))))"

definition store_link :: "string \<Rightarrow> location \<Rightarrow> fs \<Rightarrow> error + fs" where
  "store_link target p fs =
     (if node_at fs (butlast p) \<noteq> Some Dir then Inl ENOENT
      else if node_at fs p \<noteq> None then Inl EEXIST
      else Inr (fs(p \<mapsto> Link target)))"

definition os_Symlink :: "os_env \<Rightarrow> string \<Rightarrow> string \<Rightarrow> fs_world \<Rightarrow> error option \<times> fs_world" where
  "os_Symlink os target s w =
     (case nofollow os (fw_fs w) s of
        None \<Rightarrow> (Some ELOOP, w)
      | Some p \<Rightarrow> syscall os (store_link target p) w)"

text \<open>\<^verbatim>\<open>os.Rename\<close> of a file or link; the relay never renames a directory.\<close>

definition move_node :: "location \<Rightarrow> location \<Rightarrow> fs \<Rightarrow> error + fs" where
  "move_node p q fs =
     (case node_at fs p of
        None \<Rightarrow> Inl ENOENT
      | Some Dir \<Rightarrow> Inl EISDIR
      | Some n \<Rightarrow>
          if node_at fs (butlast q) \<noteq> Some Dir then Inl ENOENT
          else if node_at fs q = Some Dir then Inl EEXIST
          else Inr ((fs(p := None))(q \<mapsto> n)))"

definition Rename :: "os_env \<Rightarrow> string \<Rightarrow> string \<Rightarrow> fs_world \<Rightarrow> error option \<times> fs_world" where
  "Rename os old new w =
     (case (nofollow os (fw_fs w) old, nofollow os (fw_fs w) new) of
        (Some p, Some q) \<Rightarrow> syscall os (move_node p q) w
      | _ \<Rightarrow> (Some ELOOP, w))"

definition remove_tree :: "location \<Rightarrow> fs \<Rightarrow> error + fs" where
  "remove_tree p fs = Inr (\<lambda>q. if prefix p q then None else fs q)"

definition RemoveAll :: "os_env \<Rightarrow> string \<Rightarrow> fs_world \<Rightarrow> error option \<times> fs_world" where
  "RemoveAll os s w =
     (case nofollow os (fw_fs w) s of
        None \<Rightarrow> (Some ELOOP, w)
      | Some p \<Rightarrow> syscall os (remove_tree p) w)"

section \<open>Laws\<close>

text \<open>The path of a location, and names that are components as they stand.\<close>

definition abs_path :: "location \<Rightarrow> string" where
  "abs_path p = CHR ''/'' # join_with (CHR ''/'') p"

definition plain :: "string \<Rightarrow> bool" where
  "plain c \<longleftrightarrow> c \<noteq> [] \<and> c \<noteq> ''.'' \<and> c \<noteq> ''..'' \<and> CHR ''/'' \<notin> set c"

abbreviation plains :: "string list \<Rightarrow> bool" where
  "plains cs \<equiv> \<forall>c \<in> set cs. plain c"

lemma plain_sep: "plain c \<Longrightarrow> CHR ''/'' \<notin> set c"
  by (simp add: plain_def)

lemma clean_plain: "plains cs \<Longrightarrow> foldl (clean_step b) out cs = out @ cs"
  by (induction cs arbitrary: out) (auto simp: clean_step_def plain_def)

lemma clean_dotdot: "plain (last out) \<Longrightarrow> out \<noteq> [] \<Longrightarrow> clean_step b out ''..'' = butlast out"
  by (auto simp: clean_step_def plain_def)

lemma split_abs_path: "p \<noteq> [] \<Longrightarrow> plains p \<Longrightarrow> split_on (CHR ''/'') (abs_path p) = [] # p"
  by (simp add: abs_path_def split_on_join plain_sep)

lemma join_with_snoc: "xs \<noteq> [] \<Longrightarrow> join_with c (xs @ ys) = (if ys = [] then join_with c xs else join_with c xs @ c # join_with c ys)"
  by (induction c xs rule: join_with.induct) (auto simp: neq_Nil_conv)

lemma abs_path_join: "p \<noteq> [] \<Longrightarrow> cs \<noteq> [] \<Longrightarrow> abs_path p @ CHR ''/'' # join_with (CHR ''/'') cs = abs_path (p @ cs)"
  by (simp add: abs_path_def join_with_snoc)

lemma path_join_abs:
  assumes "p \<noteq> []" and "\<forall>c \<in> set cs. c \<noteq> [] \<and> CHR ''/'' \<notin> set c" and "plains p"
  shows "path_join (abs_path p # cs) = CHR ''/'' # join_with (CHR ''/'') (foldl (clean_step True) p cs)"
proof -
  have "filter (\<lambda>e. e \<noteq> []) (abs_path p # cs) = abs_path p # cs"
    using assms(2) by (simp add: abs_path_def)
  moreover have j: "join_with (CHR ''/'') (abs_path p # cs) = abs_path (p @ cs)"
    using assms(1) by (cases cs) (simp_all add: abs_path_join)
  moreover have "split_on (CHR ''/'') (join_with (CHR ''/'') (p @ cs)) = p @ cs"
    by (rule split_on_join) (use assms in \<open>auto simp: plain_sep\<close>)
  then have "split_on (CHR ''/'') (abs_path (p @ cs)) = [] # p @ cs" by (simp add: abs_path_def)
  ultimately show ?thesis
    by (simp add: path_join_def path_clean_def clean_plain [OF assms(3)]) (simp add: abs_path_def clean_step_def clean_plain [OF assms(3)])
qed

lemma path_join_plain: "p \<noteq> [] \<Longrightarrow> plains p \<Longrightarrow> plains cs \<Longrightarrow> path_join (abs_path p # cs) = abs_path (p @ cs)"
  by (subst path_join_abs) (auto simp: plain_def clean_plain abs_path_def)

lemma path_join_up:
  assumes "plains p" and "plain m" and "plains cs"
  shows "path_join (abs_path (p @ [m]) # ''..'' # cs) = abs_path (p @ cs)"
proof -
  have "foldl (clean_step True) (p @ [m]) (''..'' # cs) = p @ cs"
    using assms by (simp add: clean_dotdot clean_plain)
  then show ?thesis
    using assms by (subst path_join_abs) (auto simp: plain_def abs_path_def)
qed

lemma abs_path_abs [simp]: "is_abs (abs_path p)"
  by (simp add: abs_path_def)

lemma start_of_abs [simp]: "start_of os (abs_path p) = []"
  by (simp add: start_of_def)

end
