(* ===== verification/Dynamic_Updater.thy ===== *)
theory Dynamic_Updater
  imports Dynamic_Config Directives Mqtt_Bus Go_Files
begin

text \<open>
  The dynamic configuration updater, \<^verbatim>\<open>relay/dynamic_config.go\<close>: it asks Cog for the bundles'
  dynamic configuration, writes what it gets into a new directory named after the signature of
  the set, and puts it in place of the old set by renaming a symbolic link. The bus is reached
  through \<open>bus_env\<close>, the file system through \<open>os_env\<close>; the JSON decoder and the YAML encoder
  are parameters.
\<close>

section \<open>The model\<close>

record bus_env =
  be_fuel :: nat
  be_readFile :: "string \<Rightarrow> error + string"
  be_parsePEM :: "string \<Rightarrow> bool"
  be_snappy :: "string \<Rightarrow> string"
  be_clientID :: string
  be_attempt :: "nat \<Rightarrow> error option"
  be_jitter :: "nat \<Rightarrow> int"
  be_subscribe :: "string \<Rightarrow> error option"
  be_publish :: "string \<Rightarrow> string \<Rightarrow> error option"

definition bus_Connect ::
    "bus_env \<Rightarrow> ConnectionOptions \<Rightarrow> (error option \<times> MQTTConnection \<times> int list \<times> Event list) go_result option" where
  "bus_Connect be options =
     Connect (be_fuel be) (be_readFile be) (be_parsePEM be) (be_snappy be) (be_clientID be) (be_attempt be) (be_jitter be)
       options new_connection"

definition bus_Publish :: "bus_env \<Rightarrow> string \<Rightarrow> string \<Rightarrow> error option" where
  "bus_Publish be topic payload = fst (Publish (be_snappy be) (be_publish be) topic payload)"

text \<open>A timer is nil or made; a made timer is armed or not.\<close>

record DynamicConfigUpdater =
  dcu_id :: string
  configTopic :: string
  dcu_options :: ConnectionOptions
  dcu_conn :: "MQTTConnection option"
  dynamicConfigRoot :: string
  lastSignature :: string
  refreshInterval :: int
  refreshTimer :: "bool option"

definition NewDynamicConfigUpdater :: "string \<Rightarrow> ConnectionOptions \<Rightarrow> string \<Rightarrow> int \<Rightarrow> DynamicConfigUpdater" where
  "NewDynamicConfigUpdater relayID busOpts root refresh =
     \<lparr>dcu_id = relayID, configTopic = ''bot/relays/'' @ relayID @ ''/dynconfigs'', dcu_options = busOpts,
      dcu_conn = None, dynamicConfigRoot = root, lastSignature = [], refreshInterval = refresh, refreshTimer = None\<rparr>"

definition dcu_handleBusEvents ::
    "bus_env \<Rightarrow> MQTTConnection \<Rightarrow> Event \<Rightarrow> DynamicConfigUpdater \<Rightarrow> DynamicConfigUpdater go_result" where
  "dcu_handleBusEvents be conn event dcu =
     (if event = ConnectedEvent
      then let dcu1 = dcu\<lparr>dcu_conn := Some conn\<rparr>
           in case be_subscribe be (configTopic dcu1) of
                Some err \<Rightarrow> Panic err
              | None \<Rightarrow> Ret dcu1
      else Ret dcu)"

definition timer_Reset :: "DynamicConfigUpdater \<Rightarrow> DynamicConfigUpdater go_result" where
  "timer_Reset dcu =
     (case refreshTimer dcu of
        None \<Rightarrow> Panic ''nil timer''
      | Some _ \<Rightarrow> Ret (dcu\<lparr>refreshTimer := Some True\<rparr>))"

text \<open>\<open>refreshConfigs\<close> gives the message that was published, if it was.\<close>

definition refreshConfigs ::
    "bus_env \<Rightarrow> (GetDynamicConfigs \<Rightarrow> string) \<Rightarrow> DynamicConfigUpdater \<Rightarrow>
     ((string \<times> string) list \<times> DynamicConfigUpdater) go_result" where
  "refreshConfigs be marshal dcu =
     (let raw = marshal \<lparr>gdc_RelayID = dcu_id dcu, gdc_Signature = lastSignature dcu, gdc_ReplyTo = configTopic dcu\<rparr>
      in if dcu_conn dcu = None then Panic ''nil connection''
         else case bus_Publish be ''bot/relays/info'' raw of
           Some err \<Rightarrow> go_bind (timer_Reset dcu) (\<lambda>dcu'. Ret ([], dcu'))
         | None \<Rightarrow> Ret ([(''bot/relays/info'', raw)], dcu))"

text \<open>
  \<^verbatim>\<open>Run\<close>. The MQTT library calls the connect handler in a goroutine of its own, as soon as the
  broker has accepted the connection: before \<^verbatim>\<open>MQTTConnection.Connect\<close> has stored its options
  (the handler is then a nil function), before \<open>refreshConfigs\<close>, or after.
\<close>

datatype callback_time = Before_Options | Before_Refresh | After_Refresh

definition dcu_Run ::
    "bus_env \<Rightarrow> (GetDynamicConfigs \<Rightarrow> string) \<Rightarrow> callback_time \<Rightarrow> DynamicConfigUpdater \<Rightarrow>
     (error option \<times> DynamicConfigUpdater \<times> (string \<times> string) list) go_result option" where
  "dcu_Run be marshal sched dcu =
     (let dcu1 = dcu\<lparr>dcu_options := (dcu_options dcu)\<lparr>AutoReconnect := True, EventsHandler := True\<rparr>\<rparr>
      in case bus_Connect be (dcu_options dcu1) of
           None \<Rightarrow> None
         | Some (Panic p) \<Rightarrow> Some (Panic p)
         | Some (Ret (Some err, conn, slept, events)) \<Rightarrow> Some (Ret (Some err, dcu1, []))
         | Some (Ret (None, conn, slept, events)) \<Rightarrow>
             Some (if sched = Before_Options then Panic ''nil event handler''
                   else go_bind (if sched = Before_Refresh then dcu_handleBusEvents be conn ConnectedEvent dcu1 else Ret dcu1)
                     (\<lambda>dcu2. go_bind (refreshConfigs be marshal dcu2)
                       (\<lambda>(msgs, dcu3). Ret (None, dcu3\<lparr>refreshTimer := Some True\<rparr>, msgs)))))"

text \<open>What \<^verbatim>\<open>wait\<close> does once \<^verbatim>\<open>Halt\<close> has sent it a value: stop the timer and disconnect.\<close>

definition dcu_wait :: "DynamicConfigUpdater \<Rightarrow> DynamicConfigUpdater go_result" where
  "dcu_wait dcu =
     (case (refreshTimer dcu, dcu_conn dcu) of
        (None, _) \<Rightarrow> Panic ''nil timer''
      | (_, None) \<Rightarrow> Panic ''nil connection''
      | (Some _, Some _) \<Rightarrow> Ret (dcu\<lparr>refreshTimer := Some False\<rparr>))"

definition configFileName :: "DynamicConfig \<Rightarrow> string" where
  "configFileName c =
     (let layer = to_lower (Layer c)
      in if layer = ''base'' then ''config.yaml''
         else let name = to_lower (dc_Name c) in layer @ ''_'' @ name @ ''.yaml'')"

definition verifyManagedConfigPath :: "os_env \<Rightarrow> fs_world \<Rightarrow> DynamicConfigUpdater \<Rightarrow> bool" where
  "verifyManagedConfigPath os w dcu =
     (case Lstat os (fw_fs w) (dynamicConfigRoot dcu) of
        Inl err \<Rightarrow> has_suffix err ''no such file or directory''
      | Inr (Link _) \<Rightarrow> True
      | Inr _ \<Rightarrow> False)"

fun write_layers ::
    "os_env \<Rightarrow> (go_value \<Rightarrow> error + string) \<Rightarrow> string \<Rightarrow> string \<Rightarrow> DynamicConfig list \<Rightarrow> fs_world \<Rightarrow> bool \<times> fs_world" where
  "write_layers os yaml updateDir b [] w = (True, w)"
| "write_layers os yaml updateDir b (config # configs) w =
     (case yaml (dc_Config config) of
        Inl err \<Rightarrow> (False, w)
      | Inr convertedContents \<Rightarrow>
          (case WriteFile os (path_join [updateDir, b, configFileName config]) convertedContents w of
             (Some err, w') \<Rightarrow> (False, w')
           | (None, w') \<Rightarrow> write_layers os yaml updateDir b configs w'))"

text \<open>The loop over the map of configurations visits the bundles in the order \<open>bs\<close>.\<close>

fun write_bundles ::
    "os_env \<Rightarrow> (go_value \<Rightarrow> error + string) \<Rightarrow> string \<Rightarrow> (string \<rightharpoonup> DynamicConfig list) \<Rightarrow> string list \<Rightarrow> fs_world \<Rightarrow> bool \<times> fs_world" where
  "write_bundles os yaml updateDir configs [] w = (True, w)"
| "write_bundles os yaml updateDir configs (b # bs) w =
     (case configs b of
        None \<Rightarrow> write_bundles os yaml updateDir configs bs w
      | Some bundleConfigLayers \<Rightarrow>
          (case MkdirAll os (path_join [updateDir, b]) w of
             (Some err, w1) \<Rightarrow> (False, w1)
           | (None, w1) \<Rightarrow>
               (case write_layers os yaml updateDir b bundleConfigLayers w1 of
                  (False, w2) \<Rightarrow> (False, w2)
                | (True, w2) \<Rightarrow> write_bundles os yaml updateDir configs bs w2)))"

definition updateConfigs ::
    "os_env \<Rightarrow> (go_value \<Rightarrow> error + string) \<Rightarrow> string list \<Rightarrow> string \<Rightarrow> (string \<rightharpoonup> DynamicConfig list) \<Rightarrow>
     DynamicConfigUpdater \<Rightarrow> fs_world \<Rightarrow> bool \<times> fs_world" where
  "updateConfigs os yaml bs signature configs dcu w =
     (if \<not> verifyManagedConfigPath os w dcu then (False, w)
      else let updateDir = path_join [dynamicConfigRoot dcu, ''..'', signature]
           in case MkdirAll os updateDir w of
                (Some err, w1) \<Rightarrow> (False, w1)
              | (None, w1) \<Rightarrow>
                  (case write_bundles os yaml updateDir configs bs w1 of
                     (False, w2) \<Rightarrow> (False, w2)
                   | (True, w2) \<Rightarrow>
                       let symlinkTarget = path_join [dynamicConfigRoot dcu, ''..'', ''new'']
                       in case os_Symlink os updateDir symlinkTarget w2 of
                            (Some err, w3) \<Rightarrow> (False, w3)
                          | (None, w3) \<Rightarrow>
                              (case Rename os symlinkTarget (dynamicConfigRoot dcu) w3 of
                                 (Some err, w4) \<Rightarrow> (False, w4)
                               | (None, w4) \<Rightarrow> (True, w4))))"

text \<open>
  \<open>cleanOldConfigs\<close>: \<open>names\<close> are the names in the directory that holds the link, as the pattern
  \<^verbatim>\<open>*\<close> matches them all; the directory's own path has no pattern characters. Errors of the
  removal are ignored.
\<close>

fun clean_entries :: "os_env \<Rightarrow> DynamicConfigUpdater \<Rightarrow> string list \<Rightarrow> fs_world \<Rightarrow> fs_world" where
  "clean_entries os dcu [] w = w"
| "clean_entries os dcu (entry # entries) w =
     (if entry = dynamicConfigRoot dcu \<or> has_suffix entry (lastSignature dcu)
      then clean_entries os dcu entries w
      else clean_entries os dcu entries (snd (RemoveAll os entry w)))"

definition cleanOldConfigs :: "os_env \<Rightarrow> string list \<Rightarrow> DynamicConfigUpdater \<Rightarrow> fs_world \<Rightarrow> fs_world" where
  "cleanOldConfigs os names dcu w =
     clean_entries os dcu (map (\<lambda>n. path_join [path_join [dynamicConfigRoot dcu, ''..''], n]) names) w"

text \<open>
  The handler of Cog's answers. The decoder gives an error and the envelope as far as it was
  filled in: the code logs the error and goes on. \<open>names\<close> lists the directory after the update.
  The deferred reset of the timer panics when the timer has not been made yet.
\<close>

definition dynConfigUpdate ::
    "os_env \<Rightarrow> (go_value \<Rightarrow> error + string) \<Rightarrow> (string \<Rightarrow> error option \<times> DynamicConfigsResponseEnvelope) \<Rightarrow>
     ((string \<rightharpoonup> DynamicConfig list) \<Rightarrow> string list) \<Rightarrow> (fs \<Rightarrow> string list) \<Rightarrow> string \<Rightarrow>
     DynamicConfigUpdater \<times> fs_world \<Rightarrow> (DynamicConfigUpdater \<times> fs_world) go_result" where
  "dynConfigUpdate os yaml decode ord names payload = (\<lambda>(dcu, w).
     let envelope = snd (decode payload);
         (dcu', w') =
           (if Signature envelope \<noteq> lastSignature dcu \<and> Changed envelope
            then (case updateConfigs os yaml (ord (Configs envelope)) (Signature envelope) (Configs envelope) dcu w of
                    (True, w1) \<Rightarrow>
                      let dcu1 = dcu\<lparr>lastSignature := Signature envelope\<rparr>
                      in (dcu1, cleanOldConfigs os (names (fw_fs w1)) dcu1 w1)
                  | (False, w1) \<Rightarrow> (dcu, w1))
            else (dcu, w))
     in go_bind (timer_Reset dcu') (\<lambda>dcu''. Ret (dcu'', w')))"

text \<open>A broker that accepts everything, for concrete runs.\<close>

definition sample_bus :: bus_env where
  "sample_bus = \<lparr>be_fuel = 1, be_readFile = \<lambda>_. Inl ''unreadable'', be_parsePEM = \<lambda>_. False, be_snappy = \<lambda>p. p, be_clientID = ''1'',
     be_attempt = \<lambda>_. None, be_jitter = \<lambda>_. 0, be_subscribe = \<lambda>_. None, be_publish = \<lambda>_ _. None\<rparr>"

end
