(* ===== verification/Managed_Config.thy ===== *)
theory Managed_Config
  imports Dynamic_Updater
begin

text \<open>
  What the updater of \<^verbatim>\<open>Dynamic_Updater\<close> promises to the loader of \<^verbatim>\<open>Dynamic_Config\<close>, which
  reads the same files at any time: it sees the old set of configurations or the new one, and
  never a mixture.
\<close>

section \<open>Resolving paths without links\<close>

abbreviation not_link :: "fs \<Rightarrow> location \<Rightarrow> bool" where
  "not_link fs p \<equiv> \<forall>t. fs p \<noteq> Some (Link t)"

lemma walk_skip [simp]: "walk l fs cur ([] # cs) = walk l fs cur cs"
  by simp

lemma walk_plain:
  "plains cs \<Longrightarrow> (\<And>ds. prefix ds cs \<Longrightarrow> ds \<noteq> [] \<Longrightarrow> not_link fs (cur @ ds)) \<Longrightarrow>
   walk l fs cur (cs @ es) = walk l fs (cur @ cs) es"
proof (induction cs arbitrary: cur)
  case Nil
  then show ?case by simp
next
  case (Cons c cs)
  have nl: "not_link fs (cur @ [c])" using Cons.prems(2) [of "[c]"] by simp
  have "not_link fs ((cur @ [c]) @ ds)" if "prefix ds cs" "ds \<noteq> []" for ds
    using Cons.prems(2) [of "c # ds"] that by simp
  with Cons.IH [of "cur @ [c]"] Cons.prems(1)
  have "walk l fs (cur @ [c]) (cs @ es) = walk l fs (cur @ c # cs) es" by simp
  moreover have "walk l fs cur ((c # cs) @ es) = walk l fs (cur @ [c]) (cs @ es)"
    using nl Cons.prems(1) by (auto simp: plain_def split: option.splits node.splits)
  ultimately show ?case by simp
qed

lemma walk_plain_all:
  "plains cs \<Longrightarrow> (\<And>ds. prefix ds cs \<Longrightarrow> ds \<noteq> [] \<Longrightarrow> not_link fs (cur @ ds)) \<Longrightarrow> walk l fs cur cs = Some (cur @ cs)"
  using walk_plain [of cs fs cur l "[]"] by simp

lemma follow_plain:
  assumes "p \<noteq> []" and "plains p" and "\<And>ds. prefix ds p \<Longrightarrow> ds \<noteq> [] \<Longrightarrow> not_link fs ds"
  shows "follow os fs (abs_path p) = Some p"
proof -
  have "walk 40 fs [] p = Some ([] @ p)" by (rule walk_plain_all) (use assms in auto)
  then show ?thesis using assms(1,2) by (simp add: follow_def split_abs_path del: walk.simps(2))
qed

lemma nofollow_plain:
  assumes "plains (p @ [c])" and "\<And>ds. prefix ds p \<Longrightarrow> ds \<noteq> [] \<Longrightarrow> not_link fs ds"
  shows "nofollow os fs (abs_path (p @ [c])) = Some (p @ [c])"
proof -
  have "walk 40 fs [] p = Some ([] @ p)" by (rule walk_plain_all) (use assms in auto)
  then show ?thesis using assms(1) by (simp add: nofollow_def split_abs_path Let_def butlast_append del: walk.simps(2))
qed

section \<open>The managed directory\<close>

text \<open>
  The directory \<open>X\<close> holds the managed link, which is absent or names a directory of \<open>X\<close> (that
  of the current signature) below which there are no links.
\<close>

definition dirs_to :: "fs \<Rightarrow> location \<Rightarrow> bool" where
  "dirs_to fs p \<longleftrightarrow> (\<forall>q. q \<noteq> [] \<longrightarrow> prefix q p \<longrightarrow> fs q = Some Dir)"

abbreviation mlink :: string where
  "mlink \<equiv> ManagedDynamicConfigLink"

abbreviation nlink :: string where
  "nlink \<equiv> ''new''"

definition managed :: "fs \<Rightarrow> location \<Rightarrow> string option \<Rightarrow> bool" where
  "managed fs X cur \<longleftrightarrow> plains X \<and> dirs_to fs X \<and>
     (case cur of
        None \<Rightarrow> \<forall>q. fs (X @ mlink # q) = None
      | Some s \<Rightarrow> plain s \<and> s \<noteq> mlink \<and> s \<noteq> nlink \<and> fs (X @ [mlink]) = Some (Link (abs_path (X @ [s]))) \<and>
          fs (X @ [s]) = Some Dir \<and> (\<forall>q. not_link fs (X @ s # q)))"

lemma mlink_plain [simp]: "plain mlink" "plain nlink" "mlink \<noteq> nlink" "nlink \<noteq> mlink"
  by (auto simp: ManagedDynamicConfigLink_def plain_def)

lemma dirs_to_not_link: "dirs_to fs p \<Longrightarrow> prefix q p \<Longrightarrow> q \<noteq> [] \<Longrightarrow> not_link fs q"
  by (auto simp: dirs_to_def)

lemma dirs_to_node: "dirs_to fs p \<Longrightarrow> node_at fs p = Some Dir"
  by (simp add: dirs_to_def node_at_def)

text \<open>Where a path below the managed link leads.\<close>

definition through :: "location \<Rightarrow> string option \<Rightarrow> string list \<Rightarrow> location" where
  "through X cur rest = (case cur of None \<Rightarrow> X @ mlink # rest | Some s \<Rightarrow> X @ s # rest)"

lemma not_link_below:
  assumes "dirs_to fs X" and "\<And>q. not_link fs (X @ s # q)" and "prefix ds (X @ s # rest)" and "ds \<noteq> []"
  shows "not_link fs ds"
proof (cases "prefix ds X")
  case True
  with dirs_to_not_link [OF assms(1)] assms(4) show ?thesis by blast
next
  case False
  with assms(3) obtain q where "ds = X @ s # q" by (auto simp: prefix_append prefix_Cons)
  with assms(2) show ?thesis by simp
qed

lemma follow_managed:
  assumes "managed fs X cur" and "plains rest"
  shows "follow os fs (abs_path (X @ mlink # rest)) = Some (through X cur rest)"
proof (cases cur)
  case None
  have "follow os fs (abs_path (X @ mlink # rest)) = Some (X @ mlink # rest)"
    by (rule follow_plain) (use assms None not_link_below [of fs X mlink] in \<open>auto simp: managed_def\<close>)
  with None show ?thesis by (simp add: through_def)
next
  case (Some s)
  with assms(1) have m: "plains X" "dirs_to fs X" "plain s" "fs (X @ [mlink]) = Some (Link (abs_path (X @ [s])))"
    "\<And>q. not_link fs (X @ s # q)" by (auto simp: managed_def)
  have "walk 40 fs [] (X @ mlink # rest) = walk 40 fs ([] @ X) (mlink # rest)"
    by (rule walk_plain) (use m dirs_to_not_link in auto)
  also have "\<dots> = walk 39 fs [] (split_on (CHR ''/'') (abs_path (X @ [s])) @ rest)"
    using m(4) by (auto simp: ManagedDynamicConfigLink_def)
  also have "split_on (CHR ''/'') (abs_path (X @ [s])) = [] # X @ [s]"
    by (rule split_abs_path) (use m in auto)
  also have "walk 39 fs [] (([] # X @ [s]) @ rest) = walk 39 fs [] (X @ s # rest)" by simp
  also have "\<dots> = Some ([] @ X @ s # rest)"
    by (rule walk_plain_all) (use m assms(2) not_link_below [OF m(2) m(5)] in auto)
  finally have "walk 40 fs [] (X @ mlink # rest) = Some (X @ s # rest)" by simp
  moreover have "split_on (CHR ''/'') (abs_path (X @ mlink # rest)) = [] # X @ mlink # rest"
    by (rule split_abs_path) (use m assms(2) in auto)
  ultimately show ?thesis using Some by (simp add: follow_def through_def del: walk.simps(2))
qed

text \<open>What a reader sees through the link depends on the link and on what it leads to only.\<close>

definition same_view :: "os_env \<Rightarrow> location \<Rightarrow> fs \<Rightarrow> fs \<Rightarrow> bool" where
  "same_view os X fs fs' \<longleftrightarrow>
     (\<forall>rest. plains rest \<longrightarrow>
        ReadFile os fs' (abs_path (X @ mlink # rest)) = ReadFile os fs (abs_path (X @ mlink # rest)) \<and>
        os_Stat os fs' (abs_path (X @ mlink # rest)) = os_Stat os fs (abs_path (X @ mlink # rest)))"

lemma managed_frame:
  assumes "managed fs X cur" and "dirs_to fs' X" and "\<And>q. fs' (X @ mlink # q) = fs (X @ mlink # q)"
    and "\<And>s q. cur = Some s \<Longrightarrow> fs' (X @ s # q) = fs (X @ s # q)"
  shows "managed fs' X cur \<and> same_view os X fs fs'"
proof -
  have "fs' (X @ [mlink]) = fs (X @ [mlink])" using assms(3) [of "[]"] by simp
  then have m: "managed fs' X cur" using assms by (auto simp: managed_def split: option.splits)
  have "node_at fs' (through X cur rest) = node_at fs (through X cur rest)" for rest
    using assms(3,4) by (auto simp: node_at_def through_def split: option.splits)
  with follow_managed [OF m] follow_managed [OF assms(1)] m show ?thesis
    by (simp add: same_view_def ReadFile_def os_Stat_def)
qed

section \<open>Building the new set\<close>

text \<open>
  Until the link is made, the updater changes the file system below the new directory \<open>U\<close>
  only, and puts directories and files there.
\<close>

definition building :: "fs \<Rightarrow> location \<Rightarrow> fs \<Rightarrow> bool" where
  "building fs0 U fs \<longleftrightarrow> (\<forall>q. \<not> prefix U q \<longrightarrow> fs q = fs0 q) \<and> (\<forall>q. prefix U q \<longrightarrow> not_link fs q)"

definition built :: "fs \<Rightarrow> location \<Rightarrow> fs_world \<Rightarrow> bool" where
  "built fs0 U w \<longleftrightarrow> (\<forall>fs \<in> insert (fw_fs w) (set (fw_trace w)). building fs0 U fs)"

definition keeps_dirs :: "fs_world \<Rightarrow> fs_world \<Rightarrow> bool" where
  "keeps_dirs w w' \<longleftrightarrow> (\<forall>p. fw_fs w p = Some Dir \<longrightarrow> fw_fs w' p = Some Dir)"

definition file_at :: "fs \<Rightarrow> location \<Rightarrow> string option" where
  "file_at fs p = (case fs p of Some (File d) \<Rightarrow> Some d | _ \<Rightarrow> None)"

lemma keeps_dirs_refl [simp]: "keeps_dirs w w"
  by (simp add: keeps_dirs_def)

lemma keeps_dirs_trans: "keeps_dirs w w' \<Longrightarrow> keeps_dirs w' w'' \<Longrightarrow> keeps_dirs w w''"
  by (simp add: keeps_dirs_def)

lemma syscall_cases:
  assumes "syscall os f w = (r, w')"
  obtains e where "r = Some e" and "fw_fs w' = fw_fs w" and "fw_trace w' = fw_trace w @ [fw_fs w]"
  | fs where "r = None" and "f (fw_fs w) = Inr fs" and "fw_fs w' = fs" and "fw_trace w' = fw_trace w @ [fs]"
proof (cases "case os_fault os (length (fw_trace w)) of Some e \<Rightarrow> Inl e | None \<Rightarrow> f (fw_fs w)")
  case (Inl e)
  with assms that(1) show thesis by (auto simp: syscall_def)
next
  case (Inr fs)
  with assms that(2) [of fs] show thesis by (auto simp: syscall_def split: option.splits)
qed

lemma syscall_effect:
  assumes "syscall os f w = (r, w')" and "\<And>fs. f (fw_fs w) = Inr fs \<Longrightarrow> P fs"
  shows "(r \<noteq> None \<and> fw_fs w' = fw_fs w) \<or> (r = None \<and> P (fw_fs w'))"
  using assms(1) by (rule syscall_cases) (use assms(2) in simp_all)

lemma syscall_built:
  assumes "syscall os f w = (r, w')" and "built fs0 U w"
    and "\<And>fs. f (fw_fs w) = Inr fs \<Longrightarrow> building fs0 U fs"
  shows "built fs0 U w'"
  using assms(1) by (rule syscall_cases) (use assms(2,3) in \<open>auto simp: built_def\<close>)

lemma make_dir_built:
  assumes "syscall os (make_dir p) w = (r, w')" and "built fs0 U w" and "prefix U p"
  shows "built fs0 U w'" and "keeps_dirs w w'" and "fw_fs w p = None \<Longrightarrow> file_at (fw_fs w') = file_at (fw_fs w)"
    and "r = None \<Longrightarrow> fw_fs w' p = Some Dir"
proof -
  have b: "building fs0 U (fw_fs w)" using assms(2) by (simp add: built_def)
  have fs1: "fs = (fw_fs w)(p \<mapsto> Dir)" if "make_dir p (fw_fs w) = Inr fs" for fs
    using that by (auto simp: make_dir_def split: if_splits)
  show "built fs0 U w'" by (rule syscall_built [OF assms(1,2)]) (use b assms(3) fs1 in \<open>auto simp: building_def\<close>)
  show "keeps_dirs w w'" and "fw_fs w p = None \<Longrightarrow> file_at (fw_fs w') = file_at (fw_fs w)" and "r = None \<Longrightarrow> fw_fs w' p = Some Dir"
    using syscall_effect [OF assms(1), of "\<lambda>fs. fs = (fw_fs w)(p \<mapsto> Dir)", OF fs1]
    by (auto simp: file_at_def keeps_dirs_def fun_eq_iff)
qed

lemma make_dirs_built:
  assumes "make_dirs os cur cs w = (r, w')" and "built fs0 U w" and "plains cs"
    and "\<And>ds. prefix ds cs \<Longrightarrow> ds \<noteq> [] \<Longrightarrow> prefix U (cur @ ds) \<or> fs0 (cur @ ds) = Some Dir"
  shows "built fs0 U w' \<and> keeps_dirs w w' \<and> file_at (fw_fs w') = file_at (fw_fs w) \<and>
    (r = None \<longrightarrow> cs \<noteq> [] \<longrightarrow> fw_fs w' (cur @ cs) = Some Dir)"
  using assms
proof (induction cs arbitrary: cur w)
  case Nil
  then show ?case by auto
next
  case (Cons c cs)
  let ?p = "cur @ [c]"
  have b: "building fs0 U (fw_fs w)" using Cons.prems(2) by (simp add: built_def)
  have here: "prefix U ?p \<or> fs0 ?p = Some Dir" using Cons.prems(4) [of "[c]"] by simp
  with b have nl: "not_link (fw_fs w) ?p" by (cases "prefix U ?p") (auto simp: building_def)
  then have walk: "walk 40 (fw_fs w) cur [c] = Some ?p"
    using walk_plain_all [of "[c]" "fw_fs w" cur] Cons.prems(3) by (auto simp: prefix_Cons)
  have below: "prefix U (?p @ ds) \<or> fs0 (?p @ ds) = Some Dir" if "prefix ds cs" "ds \<noteq> []" for ds
    using Cons.prems(4) [of "c # ds"] that by simp
  note IH = Cons.IH [OF _ _ _ below]
  have at: "node_at (fw_fs w) ?p = fw_fs w ?p" by (simp add: node_at_def)
  show ?case
  proof (cases "fw_fs w ?p")
    case None
    have "fw_fs w ?p = fs0 ?p" if "\<not> prefix U ?p" using b that unfolding building_def by blast
    with here None have U: "prefix U ?p" by fastforce
    obtain r1 w1 where sc: "syscall os (make_dir ?p) w = (r1, w1)" by fastforce
    note b1 = make_dir_built(1) [OF sc Cons.prems(2) U] and dirs = make_dir_built(2) [OF sc Cons.prems(2) U]
      and files = make_dir_built(3) [OF sc Cons.prems(2) U None] and new = make_dir_built(4) [OF sc Cons.prems(2) U]
    show ?thesis
    proof (cases r1)
      case (Some e)
      with None Cons.prems(1) walk at sc b1 files dirs show ?thesis by (auto simp del: walk.simps)
    next
      case r1: None
      with None Cons.prems(1) walk at sc have rest: "make_dirs os ?p cs w1 = (r, w')" by (auto simp del: walk.simps)
      have "fw_fs w' ?p = Some Dir" if "cs = []" using that rest new r1 by simp
      with IH [OF rest b1] Cons.prems(3) files keeps_dirs_trans [OF dirs] show ?thesis by (cases "cs = []") auto
    qed
  next
    case (Some n)
    show ?thesis
    proof (cases n)
      case Dir
      with Some Cons.prems(1) walk at have rest: "make_dirs os ?p cs w = (r, w')" by (simp del: walk.simps)
      have "fw_fs w' ?p = Some Dir" if "cs = []" using that rest Some Dir by simp
      with IH [OF rest Cons.prems(2)] Cons.prems(3) show ?thesis by (cases "cs = []") auto
    qed (use Some Cons.prems(1,2) walk at nl in \<open>auto simp del: walk.simps\<close>)
  qed
qed

text \<open>\<^verbatim>\<open>MkdirAll\<close> and \<^verbatim>\<open>WriteFile\<close> at or below \<open>U\<close>, a new entry of the managed directory.\<close>

lemma building_not_link:
  assumes "building fs0 (X @ [s]) fs" and "dirs_to fs0 X" and "prefix ds (X @ s # q)" and "ds \<noteq> []"
  shows "not_link fs ds"
proof -
  have "\<not> prefix (X @ [s]) q" if "prefix q X" for q using prefix_length_le [OF that] by (auto dest: prefix_length_le)
  then have "dirs_to fs X" using assms(1,2) by (simp add: dirs_to_def building_def)
  moreover have "not_link fs (X @ s # q)" for q using assms(1) by (auto simp: building_def)
  ultimately show ?thesis using not_link_below assms(3,4) by blast
qed

lemma MkdirAll_built:
  assumes "MkdirAll os (abs_path (X @ s # q)) w = (r, w')" and "built fs0 (X @ [s]) w"
    and "plains (X @ s # q)" and "dirs_to fs0 X"
  shows "built fs0 (X @ [s]) w' \<and> keeps_dirs w w' \<and> file_at (fw_fs w') = file_at (fw_fs w) \<and>
    (r = None \<longrightarrow> fw_fs w' (X @ s # q) = Some Dir)"
proof -
  have split: "split_on (CHR ''/'') (abs_path (X @ s # q)) = [] # X @ s # q"
    by (rule split_abs_path) (use assms(3) in auto)
  have run: "make_dirs os [] (X @ s # q) w = (r, w')"
    using assms(1) by (simp add: MkdirAll_def split node_at_def)
  have pre: "prefix (X @ [s]) ([] @ ds) \<or> fs0 ([] @ ds) = Some Dir" if "prefix ds (X @ s # q)" "ds \<noteq> []" for ds
    using that assms(4) by (auto simp: prefix_append prefix_Cons dirs_to_def)
  from make_dirs_built [OF run assms(2) assms(3) pre] show ?thesis by simp
qed

lemma WriteFile_built:
  assumes "WriteFile os (abs_path (X @ s # q)) d w = (r, w')" and "built fs0 (X @ [s]) w"
    and "plains (X @ s # q)" and "dirs_to fs0 X"
  shows "built fs0 (X @ [s]) w' \<and> keeps_dirs w w' \<and>
    (r = None \<longrightarrow> file_at (fw_fs w') = (file_at (fw_fs w))(X @ s # q \<mapsto> d))"
proof -
  let ?p = "X @ s # q"
  have b: "building fs0 (X @ [s]) (fw_fs w)" using assms(2) by (simp add: built_def)
  have follow: "follow os (fw_fs w) (abs_path ?p) = Some ?p"
    by (rule follow_plain) (use assms(3) building_not_link [OF b assms(4)] in auto)
  have fs1: "fs = (fw_fs w)(?p \<mapsto> File x) \<and> fw_fs w ?p \<noteq> Some Dir" if "store_file ?p x (fw_fs w) = Inr fs" for fs x
    using that by (auto simp: store_file_def node_at_def split: if_splits)
  have b1: "building fs0 (X @ [s]) fs" if "store_file ?p x (fw_fs w) = Inr fs" for fs x
    using fs1 [OF that] b by (auto simp: building_def)
  show ?thesis
  proof (cases "os_fault os (length (fw_trace w)) \<noteq> None \<and> os_partial os (length (fw_trace w)) \<noteq> None")
    case True
    then obtain e x where "os_fault os (length (fw_trace w)) = Some e" "os_partial os (length (fw_trace w)) = Some x" by auto
    with assms(1) follow have "r = Some e \<and> (w' = w \<or> (\<exists>fs. store_file ?p x (fw_fs w) = Inr fs \<and>
        w' = \<lparr>fw_fs = fs, fw_trace = fw_trace w @ [fs]\<rparr>))"
      by (auto simp: WriteFile_def split: sum.splits)
    then consider "r = Some e" "w' = w"
      | fs where "r = Some e" "store_file ?p x (fw_fs w) = Inr fs" "w' = \<lparr>fw_fs = fs, fw_trace = fw_trace w @ [fs]\<rparr>" by blast
    then show ?thesis
    proof cases
      case 1
      with assms(2) show ?thesis by simp
    next
      case 2
      have "keeps_dirs w w'" using fs1 [OF 2(2)] 2(3) by (auto simp: keeps_dirs_def)
      with 2(1,3) b1 [OF 2(2)] assms(2) show ?thesis by (simp add: built_def)
    qed
  next
    case False
    with assms(1) follow have sc: "syscall os (store_file ?p d) w = (r, w')"
      by (auto simp: WriteFile_def split: option.splits)
    have "built fs0 (X @ [s]) w'" by (rule syscall_built [OF sc assms(2) b1])
    moreover have "keeps_dirs w w'" "r = None \<Longrightarrow> file_at (fw_fs w') = (file_at (fw_fs w))(?p \<mapsto> d)"
      using syscall_effect [OF sc, of "\<lambda>fs. fs = (fw_fs w)(?p \<mapsto> File d) \<and> fw_fs w ?p \<noteq> Some Dir", OF fs1]
      by (auto simp: keeps_dirs_def file_at_def fun_eq_iff)
    ultimately show ?thesis by simp
  qed
qed

subsection \<open>The contents\<close>

text \<open>
  The file a reader finds under a name: the last layer with that file name, encoded. A set of
  configurations is the files \<open>[b, f]\<close> of its bundles.
\<close>

fun layer_file :: "(go_value \<Rightarrow> error + string) \<Rightarrow> DynamicConfig list \<Rightarrow> string \<Rightarrow> string option" where
  "layer_file yaml [] f = None"
| "layer_file yaml (c # cs) f =
     (case layer_file yaml cs f of
        Some d \<Rightarrow> Some d
      | None \<Rightarrow> if configFileName c = f then (case yaml (dc_Config c) of Inr d \<Rightarrow> Some d | Inl _ \<Rightarrow> None) else None)"

fun config_file :: "(go_value \<Rightarrow> error + string) \<Rightarrow> (string \<rightharpoonup> DynamicConfig list) \<Rightarrow> string list \<Rightarrow> string option" where
  "config_file yaml configs [b, f] = Option.bind (configs b) (\<lambda>ls. layer_file yaml ls f)"
| "config_file yaml configs _ = None"

lemma write_layers_built:
  assumes "write_layers os yaml (abs_path (X @ [s])) b ls w = (ok, w')" and "built fs0 (X @ [s]) w"
    and "plains (X @ [s, b])" and "\<forall>c \<in> set ls. plain (configFileName c)" and "dirs_to fs0 X"
  shows "built fs0 (X @ [s]) w' \<and> keeps_dirs w w' \<and>
    (ok \<longrightarrow> (\<forall>p. file_at (fw_fs w') p =
       (case if p = X @ [s, b, last p] then layer_file yaml ls (last p) else None of Some d \<Rightarrow> Some d | None \<Rightarrow> file_at (fw_fs w) p)))"
  using assms
proof (induction ls arbitrary: w)
  case Nil
  then show ?case by simp
next
  case (Cons c ls)
  let ?f = "configFileName c"
  show ?case
  proof (cases "yaml (dc_Config c)")
    case (Inl e)
    with Cons.prems(1,2) show ?thesis by simp
  next
    case (Inr d)
    have path: "path_join [abs_path (X @ [s]), b, ?f] = abs_path (X @ s # [b, ?f])"
      using path_join_plain [of "X @ [s]" "[b, ?f]"] Cons.prems(3,4) by simp
    obtain r w1 where wr: "WriteFile os (abs_path (X @ s # [b, ?f])) d w = (r, w1)" by fastforce
    have "plains (X @ s # [b, ?f])" using Cons.prems(3,4) by auto
    note w1 = WriteFile_built [OF wr Cons.prems(2) this Cons.prems(5)]
    show ?thesis
    proof (cases r)
      case (Some e)
      with Cons.prems(1) Inr path wr w1 show ?thesis by simp
    next
      case None
      with Cons.prems(1) Inr path wr have "write_layers os yaml (abs_path (X @ [s])) b ls w1 = (ok, w')" by simp
      from Cons.IH [OF this] w1 Cons.prems(3-5)
      have IH: "built fs0 (X @ [s]) w' \<and> keeps_dirs w1 w' \<and> (ok \<longrightarrow> (\<forall>p. file_at (fw_fs w') p =
        (case if p = X @ [s, b, last p] then layer_file yaml ls (last p) else None of Some d \<Rightarrow> Some d | None \<Rightarrow> file_at (fw_fs w1) p)))"
        by simp
      have "file_at (fw_fs w') p = (case if p = X @ [s, b, last p] then layer_file yaml (c # ls) (last p) else None of
          Some d \<Rightarrow> Some d | None \<Rightarrow> file_at (fw_fs w) p)" if ok for p
      proof -
        have "file_at (fw_fs w1) p = (if p = X @ [s, b, ?f] then Some d else file_at (fw_fs w) p)"
          using w1 None by simp
        moreover have "p = X @ [s, b, ?f] \<longleftrightarrow> p = X @ [s, b, last p] \<and> last p = ?f" by (cases "last p = ?f") auto
        ultimately show ?thesis using IH that Inr by (simp split: option.splits)
      qed
      with IH w1 keeps_dirs_trans show ?thesis by blast
    qed
  qed
qed

definition config_names :: "(string \<rightharpoonup> DynamicConfig list) \<Rightarrow> bool" where
  "config_names configs \<longleftrightarrow>
     (\<forall>b ls. configs b = Some ls \<longrightarrow> plain b \<and> (\<forall>c \<in> set ls. plain (configFileName c)))"

text \<open>A bundle's layers, written before the layers of the bundles that follow.\<close>

lemma layers_of_bundle:
  assumes "configs b = Some ls"
    and "\<And>p. files p = (case if p = X @ [s, b, last p] then layer_file yaml ls (last p) else None of Some d \<Rightarrow> Some d | None \<Rightarrow> files0 p)"
  shows "(case config_file yaml (configs |` set bs) q of Some d \<Rightarrow> Some d | None \<Rightarrow> files (X @ s # q)) =
    (case config_file yaml (configs |` set (b # bs)) q of Some d \<Rightarrow> Some d | None \<Rightarrow> files0 (X @ s # q))"
proof (cases "\<exists>f. q = [b, f]")
  case True
  then obtain f where "q = [b, f]" by blast
  with assms show ?thesis by (cases "b \<in> set bs") (auto split: option.splits)
next
  case False
  then have "X @ s # q \<noteq> X @ [s, b, last (X @ s # q)]" by auto
  with assms(2) have "files (X @ s # q) = files0 (X @ s # q)" by simp
  moreover have "config_file yaml (configs |` set bs) q = config_file yaml (configs |` set (b # bs)) q"
    using False by (cases "(yaml, configs, q)" rule: config_file.cases) (auto simp: restrict_map_def)
  ultimately show ?thesis by (simp split: option.split)
qed

lemma write_bundles_built:
  assumes "write_bundles os yaml (abs_path (X @ [s])) configs bs w = (ok, w')" and "built fs0 (X @ [s]) w"
    and "plains (X @ [s])" and "config_names configs" and "dirs_to fs0 X"
  shows "built fs0 (X @ [s]) w' \<and> keeps_dirs w w' \<and>
    (ok \<longrightarrow> (\<forall>q. file_at (fw_fs w') (X @ s # q) =
       (case config_file yaml (configs |` set bs) q of Some d \<Rightarrow> Some d | None \<Rightarrow> file_at (fw_fs w) (X @ s # q))))"
  using assms
proof (induction bs arbitrary: w)
  case Nil
  have "config_file yaml Map.empty q = None" for q by (induction yaml "Map.empty :: string \<rightharpoonup> DynamicConfig list" q rule: config_file.induct) auto
  with Nil show ?case by simp
next
  case (Cons b bs)
  show ?case
  proof (cases "configs b")
    case None
    then have "configs |` set (b # bs) = configs |` set bs" by (auto simp: restrict_map_def)
    with None Cons show ?thesis by simp
  next
    case (Some ls)
    then have pb: "plain b" "\<forall>c \<in> set ls. plain (configFileName c)" using Cons.prems(4) by (auto simp: config_names_def)
    have path: "path_join [abs_path (X @ [s]), b] = abs_path (X @ s # [b])"
      using path_join_plain [of "X @ [s]" "[b]"] Cons.prems(3) pb by simp
    obtain r w1 where mk: "MkdirAll os (abs_path (X @ s # [b])) w = (r, w1)" by fastforce
    have "plains (X @ s # [b])" using Cons.prems(3) pb by auto
    note w1 = MkdirAll_built [OF mk Cons.prems(2) this Cons.prems(5)]
    obtain ok2 w2 where wl: "write_layers os yaml (abs_path (X @ [s])) b ls w1 = (ok2, w2)" by fastforce
    have "plains (X @ [s, b])" using Cons.prems(3) pb by auto
    note w2 = write_layers_built [OF wl conjunct1 [OF w1] this pb(2) Cons.prems(5)]
    show ?thesis
    proof (cases "r = None \<and> ok2")
      case False
      with Cons.prems(1) Some path mk wl w1 w2 keeps_dirs_trans show ?thesis by (auto split: option.splits bool.splits)
    next
      case True
      with Cons.prems(1) Some path mk wl have "write_bundles os yaml (abs_path (X @ [s])) configs bs w2 = (ok, w')" by simp
      from Cons.IH [OF this conjunct1 [OF w2] Cons.prems(3-5)]
      have IH: "built fs0 (X @ [s]) w' \<and> keeps_dirs w2 w' \<and> (ok \<longrightarrow> (\<forall>q. file_at (fw_fs w') (X @ s # q) =
          (case config_file yaml (configs |` set bs) q of Some d \<Rightarrow> Some d | None \<Rightarrow> file_at (fw_fs w2) (X @ s # q))))" .
      have same: "file_at (fw_fs w1) = file_at (fw_fs w)" using w1 by blast
      have files2: "file_at (fw_fs w2) p = (case if p = X @ [s, b, last p] then layer_file yaml ls (last p) else None of
          Some d \<Rightarrow> Some d | None \<Rightarrow> file_at (fw_fs w) p)" for p using w2 True unfolding same by blast
      have "(case config_file yaml (configs |` set bs) q of Some d \<Rightarrow> Some d | None \<Rightarrow> file_at (fw_fs w2) (X @ s # q)) =
          (case config_file yaml (configs |` set (b # bs)) q of Some d \<Rightarrow> Some d | None \<Rightarrow> file_at (fw_fs w) (X @ s # q))" for q
        by (rule layers_of_bundle [where configs = configs and b = b, OF Some files2])
      with IH w1 w2 keeps_dirs_trans show ?thesis by (metis (no_types, lifting))
    qed
  qed
qed

section \<open>Switching to the new set\<close>

text \<open>A signature that names a new entry of the managed directory.\<close>

definition fresh_signature :: "fs \<Rightarrow> location \<Rightarrow> string \<Rightarrow> bool" where
  "fresh_signature fs X s \<longleftrightarrow> plain s \<and> s \<noteq> mlink \<and> s \<noteq> nlink \<and> (\<forall>q. fs (X @ s # q) = None)"

lemma building_view:
  assumes "managed fs0 X cur" and "fresh_signature fs0 X sig" and "building fs0 (X @ [sig]) fs"
  shows "managed fs X cur \<and> same_view os X fs0 fs"
proof (rule managed_frame [OF assms(1)])
  have same: "fs q = fs0 q" if "\<not> prefix (X @ [sig]) q" for q using assms(3) that by (simp add: building_def)
  have "\<not> prefix (X @ [sig]) q" if "prefix q X" for q using prefix_length_le [OF that] by (auto dest: prefix_length_le)
  with assms(1) same show "dirs_to fs X" by (simp add: managed_def dirs_to_def)
  show "fs (X @ mlink # q) = fs0 (X @ mlink # q)" for q using assms(2) same by (simp add: fresh_signature_def)
  show "fs (X @ s # q) = fs0 (X @ s # q)" if "cur = Some s" for s q
  proof -
    have "s \<noteq> sig" using assms(1,2) that by (auto simp: managed_def fresh_signature_def)
    with same show ?thesis by simp
  qed
qed

lemma new_link_view:
  assumes "managed fs X cur"
  shows "managed (fs(X @ [nlink] \<mapsto> n)) X cur \<and> same_view os X fs (fs(X @ [nlink] \<mapsto> n))"
proof (rule managed_frame [OF assms])
  have "q \<noteq> X @ [nlink]" if "prefix q X" for q using prefix_length_le [OF that] by auto
  with assms show "dirs_to (fs(X @ [nlink] \<mapsto> n)) X" by (simp add: managed_def dirs_to_def)
qed (use assms in \<open>auto simp: managed_def\<close>)

lemma renamed_managed:
  assumes "managed fs0 X cur" and "fresh_signature fs0 X sig" and "building fs0 (X @ [sig]) fs" and "fs (X @ [sig]) = Some Dir"
  shows "managed ((fs(X @ [nlink] := None))(X @ [mlink] \<mapsto> Link (abs_path (X @ [sig])))) X (Some sig)"
proof -
  have "q \<noteq> X @ [nlink] \<and> q \<noteq> X @ [mlink]" if "prefix q X" for q using prefix_length_le [OF that] by auto
  moreover have "dirs_to fs X" "plains X"
    using building_view [OF assms(1-3)] by (simp_all add: managed_def)
  moreover have "not_link fs (X @ sig # q)" for q using assms(3) by (simp add: building_def)
  ultimately show ?thesis
    using assms(2,4) by (auto simp: managed_def dirs_to_def fresh_signature_def)
qed

lemma same_view_trans: "same_view os X fs fs' \<Longrightarrow> same_view os X fs' fs'' \<Longrightarrow> same_view os X fs fs''"
  by (simp add: same_view_def)

lemma ReadFile_managed:
  assumes "managed fs X (Some s)" and "plains rest"
  shows "ReadFile os fs (abs_path (X @ mlink # rest)) = Inr d \<longleftrightarrow> file_at fs (X @ s # rest) = Some d"
    and "os_Stat os fs (abs_path (X @ mlink # rest)) = Some False \<longleftrightarrow> file_at fs (X @ s # rest) \<noteq> None"
proof -
  have "not_link fs (X @ s # rest)" using assms(1) by (simp add: managed_def)
  then show "ReadFile os fs (abs_path (X @ mlink # rest)) = Inr d \<longleftrightarrow> file_at fs (X @ s # rest) = Some d"
    and "os_Stat os fs (abs_path (X @ mlink # rest)) = Some False \<longleftrightarrow> file_at fs (X @ s # rest) \<noteq> None"
    using follow_managed [OF assms, of os]
    by (auto simp: ReadFile_def os_Stat_def through_def node_at_def file_at_def split: option.splits node.splits)
qed

text \<open>The two calls that switch, and what they leave behind.\<close>

lemma switch_calls:
  assumes "managed fs0 X cur" and "fresh_signature fs0 X sig" and "building fs0 (X @ [sig]) (fw_fs w2)"
    and "os_Symlink os target (abs_path (X @ [nlink])) w2 = (r3, w3)"
  shows "(r3 \<noteq> None \<and> fw_fs w3 = fw_fs w2) \<or> (r3 = None \<and> fw_fs w3 = (fw_fs w2)(X @ [nlink] \<mapsto> Link target))"
    and "fw_trace w3 = fw_trace w2 @ [fw_fs w3]"
    and "r3 = None \<Longrightarrow> Rename os (abs_path (X @ [nlink])) (abs_path (X @ [mlink])) w3 = (r4, w4) \<Longrightarrow>
      ((r4 \<noteq> None \<and> fw_fs w4 = fw_fs w3) \<or>
       (r4 = None \<and> fw_fs w4 = ((fw_fs w3)(X @ [nlink] := None))(X @ [mlink] \<mapsto> Link target))) \<and>
      fw_trace w4 = fw_trace w3 @ [fw_fs w4]"
proof -
  have m2: "managed (fw_fs w2) X cur" using building_view [OF assms(1-3)] by blast
  have no: "nofollow os fs (abs_path (X @ [l])) = Some (X @ [l])" if "managed fs X cur" "plain l" for fs l
    by (rule nofollow_plain) (use that dirs_to_not_link in \<open>auto simp: managed_def\<close>)
  from assms(4) no [OF m2] have sc: "syscall os (store_link target (X @ [nlink])) w2 = (r3, w3)"
    by (simp add: os_Symlink_def)
  have eff: "fs = (fw_fs w2)(X @ [nlink] \<mapsto> Link target)" if "store_link target (X @ [nlink]) (fw_fs w2) = Inr fs" for fs
    using that by (auto simp: store_link_def split: if_splits)
  from syscall_effect [OF sc, of "\<lambda>fs. fs = (fw_fs w2)(X @ [nlink] \<mapsto> Link target)", OF eff]
  show w3: "(r3 \<noteq> None \<and> fw_fs w3 = fw_fs w2) \<or> (r3 = None \<and> fw_fs w3 = (fw_fs w2)(X @ [nlink] \<mapsto> Link target))" .
  show "fw_trace w3 = fw_trace w2 @ [fw_fs w3]" using sc by (rule syscall_cases) simp_all
  assume "r3 = None" and rn: "Rename os (abs_path (X @ [nlink])) (abs_path (X @ [mlink])) w3 = (r4, w4)"
  then have fs3: "fw_fs w3 = (fw_fs w2)(X @ [nlink] \<mapsto> Link target)" using w3 by simp
  then have "managed (fw_fs w3) X cur" using new_link_view [OF m2] by simp
  with rn no have sc': "syscall os (move_node (X @ [nlink]) (X @ [mlink])) w3 = (r4, w4)" by (simp add: Rename_def)
  have eff': "fs = ((fw_fs w3)(X @ [nlink] := None))(X @ [mlink] \<mapsto> Link target)"
    if "move_node (X @ [nlink]) (X @ [mlink]) (fw_fs w3) = Inr fs" for fs
    using that by (auto simp: move_node_def fs3 node_at_def split: if_splits)
  from syscall_effect [OF sc', of "\<lambda>fs. fs = ((fw_fs w3)(X @ [nlink] := None))(X @ [mlink] \<mapsto> Link target)", OF eff']
  show "((r4 \<noteq> None \<and> fw_fs w4 = fw_fs w3) \<or>
       (r4 = None \<and> fw_fs w4 = ((fw_fs w3)(X @ [nlink] := None))(X @ [mlink] \<mapsto> Link target))) \<and>
      fw_trace w4 = fw_trace w3 @ [fw_fs w4]"
    using sc' by (auto elim: syscall_cases)
qed

text \<open>What holds at the end of an update, whichever call it stopped at.\<close>

definition unswitched :: "os_env \<Rightarrow> location \<Rightarrow> string option \<Rightarrow> fs \<Rightarrow> fs_world \<Rightarrow> bool" where
  "unswitched os X cur fs0 w \<longleftrightarrow>
     (\<forall>fs \<in> insert (fw_fs w) (set (fw_trace w)). managed fs X cur \<and> same_view os X fs0 fs)"

lemma built_unswitched:
  "managed fs0 X cur \<Longrightarrow> fresh_signature fs0 X sig \<Longrightarrow> built fs0 (X @ [sig]) w \<Longrightarrow> unswitched os X cur fs0 w"
  unfolding unswitched_def built_def by (blast intro: building_view [THEN conjunct1] building_view [THEN conjunct2])

text \<open>The situation in which the updater takes a new set of configurations.\<close>

definition update_ready ::
    "location \<Rightarrow> string option \<Rightarrow> fs \<Rightarrow> string \<Rightarrow> (string \<rightharpoonup> DynamicConfig list) \<Rightarrow> string list \<Rightarrow> DynamicConfigUpdater \<Rightarrow> bool" where
  "update_ready X cur fs0 sig configs bs dcu \<longleftrightarrow>
     managed fs0 X cur \<and> fresh_signature fs0 X sig \<and> config_names configs \<and> range_order configs bs \<and>
     dynamicConfigRoot dcu = abs_path (X @ [mlink])"

lemma update_ready_plain:
  "update_ready X cur fs0 sig configs bs dcu \<Longrightarrow> plains X \<and> dirs_to fs0 X \<and> plain sig"
  by (auto simp: update_ready_def managed_def fresh_signature_def)

lemma update_ready_paths:
  assumes "update_ready X cur fs0 sig configs bs dcu"
  shows "path_join [abs_path (X @ [mlink]), ''..'', sig] = abs_path (X @ [sig])"
    and "path_join [abs_path (X @ [mlink]), ''..'', nlink] = abs_path (X @ [nlink])"
  using path_join_up [of X mlink "[sig]"] path_join_up [of X mlink "[nlink]"] update_ready_plain [OF assms] by simp_all

lemma built_start: "fresh_signature fs0 X sig \<Longrightarrow> built fs0 (X @ [sig]) \<lparr>fw_fs = fs0, fw_trace = []\<rparr>"
  by (auto simp: built_def building_def fresh_signature_def prefix_def)

lemma range_order_restrict: "range_order m ks \<Longrightarrow> m |` set ks = m"
  using range_order_set [of m ks] by (auto simp: restrict_map_def fun_eq_iff)

lemma updateConfigs_effect:
  assumes ready: "update_ready X cur fs0 sig configs bs dcu"
    and "updateConfigs os yaml bs sig configs dcu \<lparr>fw_fs = fs0, fw_trace = []\<rparr> = (ok, w')"
  shows "(\<not> ok \<and> unswitched os X cur fs0 w') \<or>
    (ok \<and> (\<exists>w. unswitched os X cur fs0 w \<and> fw_trace w' = fw_trace w @ [fw_fs w']) \<and>
     managed (fw_fs w') X (Some sig) \<and> (\<forall>q. file_at (fw_fs w') (X @ sig # q) = config_file yaml configs q))"
proof -
  let ?w0 = "\<lparr>fw_fs = fs0, fw_trace = []\<rparr>"
  have managed: "managed fs0 X cur" and fresh: "fresh_signature fs0 X sig" and names: "config_names configs"
    and root: "dynamicConfigRoot dcu = abs_path (X @ [mlink])" and all: "configs |` set bs = configs"
    using ready range_order_restrict by (auto simp: update_ready_def)
  note plains_X = update_ready_plain [OF ready] and start = built_start [OF fresh]
  have un: "built fs0 (X @ [sig]) w \<Longrightarrow> unswitched os X cur fs0 w" for w
    by (rule built_unswitched [OF managed fresh])
  obtain r1 w1 where mk: "MkdirAll os (abs_path (X @ [sig])) ?w0 = (r1, w1)" by fastforce
  have w1: "built fs0 (X @ [sig]) w1 \<and> keeps_dirs ?w0 w1 \<and> file_at (fw_fs w1) = file_at fs0 \<and>
      (r1 = None \<longrightarrow> fw_fs w1 (X @ [sig]) = Some Dir)"
    using MkdirAll_built [of os X sig "[]", OF _ start] mk plains_X by simp
  obtain ok2 w2 where wb: "write_bundles os yaml (abs_path (X @ [sig])) configs bs w1 = (ok2, w2)" by fastforce
  have "plains (X @ [sig])" using plains_X by simp
  note w2 = write_bundles_built [OF wb conjunct1 [OF w1] this names, unfolded all, OF conjunct1 [OF conjunct2 [OF plains_X]]]
  have b2: "building fs0 (X @ [sig]) (fw_fs w2)" using w2 by (simp add: built_def)
  obtain r3 w3 where sl: "os_Symlink os (abs_path (X @ [sig])) (abs_path (X @ [nlink])) w2 = (r3, w3)" by fastforce
  obtain r4 w4 where rn: "Rename os (abs_path (X @ [nlink])) (abs_path (X @ [mlink])) w3 = (r4, w4)" by fastforce
  note sw = switch_calls [OF managed fresh b2 sl]
  have u2: "unswitched os X cur fs0 w2" using un w2 by blast
  then have u3: "unswitched os X cur fs0 w3"
    using sw(1,2) new_link_view same_view_trans by (fastforce simp: unswitched_def)
  consider "\<not> verifyManagedConfigPath os ?w0 dcu" "\<not> ok" "w' = ?w0"
    | "r1 \<noteq> None" "\<not> ok" "w' = w1" | "\<not> ok2" "\<not> ok" "w' = w2" | "r3 \<noteq> None" "\<not> ok" "w' = w3"
    | "r3 = None" "r4 \<noteq> None" "\<not> ok" "w' = w4" | "r1 = None" "ok2" "r3 = None" "r4 = None" "ok" "w' = w4"
    using assms(2) mk wb sl rn
    by (auto simp: updateConfigs_def update_ready_paths [OF ready] root Let_def split: if_splits option.splits bool.splits)
  then show ?thesis
  proof cases
    case 5
    then show ?thesis using sw(3) [OF _ rn] u3 by (auto simp: unswitched_def)
  next
    case 6
    have fs3: "fw_fs w3 = (fw_fs w2)(X @ [nlink] \<mapsto> Link (abs_path (X @ [sig])))" using sw(1) 6 by simp
    then have fs4: "fw_fs w4 = ((fw_fs w2)(X @ [nlink] := None))(X @ [mlink] \<mapsto> Link (abs_path (X @ [sig])))"
      and tr: "fw_trace w4 = fw_trace w3 @ [fw_fs w4]" using sw(3) [OF _ rn] 6 by simp_all
    have dir2: "fw_fs w2 (X @ [sig]) = Some Dir" using w1 w2 6 by (simp add: keeps_dirs_def)
    have "managed (fw_fs w4) X (Some sig)" using renamed_managed [OF managed fresh b2 dir2] fs4 by simp
    moreover have "file_at (fw_fs w4) (X @ sig # q) = config_file yaml configs q" for q
    proof -
      have "file_at fs0 (X @ sig # q) = None" using fresh by (simp add: fresh_signature_def file_at_def)
      with w1 w2 6 have "file_at (fw_fs w2) (X @ sig # q) = config_file yaml configs q" by (simp split: option.splits)
      moreover have "fw_fs w4 (X @ sig # q) = fw_fs w2 (X @ sig # q)" using fs4 fresh by (auto simp: fresh_signature_def)
      ultimately show ?thesis by (simp add: file_at_def)
    qed
    ultimately show ?thesis using 6 tr u3 by blast
  qed (use un start w1 w2 u3 in blast)+
qed

section \<open>Loading what was written\<close>

lemma configFileName_yaml: "suffix ''.yaml'' (configFileName c)"
proof -
  have "suffix ''.yaml'' ''config.yaml''" by (simp add: suffix_def)
  then show ?thesis by (simp add: configFileName_def Let_def suffix_def)
qed

lemma layer_file_yaml: "layer_file yaml ls f = Some d \<Longrightarrow> suffix ''.yaml'' f"
  by (induction ls) (auto split: option.splits if_splits intro: configFileName_yaml)

lemma config_file_yml: "config_file yaml configs [b, n @ ''.yml''] = None"
proof -
  have "\<not> suffix ''.yaml'' (n @ ''.yml'')"
    by (auto simp: suffix_to_prefix)
  then have "layer_file yaml ls (n @ ''.yml'') = None" for ls using layer_file_yaml by (cases "layer_file yaml ls (n @ ''.yml'')") blast+
  then show ?thesis by (auto simp: Option.bind_eq_None_conv)
qed

lemma abs_path_suffix: "abs_path (p @ [n]) @ e = abs_path (p @ [n @ e])"
  by (cases "p = []") (simp_all add: abs_path_def join_with_snoc)

lemma resolve_written:
  assumes "managed fs X (Some sig)" and "\<And>q. file_at fs (X @ sig # q) = config_file yaml configs q"
    and "plain b" and "plain n" and "length n > 2"
  shows "resolveYAMLFile (os_Stat os fs) (path_join [abs_path (X @ [mlink]), b, n]) =
    (if config_file yaml configs [b, n @ ''.yaml''] = None then [] else abs_path (X @ mlink # [b, n @ ''.yaml'']))"
proof -
  have pX: "plains X" using assms(1) by (simp add: managed_def)
  have path: "path_join [abs_path (X @ [mlink]), b, n] @ e = abs_path (X @ mlink # [b, n @ e])" for e
    using path_join_plain [of "X @ [mlink]" "[b, n]"] abs_path_suffix [of "X @ [mlink, b]" n e] pX assms(3,4) by simp
  have pl: "plain (n @ ''.yaml'')" "plain (n @ ''.yml'')" using assms(4,5) by (auto simp: plain_def)
  have st: "os_Stat os fs (abs_path (X @ mlink # [b, n @ e])) = Some False \<longleftrightarrow> config_file yaml configs [b, n @ e] \<noteq> None"
    if "plain (n @ e)" for e
    using ReadFile_managed(2) [OF assms(1), of "[b, n @ e]" os] assms(2) [of "[b, n @ e]"] assms(3) that by simp
  have neg: "(x = None \<or> x = Some True) \<longleftrightarrow> x \<noteq> Some False" for x :: "bool option" by (cases x) auto
  show ?thesis
    using st [OF pl(1)] st [OF pl(2)] config_file_yml [of yaml configs b n]
    unfolding resolveYAMLFile_def Let_def path neg by simp
qed

lemma to_lower_slash: "CHR ''/'' \<in> set (to_lower s) \<longleftrightarrow> CHR ''/'' \<in> set s"
proof -
  have "c = CHR ''/''" if "to_lower_char c = CHR ''/''" for c
  proof (rule ccontr)
    assume "c \<noteq> CHR ''/''"
    with that have u: "65 \<le> (of_char c :: nat)" "(of_char c :: nat) \<le> 90" "char_of (of_char c + 32 :: nat) = CHR ''/''"
      by (auto simp: to_lower_char_def split: if_splits)
    then have "(of_char (char_of (of_char c + 32 :: nat) :: char) :: nat) = 47" by simp
    with u(1,2) show False by simp
  qed
  moreover have "to_lower_char (CHR ''/'') = CHR ''/''" by (simp add: to_lower_char_def)
  ultimately have "to_lower_char c = CHR ''/'' \<longleftrightarrow> c = CHR ''/''" for c by metis
  then show ?thesis by (simp add: image_iff) metis
qed

section \<open>Removing old sets\<close>

lemma abs_path_inject: "p \<noteq> [] \<Longrightarrow> q \<noteq> [] \<Longrightarrow> plains p \<Longrightarrow> plains q \<Longrightarrow> abs_path p = abs_path q \<longleftrightarrow> p = q"
  by (metis split_abs_path list.inject)

text \<open>One removal leaves the link and the current set alone.\<close>

lemma RemoveAll_managed:
  assumes "managed (fw_fs w) X (Some sig)" and "plain n" and "n \<noteq> mlink" and "n \<noteq> sig"
    and "RemoveAll os (abs_path (X @ [n])) w = (r, w')"
  shows "managed (fw_fs w') X (Some sig) \<and> same_view os X (fw_fs w) (fw_fs w') \<and>
    (\<forall>p. fw_fs w p = None \<longrightarrow> fw_fs w' p = None) \<and> ((\<forall>i. os_fault os i = None) \<longrightarrow> (\<forall>q. fw_fs w' (X @ n # q) = None))"
proof -
  let ?gone = "\<lambda>q. if prefix (X @ [n]) q then None else fw_fs w q"
  have pX: "plains X" "dirs_to (fw_fs w) X" using assms(1) by (auto simp: managed_def)
  have "nofollow os (fw_fs w) (abs_path (X @ [n])) = Some (X @ [n])"
    by (rule nofollow_plain) (use pX assms(2) dirs_to_not_link in auto)
  with assms(5) have sc: "syscall os (remove_tree (X @ [n])) w = (r, w')" by (simp add: RemoveAll_def)
  from syscall_effect [OF sc, of "\<lambda>fs. fs = ?gone"]
  have eff: "fw_fs w' = fw_fs w \<or> fw_fs w' = ?gone" by (auto simp: remove_tree_def)
  have "\<not> prefix (X @ [n]) q" if "prefix q X" for q using prefix_length_le [OF that] by (auto dest: prefix_length_le)
  then have "dirs_to ?gone X" using pX(2) by (simp add: dirs_to_def)
  then have "managed ?gone X (Some sig) \<and> same_view os X (fw_fs w) ?gone"
    by (intro managed_frame [OF assms(1)]) (use assms(3,4) in auto)
  moreover have "fw_fs w' = ?gone" if "\<forall>i. os_fault os i = None"
    using sc that by (auto simp: syscall_def remove_tree_def)
  ultimately show ?thesis using eff assms(1) by (auto simp: same_view_def)
qed

lemma clean_entries_managed:
  assumes "managed (fw_fs w) X (Some (lastSignature dcu))" and "\<forall>n \<in> set ns. plain n"
    and "dynamicConfigRoot dcu = abs_path (X @ [mlink])"
    and "w' = clean_entries os dcu (map (\<lambda>n. abs_path (X @ [n])) ns) w"
  shows "managed (fw_fs w') X (Some (lastSignature dcu)) \<and> same_view os X (fw_fs w) (fw_fs w') \<and>
    (\<forall>p. fw_fs w p = None \<longrightarrow> fw_fs w' p = None) \<and>
    ((\<forall>i. os_fault os i = None) \<longrightarrow>
       (\<forall>n \<in> set ns. n \<noteq> mlink \<longrightarrow> \<not> suffix (lastSignature dcu) (abs_path (X @ [n])) \<longrightarrow> (\<forall>q. fw_fs w' (X @ n # q) = None)))"
  using assms
proof (induction ns arbitrary: w)
  case Nil
  then show ?case by (simp add: same_view_def)
next
  case (Cons n ns)
  let ?e = "abs_path (X @ [n])"
  have pX: "plains X" using Cons.prems(1) by (simp add: managed_def)
  have root: "?e = dynamicConfigRoot dcu \<longleftrightarrow> n = mlink"
    using abs_path_inject [of "X @ [n]" "X @ [mlink]"] Cons.prems(2,3) pX by simp
  show ?case
  proof (cases "n = mlink \<or> suffix (lastSignature dcu) ?e")
    case True
    with Cons.prems(4) root have "w' = clean_entries os dcu (map (\<lambda>n. abs_path (X @ [n])) ns) w" by auto
    from Cons.IH [OF Cons.prems(1) _ Cons.prems(3) this] Cons.prems(2) True show ?thesis by auto
  next
    case False
    obtain r w1 where rm: "RemoveAll os ?e w = (r, w1)" by fastforce
    have "suffix n ?e" by (cases "X = []") (auto simp: abs_path_def join_with_snoc suffix_def)
    with False have "n \<noteq> lastSignature dcu" by auto
    with RemoveAll_managed [OF Cons.prems(1) _ _ _ rm] Cons.prems(2) False
    have w1: "managed (fw_fs w1) X (Some (lastSignature dcu))" "same_view os X (fw_fs w) (fw_fs w1)"
      "\<forall>p. fw_fs w p = None \<longrightarrow> fw_fs w1 p = None" "(\<forall>i. os_fault os i = None) \<longrightarrow> (\<forall>q. fw_fs w1 (X @ n # q) = None)" by auto
    have "w' = clean_entries os dcu (map (\<lambda>n. abs_path (X @ [n])) ns) w1"
      using Cons.prems(4) rm False root by simp
    from Cons.IH [OF w1(1) _ Cons.prems(3) this] Cons.prems(2) w1 same_view_trans [OF w1(2)] show ?thesis by auto
  qed
qed

section \<open>Properties\<close>

definition sample_fs :: fs where
  "sample_fs = [[''dyn''] \<mapsto> Dir, [''dyn'', ''__managed__''] \<mapsto> Link ''/dyn/old'', [''dyn'', ''old''] \<mapsto> Dir,
     [''dyn'', ''old'', ''date''] \<mapsto> Dir, [''dyn'', ''old'', ''date'', ''config.yaml''] \<mapsto> File ''TZ: UTC'']"

definition sample_dcu :: DynamicConfigUpdater where
  "sample_dcu = NewDynamicConfigUpdater ''r1''
     \<lparr>Userid = ''r1'', co_Password = ''t'', co_Host = ''cog'', co_Port = 1883, co_SSLEnabled = False, co_SSLCertPath = [],
      EventsHandler = False, AutoReconnect = False, OnDisconnect = None\<rparr> ''/dyn/__managed__'' 5"

definition sample_configs :: "string \<rightharpoonup> DynamicConfig list" where
  "sample_configs = [''date'' \<mapsto> [\<lparr>Layer = ''base'', dc_Name = ''config'', dc_Config = GString ''TZ: CET''\<rparr>,
     \<lparr>Layer = ''room'', dc_Name = ''Ops'', dc_Config = GString ''TZ: PST''\<rparr>]]"

definition sample_yaml :: "go_value \<Rightarrow> error + string" where
  "sample_yaml v = (case v of GString t \<Rightarrow> Inr t | _ \<Rightarrow> Inl ''unsupported'')"

definition sample_os :: os_env where
  "sample_os = \<lparr>os_cwd = [], os_fault = (\<lambda>_. None), os_partial = (\<lambda>_. None)\<rparr>"

lemma sample_managed: "managed sample_fs [''dyn''] (Some ''old'')"
  by (auto simp: managed_def sample_fs_def dirs_to_def plain_def ManagedDynamicConfigLink_def abs_path_def prefix_Cons)

lemma sample_ready: "update_ready [''dyn''] (Some ''old'') sample_fs ''s2'' sample_configs [''date''] sample_dcu"
proof -
  have "configFileName \<lparr>Layer = ''base'', dc_Name = ''config'', dc_Config = GString ''TZ: CET''\<rparr> = ''config.yaml''"
    "configFileName \<lparr>Layer = ''room'', dc_Name = ''Ops'', dc_Config = GString ''TZ: PST''\<rparr> = ''room_ops.yaml''" by code_simp+
  then have "config_names sample_configs"
    by (auto simp: config_names_def sample_configs_def plain_def)
  moreover have "fresh_signature sample_fs [''dyn''] ''s2''"
    by (simp add: fresh_signature_def sample_fs_def plain_def ManagedDynamicConfigLink_def)
  moreover have "range_order sample_configs [''date'']" by (simp add: range_order_def sample_configs_def)
  moreover have "dynamicConfigRoot sample_dcu = abs_path ([''dyn''] @ [mlink])"
    by (simp add: sample_dcu_def NewDynamicConfigUpdater_def abs_path_def ManagedDynamicConfigLink_def)
  ultimately show ?thesis using sample_managed by (simp add: update_ready_def)
qed

lemma sample_update: "fst (updateConfigs sample_os sample_yaml [''date''] ''s2'' sample_configs sample_dcu \<lparr>fw_fs = sample_fs, fw_trace = []\<rparr>)"
  by code_simp



text \<open>
  C10: what was written is what is loaded. After a successful update, the layers the loader
  finds for a bundle, a room and a user, in the order in which it merges them, are exactly the
  encoded base, room and user layers of the set that was sent; room and user names match
  without regard to case.
\<close>

theorem update_then_load:
  assumes "update_ready X cur fs0 sig configs bs dcu"
    and "updateConfigs os yaml bs sig configs dcu \<lparr>fw_fs = fs0, fw_trace = []\<rparr> = (True, w')"
    and "plain b" and "CHR ''/'' \<notin> set room" and "CHR ''/'' \<notin> set user"
  shows "map (ReadFile os (fw_fs w')) (allConfigFiles (os_Stat os (fw_fs w')) (dynamicConfigRoot dcu) b room user) =
    map Inr (List.map_filter (\<lambda>f. config_file yaml configs [b, f])
      [''config.yaml'', ''room_'' @ to_lower room @ ''.yaml'', ''user_'' @ to_lower user @ ''.yaml''])"
proof -
  let ?fs = "fw_fs w'"
  have m: "managed ?fs X (Some sig)" and files: "\<And>q. file_at ?fs (X @ sig # q) = config_file yaml configs q"
    using updateConfigs_effect [OF assms(1,2)] by auto
  have root: "dynamicConfigRoot dcu = abs_path (X @ [mlink])" using assms(1) by (simp add: update_ready_def)
  have read: "ReadFile os ?fs (abs_path (X @ mlink # [b, n @ ''.yaml''])) = Inr d"
    if "config_file yaml configs [b, n @ ''.yaml''] = Some d" "plain (n @ ''.yaml'')" for n d
    using ReadFile_managed(1) [OF m, of "[b, n @ ''.yaml'']"] files that assms(3) by simp
  have names: "plain ''config''" "plain (''room_'' @ to_lower room)" "plain (''user_'' @ to_lower user)"
    using assms(4,5) to_lower_slash by (auto simp: plain_def simp del: set_map)
  have pl: "plain (n @ ''.yaml'')" if "plain n" "length n > 2" for n using that by (auto simp: plain_def)
  have nonempty: "abs_path p \<noteq> []" for p by (simp add: abs_path_def)
  note res = resolve_written [OF m files assms(3), where os = os]
  have step: "map (ReadFile os ?fs) (let f = resolveYAMLFile (os_Stat os ?fs) (path_join [abs_path (X @ [mlink]), b, n]) in if f \<noteq> [] then [f] else []) =
      map Inr (List.map_filter (\<lambda>f. config_file yaml configs [b, f]) [n @ ''.yaml''])" if "plain n" "length n > 2" for n
    using res [OF that] read [OF _ pl [OF that]] nonempty
    by (cases "config_file yaml configs [b, n @ ''.yaml'']") (simp_all add: List.map_filter_simps)
  have cat: "List.map_filter g [x, y, z] = List.map_filter g [x] @ List.map_filter g [y] @ List.map_filter g [z]" for g :: "string \<Rightarrow> string option" and x y z
    by (simp add: List.map_filter_simps split: option.splits)
  show ?thesis
    using step [OF names(1)] step [OF names(2)] step [OF names(3)]
    unfolding allConfigFiles_def Let_def root map_append cat by simp
qed

theorem update_then_load_witness:
  "\<exists>w'. updateConfigs sample_os sample_yaml [''date''] ''s2'' sample_configs sample_dcu \<lparr>fw_fs = sample_fs, fw_trace = []\<rparr> = (True, w') \<and>
     map (ReadFile sample_os (fw_fs w'))
       (allConfigFiles (os_Stat sample_os (fw_fs w')) (dynamicConfigRoot sample_dcu) ''date'' ''OPS'' ''bob'') =
     [Inr ''TZ: CET'', Inr ''TZ: PST'']"
proof -
  obtain w' where run: "updateConfigs sample_os sample_yaml [''date''] ''s2'' sample_configs sample_dcu \<lparr>fw_fs = sample_fs, fw_trace = []\<rparr> = (True, w')"
    using sample_update by (metis prod.collapse)
  have "map Inr (List.map_filter (\<lambda>f. config_file sample_yaml sample_configs [''date'', f])
      [''config.yaml'', ''room_'' @ to_lower ''OPS'' @ ''.yaml'', ''user_'' @ to_lower ''bob'' @ ''.yaml'']) =
      ([Inr ''TZ: CET'', Inr ''TZ: PST''] :: (error + string) list)" by code_simp
  with update_then_load [OF sample_ready run, of "''date''" "''OPS''" "''bob''"] run show ?thesis by (auto simp: plain_def)
qed

text \<open>
  C32: the clean-up after an update keeps the set in use. Whatever removals fail, the managed
  link stays in order and every path below it reads as before; when none fails, every other
  entry of the directory is gone, except those whose path ends with the signature.
\<close>

theorem clean_up_keeps_current:
  assumes "managed (fw_fs w) X (Some (lastSignature dcu))" and "X \<noteq> []" and "\<forall>n \<in> set names. plain n"
    and "dynamicConfigRoot dcu = abs_path (X @ [mlink])" and "w' = cleanOldConfigs os names dcu w"
  shows "managed (fw_fs w') X (Some (lastSignature dcu)) \<and> same_view os X (fw_fs w) (fw_fs w') \<and>
    ((\<forall>i. os_fault os i = None) \<longrightarrow>
       (\<forall>n \<in> set names. n \<noteq> mlink \<longrightarrow> \<not> suffix (lastSignature dcu) (abs_path (X @ [n])) \<longrightarrow> (\<forall>q. fw_fs w' (X @ n # q) = None)))"
proof -
  have pX: "plains X" using assms(1) by (simp add: managed_def)
  have "path_join [dynamicConfigRoot dcu, ''..''] = abs_path X"
    using path_join_up [of X mlink "[]"] pX assms(4) by simp
  then have "map (\<lambda>n. path_join [path_join [dynamicConfigRoot dcu, ''..''], n]) names = map (\<lambda>n. abs_path (X @ [n])) names"
    using path_join_plain [OF assms(2) pX] assms(3) by simp
  with assms(5) have "w' = clean_entries os dcu (map (\<lambda>n. abs_path (X @ [n])) names) w"
    by (simp add: cleanOldConfigs_def)
  from clean_entries_managed [OF assms(1,3,4) this] show ?thesis by blast
qed

theorem clean_up_keeps_current_witness:
  "let w = \<lparr>fw_fs = sample_fs([''dyn'', ''older''] \<mapsto> Dir), fw_trace = []\<rparr>;
       w' = cleanOldConfigs sample_os [''__managed__'', ''old'', ''older''] (sample_dcu\<lparr>lastSignature := ''old''\<rparr>) w
   in managed (fw_fs w') [''dyn''] (Some ''old'') \<and> fw_fs w' [''dyn'', ''older''] = None"
proof -
  let ?d = "sample_dcu\<lparr>lastSignature := ''old''\<rparr>"
  let ?w = "\<lparr>fw_fs = sample_fs([''dyn'', ''older''] \<mapsto> Dir), fw_trace = []\<rparr> :: fs_world"
  have "managed (fw_fs ?w) [''dyn''] (Some (lastSignature ?d))"
    by (auto simp: managed_def sample_fs_def dirs_to_def plain_def ManagedDynamicConfigLink_def abs_path_def prefix_Cons)
  moreover have "dynamicConfigRoot ?d = abs_path ([''dyn''] @ [mlink])"
    by (simp add: sample_dcu_def NewDynamicConfigUpdater_def abs_path_def ManagedDynamicConfigLink_def)
  moreover have "\<forall>n \<in> set [''__managed__'', ''old'', ''older'']. plain n" by (simp add: plain_def)
  ultimately have c: "managed (fw_fs w') [''dyn''] (Some (lastSignature ?d)) \<and>
      (\<forall>n \<in> set [''__managed__'', ''old'', ''older'']. n \<noteq> mlink \<longrightarrow> \<not> suffix (lastSignature ?d) (abs_path ([''dyn''] @ [n])) \<longrightarrow>
         (\<forall>q. fw_fs w' ([''dyn''] @ n # q) = None))"
    if "w' = cleanOldConfigs sample_os [''__managed__'', ''old'', ''older''] ?d ?w" for w'
    using clean_up_keeps_current [of ?w "[''dyn'']" ?d "[''__managed__'', ''old'', ''older'']" w' sample_os] that by (simp add: sample_os_def)
  have "\<not> suffix ''old'' (abs_path ([''dyn''] @ [''older'']))" by (simp add: abs_path_def suffix_to_prefix)
  with c [OF refl] show ?thesis by (simp add: Let_def ManagedDynamicConfigLink_def)
qed

text \<open>
  A left-over link blocks all later updates. When an entry \<^verbatim>\<open>new\<close> exists in the managed
  directory, as it does after a rename that failed, no update succeeds, whatever it contains,
  and the entry is still there afterwards: nothing removes it, since the clean-up only runs
  after a success.
\<close>

theorem left_over_link_blocks_updates:
  assumes "update_ready X cur fs0 sig configs bs dcu" and "fs0 (X @ [nlink]) \<noteq> None"
    and "updateConfigs os yaml bs sig configs dcu \<lparr>fw_fs = fs0, fw_trace = []\<rparr> = (ok, w')"
  shows "\<not> ok \<and> fw_fs w' (X @ [nlink]) = fs0 (X @ [nlink])"
proof -
  let ?w0 = "\<lparr>fw_fs = fs0, fw_trace = []\<rparr>"
  have managed: "managed fs0 X cur" and fresh: "fresh_signature fs0 X sig" and names: "config_names configs"
    and root: "dynamicConfigRoot dcu = abs_path (X @ [mlink])"
    using assms(1) by (auto simp: update_ready_def)
  note plains_X = update_ready_plain [OF assms(1)]
  obtain r1 w1 where mk: "MkdirAll os (abs_path (X @ [sig])) ?w0 = (r1, w1)" by fastforce
  have b1: "built fs0 (X @ [sig]) w1"
    using MkdirAll_built [of os X sig "[]", OF _ built_start [OF fresh]] mk plains_X by simp
  obtain ok2 w2 where wb: "write_bundles os yaml (abs_path (X @ [sig])) configs bs w1 = (ok2, w2)" by fastforce
  have b2: "built fs0 (X @ [sig]) w2" using write_bundles_built [OF wb b1 _ names] plains_X by simp
  have keep: "fw_fs w (X @ [nlink]) = fs0 (X @ [nlink])" if "built fs0 (X @ [sig]) w" for w
    using that fresh by (auto simp: built_def building_def fresh_signature_def)
  obtain r3 w3 where sl: "os_Symlink os (abs_path (X @ [sig])) (abs_path (X @ [nlink])) w2 = (r3, w3)" by fastforce
  have b2': "building fs0 (X @ [sig]) (fw_fs w2)" using b2 by (simp add: built_def)
  have "managed (fw_fs w2) X cur" using building_view [OF managed fresh b2'] by blast
  then have "nofollow os (fw_fs w2) (abs_path (X @ [nlink])) = Some (X @ [nlink])"
    by (intro nofollow_plain) (use dirs_to_not_link in \<open>auto simp: managed_def\<close>)
  with sl have "syscall os (store_link (abs_path (X @ [sig])) (X @ [nlink])) w2 = (r3, w3)" by (simp add: os_Symlink_def)
  moreover have "store_link (abs_path (X @ [sig])) (X @ [nlink]) (fw_fs w2) \<noteq> Inr fs" for fs
    using keep [OF b2] assms(2) by (simp add: store_link_def node_at_def)
  ultimately have r3: "r3 \<noteq> None \<and> fw_fs w3 = fw_fs w2" using syscall_effect [where P = "\<lambda>_. False"] by metis
  have "\<not> ok \<and> w' \<in> {?w0, w1, w2, w3}"
    using assms(3) mk wb sl r3
    by (auto simp: updateConfigs_def update_ready_paths [OF assms(1)] root Let_def split: if_splits option.splits bool.splits)
  with keep [OF b1] keep [OF b2] r3 show ?thesis by auto
qed

theorem left_over_link_blocks_updates_witness:
  "let os1 = sample_os\<lparr>os_fault := \<lambda>n. if n = 5 then Some ''input/output error'' else None\<rparr>;
       w1 = snd (updateConfigs os1 sample_yaml [''date''] ''s2'' sample_configs sample_dcu \<lparr>fw_fs = sample_fs, fw_trace = []\<rparr>)
   in fw_fs w1 [''dyn'', ''new''] = Some (Link ''/dyn/s2'') \<and>
      \<not> fst (updateConfigs sample_os sample_yaml [] ''s3'' Map.empty sample_dcu \<lparr>fw_fs = sample_fs([''dyn'', ''new''] \<mapsto> Link ''/dyn/s2''), fw_trace = []\<rparr>)"
proof -
  let ?fs = "sample_fs([''dyn'', ''new''] \<mapsto> Link ''/dyn/s2'')"
  have "managed ?fs [''dyn''] (Some ''old'')"
    using new_link_view [OF sample_managed, of "Link ''/dyn/s2''"] by simp
  then have "update_ready [''dyn''] (Some ''old'') ?fs ''s3'' Map.empty [] sample_dcu"
    using sample_ready
    by (auto simp: update_ready_def fresh_signature_def sample_fs_def plain_def ManagedDynamicConfigLink_def config_names_def range_order_def)
  moreover obtain ok w' where run: "updateConfigs sample_os sample_yaml [] ''s3'' Map.empty sample_dcu \<lparr>fw_fs = ?fs, fw_trace = []\<rparr> = (ok, w')"
    by fastforce
  ultimately have "\<not> ok" using left_over_link_blocks_updates [OF _ _ run, of "[''dyn'']" "Some ''old''"] by simp
  moreover have "fw_fs (snd (updateConfigs (sample_os\<lparr>os_fault := \<lambda>n. if n = 5 then Some ''input/output error'' else None\<rparr>)
      sample_yaml [''date''] ''s2'' sample_configs sample_dcu \<lparr>fw_fs = sample_fs, fw_trace = []\<rparr>)) [''dyn'', ''new''] = Some (Link ''/dyn/s2'')"
    by code_simp
  ultimately show ?thesis using run by (simp add: Let_def)
qed

text \<open>
  A relative configuration root breaks managed configuration. The link is created with
  the update directory's path as it stands, which is then resolved from the directory that
  holds the link: with the root \<^verbatim>\<open>dyn\<close> below the working directory the update reports
  success, and the loader finds nothing under the link.
\<close>

theorem relative_root_dangles:
  "let os = \<lparr>os_cwd = [''srv''], os_fault = \<lambda>_. None, os_partial = \<lambda>_. None\<rparr>;
       dcu = sample_dcu\<lparr>dynamicConfigRoot := path_join [''dyn'', ManagedDynamicConfigLink]\<rparr>;
       (ok, w) = updateConfigs os sample_yaml [''date''] ''s2'' sample_configs dcu
         \<lparr>fw_fs = [[''srv''] \<mapsto> Dir, [''srv'', ''dyn''] \<mapsto> Dir], fw_trace = []\<rparr>
   in ok \<and> ReadFile os (fw_fs w) ''dyn/s2/date/config.yaml'' = Inr ''TZ: CET'' \<and>
      os_Stat os (fw_fs w) (dynamicConfigRoot dcu) = None \<and>
      allConfigFiles (os_Stat os (fw_fs w)) (dynamicConfigRoot dcu) ''date'' ''ops'' ''bob'' = []"
  by code_simp

text \<open>
  C39: whether the updater starts depends on a race. With a broker that accepts the connection
  and the subscription, the updater runs, with its timer armed and its first request published,
  exactly when the library calls the connect handler after the options are stored and before
  the first request, and that request is published; in every other case the process panics.
\<close>

theorem updater_start_races:
  assumes "bus_Connect be ((dcu_options dcu)\<lparr>AutoReconnect := True, EventsHandler := True\<rparr>) = Some (Ret (None, conn, slept, events))"
    and "be_subscribe be (configTopic dcu) = None" and "refreshTimer dcu = None" and "dcu_conn dcu = None"
  shows "let raw = marshal \<lparr>gdc_RelayID = dcu_id dcu, gdc_Signature = lastSignature dcu, gdc_ReplyTo = configTopic dcu\<rparr>
    in if sched = Before_Refresh \<and> bus_Publish be ''bot/relays/info'' raw = None
       then \<exists>dcu'. dcu_Run be marshal sched dcu = Some (Ret (None, dcu', [(''bot/relays/info'', raw)])) \<and>
          refreshTimer dcu' = Some True \<and> dcu_conn dcu' = Some conn
       else \<exists>p. dcu_Run be marshal sched dcu = Some (Panic p)"
  using assms
  by (cases sched) (auto simp: dcu_Run_def dcu_handleBusEvents_def refreshConfigs_def timer_Reset_def Let_def split: option.splits)

theorem updater_start_races_witness:
  "(\<exists>dcu'. dcu_Run sample_bus gdc_ReplyTo Before_Refresh sample_dcu =
      Some (Ret (None, dcu', [(''bot/relays/info'', ''bot/relays/r1/dynconfigs'')])) \<and> refreshTimer dcu' = Some True) \<and>
   (\<exists>p. dcu_Run sample_bus gdc_ReplyTo After_Refresh sample_dcu = Some (Panic p))"
proof -
  let ?o = "(dcu_options sample_dcu)\<lparr>AutoReconnect := True, EventsHandler := True\<rparr>"
  obtain conn slept events where con: "bus_Connect sample_bus ?o = Some (Ret (None, conn, slept, events))"
    by (simp add: bus_Connect_def Connect_def sample_bus_def configureSSL_def sample_dcu_def NewDynamicConfigUpdater_def Let_def)
  have "be_subscribe sample_bus (configTopic sample_dcu) = None" "refreshTimer sample_dcu = None" "dcu_conn sample_dcu = None"
    by (simp_all add: sample_bus_def sample_dcu_def NewDynamicConfigUpdater_def)
  note race = updater_start_races [OF con this, of gdc_ReplyTo]
  have "bus_Publish sample_bus ''bot/relays/info'' x = None" for x by (simp add: bus_Publish_def Publish_def sample_bus_def)
  moreover have "configTopic sample_dcu = ''bot/relays/r1/dynconfigs''" by (simp add: sample_dcu_def NewDynamicConfigUpdater_def)
  ultimately show ?thesis using race [of Before_Refresh] race [of After_Refresh] by (auto simp: Let_def)
qed

end
