(* ===== verification/Version_List.thy ===== *)
theory Version_List
  imports Relay_Prelude "HOL-Library.Multiset" "HOL-Library.List_Lexorder" "HOL-Library.Char_ord"
begin

text \<open>
  Lists of semantic versions, \<^verbatim>\<open>relay/bundle/version_list.go\<close>, with the versions themselves,
  \<^verbatim>\<open>vendor/github.com/coreos/go-semver/semver/semver.go\<close>: parsing, printing, the comparison,
  and the list that keeps its members in descending order. \<^verbatim>\<open>sort.Sort\<close> is a parameter; what
  it promises is the locale \<open>go_sort\<close>, which is interpreted on the insertion sort that the
  standard library runs on short slices.
\<close>

section \<open>Versions\<close>

record semver =
  Major :: int
  Minor :: int
  Patch :: int
  PreRelease :: string
  Metadata :: string

text \<open>\<^verbatim>\<open>splitOff\<close> gives what is left of the input and what follows the delimiter.\<close>

definition splitOff :: "char \<Rightarrow> string \<Rightarrow> string \<times> string" where
  "splitOff delim input =
     (case split_n delim 2 input of
        [a, b] \<Rightarrow> (a, b)
      | _ \<Rightarrow> (input, []))"

definition num_message :: "string \<Rightarrow> num_error \<Rightarrow> error" where
  "num_message s e = ''strconv.ParseInt: parsing '' @ s @ (if e = SyntaxErr then '': invalid syntax'' else '': value out of range'')"

fun parse_parts :: "string list \<Rightarrow> error + int list" where
  "parse_parts [] = Inr []"
| "parse_parts (v # vs) =
     (case parse_int64 v of
        (val, Some e) \<Rightarrow> Inl (num_message v e)
      | (val, None) \<Rightarrow> (case parse_parts vs of Inl e \<Rightarrow> Inl e | Inr vals \<Rightarrow> Inr (val # vals)))"

definition NewVersion :: "string \<Rightarrow> error + semver" where
  "NewVersion version =
     (let (version1, metadata) = splitOff (CHR ''+'') version;
          (version2, preRelease) = splitOff (CHR ''-'') version1;
          dotParts = split_n (CHR ''.'') 3 version2
      in if length dotParts \<noteq> 3 then Inl (version2 @ '' is not in dotted-tri format'')
         else case parse_parts dotParts of
           Inl err \<Rightarrow> Inl err
         | Inr parsed \<Rightarrow> Inr \<lparr>Major = parsed ! 0, Minor = parsed ! 1, Patch = parsed ! 2,
             PreRelease = preRelease, Metadata = metadata\<rparr>)"

definition semver_String :: "semver \<Rightarrow> string" where
  "semver_String v =
     show_int (Major v) @ ''.'' @ show_int (Minor v) @ ''.'' @ show_int (Patch v) @
     (if PreRelease v \<noteq> [] then CHR ''-'' # PreRelease v else []) @
     (if Metadata v \<noteq> [] then CHR ''+'' # Metadata v else [])"

definition semver_Slice :: "semver \<Rightarrow> int list" where
  "semver_Slice v = [Major v, Minor v, Patch v]"

fun recursiveCompare :: "int list \<Rightarrow> int list \<Rightarrow> int" where
  "recursiveCompare (a # as) (b # bs) = (if a > b then 1 else if a < b then - 1 else recursiveCompare as bs)"
| "recursiveCompare _ _ = 0"

text \<open>\<^verbatim>\<open>strconv.Atoi\<close> on a 64-bit platform: the value and whether there was no error.\<close>

definition Atoi :: "string \<Rightarrow> int option" where
  "Atoi s = (case parse_int64 s of (n, None) \<Rightarrow> Some n | _ \<Rightarrow> None)"

text \<open>Strings are compared byte by byte, the order of \<^verbatim>\<open>List_Lexorder\<close> on characters.\<close>

fun recursivePreReleaseCompare :: "string list \<Rightarrow> string list \<Rightarrow> int" where
  "recursivePreReleaseCompare [] bs = 0"
| "recursivePreReleaseCompare (a # as) [] = 1"
| "recursivePreReleaseCompare (a # as) (b # bs) =
     (let strings = (if a > b then 1 else if a < b then - 1 else recursivePreReleaseCompare as bs)
      in case (Atoi a, Atoi b) of
           (Some aI, Some bI) \<Rightarrow> if aI > bI then 1 else if aI < bI then - 1 else strings
         | _ \<Rightarrow> strings)"

definition preReleaseCompare :: "semver \<Rightarrow> semver \<Rightarrow> int" where
  "preReleaseCompare versionA versionB =
     (let a = PreRelease versionA; b = PreRelease versionB
      in if length a = 0 \<and> length b > 0 then 1
         else if length b = 0 \<and> length a > 0 then - 1
         else recursivePreReleaseCompare (split_on (CHR ''.'') a) (split_on (CHR ''.'') b))"

definition semver_LessThan :: "semver \<Rightarrow> semver \<Rightarrow> bool" where
  "semver_LessThan v versionB =
     (let cmp = recursiveCompare (semver_Slice v) (semver_Slice versionB);
          cmp' = (if cmp = 0 then preReleaseCompare v versionB else cmp)
      in cmp' = - 1)"

section \<open>The list\<close>

record VersionList =
  members :: "semver list"

text \<open>\<^verbatim>\<open>LargestFirst.Less\<close>, on the two elements the indices stand for.\<close>

definition LargestFirst_Less :: "semver \<Rightarrow> semver \<Rightarrow> bool" where
  "LargestFirst_Less x y = semver_LessThan y x"

type_synonym 'a sorter = "('a \<Rightarrow> 'a \<Rightarrow> bool) \<Rightarrow> 'a list \<Rightarrow> 'a list"

definition NewVersionList :: VersionList where
  "NewVersionList = \<lparr>members = []\<rparr>"

definition VersionList_Add :: "semver sorter \<Rightarrow> semver \<Rightarrow> VersionList \<Rightarrow> VersionList" where
  "VersionList_Add sort_Sort version vlp =
     (if version \<in> set (members vlp) then vlp
      else vlp\<lparr>members := sort_Sort LargestFirst_Less (members vlp @ [version])\<rparr>)"

fun remove_first :: "string \<Rightarrow> semver list \<Rightarrow> semver list" where
  "remove_first candidate [] = []"
| "remove_first candidate (v # vs) =
     (if semver_String v = candidate then vs else v # remove_first candidate vs)"

definition VersionList_Remove :: "semver \<Rightarrow> VersionList \<Rightarrow> VersionList" where
  "VersionList_Remove version vlp = vlp\<lparr>members := remove_first (semver_String version) (members vlp)\<rparr>"

definition VersionList_Len :: "VersionList \<Rightarrow> nat" where
  "VersionList_Len vlp = length (members vlp)"

definition Largest :: "VersionList \<Rightarrow> semver option" where
  "Largest vlp = (case members vlp of [] \<Rightarrow> None | v # _ \<Rightarrow> Some v)"

definition Versions :: "VersionList \<Rightarrow> semver list" where
  "Versions vlp = map (\<lambda>i. members vlp ! i) [0..<length (members vlp)]"

text \<open>
  The insertion sort of the standard library: each element is swapped to the left while it is
  less than its neighbour. The prefix that is already sorted is kept reversed.
\<close>

fun insert_back :: "('a \<Rightarrow> 'a \<Rightarrow> bool) \<Rightarrow> 'a \<Rightarrow> 'a list \<Rightarrow> 'a list" where
  "insert_back lt x [] = [x]"
| "insert_back lt x (y # ys) = (if lt x y then y # insert_back lt x ys else x # y # ys)"

definition insertionSort :: "'a sorter" where
  "insertionSort lt xs = rev (foldl (\<lambda>acc x. insert_back lt x acc) [] xs)"

section \<open>Sorting\<close>

text \<open>
  What \<^verbatim>\<open>sort.Sort\<close> promises: the elements stay, and if the comparison is a strict weak
  ordering of them, none is less than one before it.
\<close>

definition strict_weak_on :: "'a set \<Rightarrow> ('a \<Rightarrow> 'a \<Rightarrow> bool) \<Rightarrow> bool" where
  "strict_weak_on A lt \<longleftrightarrow>
     (\<forall>x \<in> A. \<forall>y \<in> A. lt x y \<longrightarrow> \<not> lt y x) \<and>
     (\<forall>x \<in> A. \<forall>y \<in> A. \<forall>z \<in> A. \<not> lt x y \<longrightarrow> \<not> lt y z \<longrightarrow> \<not> lt x z)"

lemma strict_weak_asym: "strict_weak_on A lt \<Longrightarrow> x \<in> A \<Longrightarrow> y \<in> A \<Longrightarrow> lt x y \<Longrightarrow> \<not> lt y x"
  unfolding strict_weak_on_def by blast

lemma strict_weak_trans: "strict_weak_on A lt \<Longrightarrow> x \<in> A \<Longrightarrow> y \<in> A \<Longrightarrow> z \<in> A \<Longrightarrow> \<not> lt x y \<Longrightarrow> \<not> lt y z \<Longrightarrow> \<not> lt x z"
  unfolding strict_weak_on_def by blast

lemma strict_weak_subset: "strict_weak_on A lt \<Longrightarrow> B \<subseteq> A \<Longrightarrow> strict_weak_on B lt"
  unfolding strict_weak_on_def by blast

locale go_sort =
  fixes sort_Sort :: "'a sorter"
  assumes sort_mset: "mset (sort_Sort lt xs) = mset xs"
    and sort_sorted: "strict_weak_on (set xs) lt \<Longrightarrow> sorted_wrt (\<lambda>x y. \<not> lt y x) (sort_Sort lt xs)"
begin

lemma sort_set: "set (sort_Sort lt xs) = set xs"
  using sort_mset by (metis set_mset_mset)

lemma sort_distinct: "distinct (sort_Sort lt xs) = distinct xs"
  using sort_mset by (metis mset_eq_imp_distinct_iff)

lemma sort_hd:
  assumes "strict_weak_on (set xs) lt" and "sort_Sort lt xs = y # ys" and "z \<in> set xs"
  shows "\<not> lt z y"
proof (cases "z = y")
  case True
  then show ?thesis using strict_weak_asym [OF assms(1), of y y] assms(3) by blast
next
  case False
  then have "z \<in> set ys" using assms(2,3) sort_set [of lt xs] by auto
  then show ?thesis using sort_sorted [OF assms(1)] assms(2) by simp
qed

end

lemma insert_back_mset [simp]: "mset (insert_back lt x ys) = add_mset x (mset ys)"
  by (induction ys) auto

lemma insert_back_set [simp]: "set (insert_back lt x ys) = insert x (set ys)"
  by (induction ys) auto

lemma insert_back_sorted:
  "strict_weak_on (insert x (set ys)) lt \<Longrightarrow> sorted_wrt (\<lambda>a b. \<not> lt a b) ys \<Longrightarrow>
   sorted_wrt (\<lambda>a b. \<not> lt a b) (insert_back lt x ys)"
proof (induction ys)
  case Nil
  then show ?case by simp
next
  case (Cons y ys)
  have sub: "strict_weak_on (insert x (set ys)) lt" by (rule strict_weak_subset [OF Cons.prems(1)]) auto
  show ?case
  proof (cases "lt x y")
    case True
    then have "\<not> lt y x" using strict_weak_asym [OF Cons.prems(1), of x y] by simp
    with True Cons.IH [OF sub] Cons.prems(2) show ?thesis by auto
  next
    case False
    then have "\<not> lt x z" if "z \<in> set ys" for z
      using that strict_weak_trans [OF Cons.prems(1), of x y z] Cons.prems(2) by simp
    with False Cons.prems(2) show ?thesis by auto
  qed
qed

lemma insertion_foldl:
  "strict_weak_on (set xs \<union> set acc) lt \<Longrightarrow> sorted_wrt (\<lambda>a b. \<not> lt a b) acc \<Longrightarrow>
   sorted_wrt (\<lambda>a b. \<not> lt a b) (foldl (\<lambda>acc x. insert_back lt x acc) acc xs)"
proof (induction xs arbitrary: acc)
  case Nil
  then show ?case by simp
next
  case (Cons x xs)
  have "strict_weak_on (insert x (set acc)) lt" by (rule strict_weak_subset [OF Cons.prems(1)]) auto
  with Cons show ?case by (simp add: insert_back_sorted)
qed

lemma insertion_mset: "mset (foldl (\<lambda>acc x. insert_back lt x acc) acc xs) = mset xs + mset acc"
  by (induction xs arbitrary: acc) auto

interpretation insertion: go_sort insertionSort
proof
  show "mset (insertionSort lt xs) = mset xs" for lt :: "'a \<Rightarrow> 'a \<Rightarrow> bool" and xs
    by (simp add: insertionSort_def insertion_mset)
  show "sorted_wrt (\<lambda>x y. \<not> lt y x) (insertionSort lt xs)" if "strict_weak_on (set xs) lt" for lt :: "'a \<Rightarrow> 'a \<Rightarrow> bool" and xs
    using insertion_foldl [of xs "[]" lt] that by (simp add: insertionSort_def sorted_wrt_rev)
qed

section \<open>Printing and parsing\<close>

text \<open>The versions that parsing can give: 64-bit numbers, and no plus sign in the pre-release.\<close>

definition wf_semver :: "semver \<Rightarrow> bool" where
  "wf_semver v \<longleftrightarrow> 0 \<le> Major v \<and> Major v < 2 ^ 63 \<and> 0 \<le> Minor v \<and> Minor v < 2 ^ 63 \<and> 0 \<le> Patch v \<and> Patch v < 2 ^ 63 \<and>
     CHR ''+'' \<notin> set (PreRelease v)"

lemma show_nat_digits: "c \<in> set (show_nat n) \<Longrightarrow> \<exists>d < 10. c = digit_char d"
proof (induction n rule: show_nat.induct)
  case (1 n)
  show ?case
  proof (cases "n < 10")
    case True
    with "1.prems" show ?thesis by (auto simp: show_nat.simps [of n])
  next
    case False
    with "1.prems" have "c \<in> set (show_nat (n div 10)) \<or> c = digit_char (n mod 10)" by (auto simp: show_nat.simps [of n])
    moreover have "n mod 10 < 10" by simp
    ultimately show ?thesis using "1.IH" [OF False] by blast
  qed
qed

lemma show_nat_plain: "CHR ''.'' \<notin> set (show_nat n)" "CHR ''-'' \<notin> set (show_nat n)" "CHR ''+'' \<notin> set (show_nat n)"
proof -
  have "digit_char d \<noteq> CHR ''.''" "digit_char d \<noteq> CHR ''-''" "digit_char d \<noteq> CHR ''+''" if "d < 10" for d
    using digit_value_char [OF that] by (auto simp: digit_value_def)
  then show "CHR ''.'' \<notin> set (show_nat n)" "CHR ''-'' \<notin> set (show_nat n)" "CHR ''+'' \<notin> set (show_nat n)"
    using show_nat_digits by metis+
qed

lemma parse_show_int64:
  assumes "0 \<le> i" and "i < 2 ^ 63"
  shows "parse_int64 (show_int i) = (i, None)"
proof -
  have "hd (show_nat (nat i)) \<in> set (show_nat (nat i))" by simp
  then have "hd (show_nat (nat i)) \<noteq> CHR ''-''" "hd (show_nat (nat i)) \<noteq> CHR ''+''"
    using show_nat_plain by metis+
  moreover have "nat i < 2 ^ 63" using assms by (simp add: nat_less_iff)
  ultimately show ?thesis using assms(1) by (simp add: parse_int64_def show_int_def read_show_nat)
qed

lemma splitOff_none: "c \<notin> set s \<Longrightarrow> splitOff c s = (s, [])"
proof -
  assume "c \<notin> set s"
  then have "break_at c s = None" by (simp add: break_at_None)
  then show ?thesis by (simp add: splitOff_def numeral_2_eq_2)
qed

lemma splitOff_at: "c \<notin> set a \<Longrightarrow> splitOff c (a @ c # b) = (a, b)"
  by (simp add: splitOff_def numeral_2_eq_2 break_at_append)

lemma splitOff_parts:
  assumes "splitOff c s = (a, b)"
  shows "set a \<subseteq> set s \<and> set b \<subseteq> set s \<and> c \<notin> set a"
proof (cases "c \<in> set s")
  case True
  then obtain x y where "s = x @ c # y" "c \<notin> set x" by (meson split_list_first)
  with splitOff_at [of c x y] assms show ?thesis by auto
next
  case False
  with splitOff_none [of c s] assms show ?thesis by auto
qed

lemma split_dots:
  "CHR ''.'' \<notin> set a \<Longrightarrow> CHR ''.'' \<notin> set b \<Longrightarrow> split_n (CHR ''.'') 3 (a @ CHR ''.'' # b @ CHR ''.'' # c) = [a, b, c]"
  by (simp add: numeral_3_eq_3 break_at_append)

lemma show_int_nat: "0 \<le> i \<Longrightarrow> show_int i = show_nat (nat i)"
  by (simp add: show_int_def)

lemma NewVersion_String:
  assumes "wf_semver v"
  shows "NewVersion (semver_String v) = Inr v"
proof -
  let ?core = "show_int (Major v) @ CHR ''.'' # show_int (Minor v) @ CHR ''.'' # show_int (Patch v)"
  let ?pre = "if PreRelease v \<noteq> [] then CHR ''-'' # PreRelease v else []"
  have core: "CHR ''+'' \<notin> set ?core" "CHR ''-'' \<notin> set ?core"
    using assms show_nat_plain by (auto simp: wf_semver_def show_int_nat)
  have "CHR ''+'' \<notin> set (?core @ ?pre)" using core(1) assms by (auto simp: wf_semver_def)
  then have plus: "splitOff (CHR ''+'') (semver_String v) = (?core @ ?pre, Metadata v)"
    using splitOff_none [of "CHR ''+''" "?core @ ?pre"] splitOff_at [of "CHR ''+''" "?core @ ?pre" "Metadata v"]
    by (cases "Metadata v = []") (simp_all add: semver_String_def)
  have minus: "splitOff (CHR ''-'') (?core @ ?pre) = (?core, PreRelease v)"
    using splitOff_none [OF core(2)] splitOff_at [OF core(2), of "PreRelease v"] by (cases "PreRelease v = []") simp_all
  have dots: "split_n (CHR ''.'') 3 ?core = [show_int (Major v), show_int (Minor v), show_int (Patch v)]"
    using assms show_nat_plain(1) by (intro split_dots) (auto simp: wf_semver_def show_int_nat)
  have nums: "parse_parts [show_int (Major v), show_int (Minor v), show_int (Patch v)] = Inr [Major v, Minor v, Patch v]"
    using assms by (simp add: parse_show_int64 wf_semver_def)
  show ?thesis unfolding NewVersion_def plus Let_def prod.case minus dots nums by simp
qed

lemma parse_int64_unsigned:
  assumes "parse_int64 s = (n, None)" and "CHR ''-'' \<notin> set s"
  shows "0 \<le> n \<and> n < 2 ^ 63"
proof -
  have "\<not> (s \<noteq> [] \<and> hd s = CHR ''-'')" using assms(2) by (auto dest: hd_in_set)
  with assms(1) show ?thesis by (auto simp: parse_int64_def Let_def split: if_splits option.splits)
qed

lemma split_n_sets: "p \<in> set (split_n c n s) \<Longrightarrow> set p \<subseteq> set s"
proof (induction c n s arbitrary: p rule: split_n.induct)
  case (3 c n s)
  show ?case
  proof (cases "break_at c s")
    case (Some ab)
    obtain a b where "ab = (a, b)" by fastforce
    with Some 3 show ?thesis using break_at_Some [of c s a b] by fastforce
  qed (use 3 in simp)
qed simp_all

lemma parse_parts_unsigned:
  "parse_parts ps = Inr ns \<Longrightarrow> \<forall>p \<in> set ps. CHR ''-'' \<notin> set p \<Longrightarrow> length ns = length ps \<and> (\<forall>n \<in> set ns. 0 \<le> n \<and> n < 2 ^ 63)"
proof (induction ps arbitrary: ns)
  case Nil
  then show ?case by simp
next
  case (Cons p ps)
  from Cons.prems(1) obtain n ms where "parse_int64 p = (n, None)" "parse_parts ps = Inr ms" "ns = n # ms"
    by (auto split: prod.splits option.splits sum.splits)
  with Cons parse_int64_unsigned [of p n] show ?case by auto
qed

lemma NewVersion_wf:
  assumes "NewVersion s = Inr v"
  shows "wf_semver v"
proof -
  obtain s1 meta where plus: "splitOff (CHR ''+'') s = (s1, meta)" by fastforce
  obtain s2 pre where minus: "splitOff (CHR ''-'') s1 = (s2, pre)" by fastforce
  from assms plus minus obtain ns where ns: "parse_parts (split_n (CHR ''.'') 3 s2) = Inr ns" "length (split_n (CHR ''.'') 3 s2) = 3"
    "v = \<lparr>Major = ns ! 0, Minor = ns ! 1, Patch = ns ! 2, PreRelease = pre, Metadata = meta\<rparr>"
    by (auto simp: NewVersion_def Let_def split: if_splits sum.splits)
  have "CHR ''-'' \<notin> set s2" "CHR ''+'' \<notin> set pre" using splitOff_parts [OF plus] splitOff_parts [OF minus] by auto
  then have "\<forall>p \<in> set (split_n (CHR ''.'') 3 s2). CHR ''-'' \<notin> set p" using split_n_sets by blast
  from parse_parts_unsigned [OF ns(1) this] ns(2) have "\<And>i. i < 3 \<Longrightarrow> 0 \<le> ns ! i \<and> ns ! i < 2 ^ 63" by simp
  from this [of 0] this [of 1] this [of 2] \<open>CHR ''+'' \<notin> set pre\<close> ns(3) show ?thesis by (simp add: wf_semver_def)
qed

lemma semver_String_inject: "wf_semver v \<Longrightarrow> wf_semver w \<Longrightarrow> semver_String v = semver_String w \<longleftrightarrow> v = w"
  by (metis NewVersion_String sum.inject(2))

section \<open>The list as a set\<close>

definition released :: "semver \<Rightarrow> bool" where
  "released v \<longleftrightarrow> wf_semver v \<and> PreRelease v = []"

lemma LessThan_released:
  "released v \<Longrightarrow> released w \<Longrightarrow> semver_LessThan v w \<longleftrightarrow>
     Major v < Major w \<or> (Major v = Major w \<and> (Minor v < Minor w \<or> (Minor v = Minor w \<and> Patch v < Patch w)))"
  by (auto simp: semver_LessThan_def semver_Slice_def preReleaseCompare_def released_def Let_def Atoi_def parse_int64_def)

lemma strict_weak_released: "\<forall>v \<in> A. released v \<Longrightarrow> strict_weak_on A LargestFirst_Less"
proof -
  assume rel: "\<forall>v \<in> A. released v"
  have "\<not> semver_LessThan x y" if "semver_LessThan y x" "x \<in> A" "y \<in> A" for x y
    using that rel by (auto simp: LessThan_released)
  moreover have "\<not> semver_LessThan z x" if "\<not> semver_LessThan y x" "\<not> semver_LessThan z y" "x \<in> A" "y \<in> A" "z \<in> A" for x y z
    using that rel by (simp add: LessThan_released) linarith
  ultimately show ?thesis unfolding strict_weak_on_def LargestFirst_Less_def by blast
qed

text \<open>
  The invariant: no duplicates, released versions only, and in descending order. A run of
  operations, and what it means for the set of versions.
\<close>

definition versions_ok :: "VersionList \<Rightarrow> bool" where
  "versions_ok vl \<longleftrightarrow> distinct (members vl) \<and> (\<forall>v \<in> set (members vl). released v) \<and>
     sorted_wrt (\<lambda>x y. \<not> semver_LessThan x y) (members vl)"

datatype version_op = Add_Version semver | Remove_Version semver

fun op_version :: "version_op \<Rightarrow> semver" where
  "op_version (Add_Version v) = v"
| "op_version (Remove_Version v) = v"

fun run_op :: "semver sorter \<Rightarrow> version_op \<Rightarrow> VersionList \<Rightarrow> VersionList" where
  "run_op sort_Sort (Add_Version v) vl = VersionList_Add sort_Sort v vl"
| "run_op sort_Sort (Remove_Version v) vl = VersionList_Remove v vl"

fun set_op :: "version_op \<Rightarrow> semver set \<Rightarrow> semver set" where
  "set_op (Add_Version v) A = insert v A"
| "set_op (Remove_Version v) A = A - {v}"

lemma remove_first_filter:
  assumes "wf_semver v" and "\<forall>w \<in> set vs. wf_semver w" and "distinct vs"
  shows "remove_first (semver_String v) vs = filter (\<lambda>w. w \<noteq> v) vs"
  using assms
proof (induction vs)
  case Nil
  then show ?case by simp
next
  case (Cons w vs)
  show ?case
  proof (cases "w = v")
    case True
    then have "filter (\<lambda>x. x \<noteq> v) vs = vs" using Cons.prems(3) by (auto intro!: filter_True)
    with True show ?thesis by simp
  next
    case False
    then have "semver_String w \<noteq> semver_String v" using semver_String_inject Cons.prems(1,2) by simp
    with False Cons show ?thesis by simp
  qed
qed

locale version_sort = go_sort sort_Sort for sort_Sort :: "semver sorter"
begin

lemma Add_ok:
  assumes "versions_ok vl" and "released v"
  shows "versions_ok (VersionList_Add sort_Sort v vl) \<and> set (members (VersionList_Add sort_Sort v vl)) = insert v (set (members vl))"
proof (cases "v \<in> set (members vl)")
  case True
  with assms show ?thesis by (auto simp: VersionList_Add_def)
next
  case False
  let ?xs = "members vl @ [v]"
  have rel: "\<forall>w \<in> set ?xs. released w" using assms by (auto simp: versions_ok_def)
  have "sorted_wrt (\<lambda>x y. \<not> semver_LessThan x y) (sort_Sort LargestFirst_Less ?xs)"
    using sort_sorted [OF strict_weak_released [OF rel]] by (simp add: LargestFirst_Less_def)
  moreover have "distinct (sort_Sort LargestFirst_Less ?xs)" using sort_distinct False assms(1) by (simp add: versions_ok_def)
  ultimately show ?thesis using False rel by (simp add: VersionList_Add_def versions_ok_def sort_set)
qed

lemma Remove_ok:
  assumes "versions_ok vl" and "released v"
  shows "versions_ok (VersionList_Remove v vl) \<and> set (members (VersionList_Remove v vl)) = set (members vl) - {v}"
proof -
  have "remove_first (semver_String v) (members vl) = filter (\<lambda>w. w \<noteq> v) (members vl)"
    using assms by (intro remove_first_filter) (auto simp: versions_ok_def released_def)
  then show ?thesis using assms(1) by (auto simp: VersionList_Remove_def versions_ok_def sorted_wrt_filter)
qed

lemma runs_ok:
  "\<forall>p \<in> set ops. released (op_version p) \<Longrightarrow> versions_ok vl \<Longrightarrow>
   versions_ok (fold (run_op sort_Sort) ops vl) \<and> set (members (fold (run_op sort_Sort) ops vl)) = fold set_op ops (set (members vl))"
proof (induction ops arbitrary: vl)
  case Nil
  then show ?case by simp
next
  case (Cons p ops)
  have "versions_ok (run_op sort_Sort p vl) \<and> set (members (run_op sort_Sort p vl)) = set_op p (set (members vl))"
    using Cons.prems Add_ok Remove_ok by (cases p) auto
  with Cons show ?case by simp
qed

end

interpretation insertion_versions: version_sort insertionSort ..

lemma NewVersionList_ok: "versions_ok NewVersionList"
  by (simp add: versions_ok_def NewVersionList_def)

lemma Versions_members [simp]: "Versions vl = members vl"
  by (simp add: Versions_def map_nth)

lemma Largest_maximal:
  assumes "versions_ok vl"
  shows "case Largest vl of None \<Rightarrow> members vl = [] | Some v \<Rightarrow> v \<in> set (members vl) \<and> (\<forall>w \<in> set (members vl). \<not> semver_LessThan v w)"
  using assms by (cases "members vl") (auto simp: Largest_def versions_ok_def LessThan_released)

section \<open>Properties\<close>

text \<open>
  C34: a version survives printing and parsing. Every version that parsing gives has 64-bit
  numbers and prints to a text that parses to the same version; so does every version with
  such numbers and no plus sign in its pre-release.
\<close>

theorem version_roundtrip:
  "(\<forall>s v. NewVersion s = Inr v \<longrightarrow> wf_semver v) \<and> (\<forall>v. wf_semver v \<longrightarrow> NewVersion (semver_String v) = Inr v)"
  using NewVersion_wf NewVersion_String by blast

theorem version_roundtrip_witness:
  "NewVersion (semver_String \<lparr>Major = 1, Minor = 20, Patch = 3, PreRelease = ''rc.1'', Metadata = ''b+7''\<rparr>) =
   Inr \<lparr>Major = 1, Minor = 20, Patch = 3, PreRelease = ''rc.1'', Metadata = ''b+7''\<rparr>"
  using version_roundtrip by (simp add: wf_semver_def)


definition sample_version :: "int \<Rightarrow> int \<Rightarrow> string \<Rightarrow> semver" where
  "sample_version major minor pre = \<lparr>Major = major, Minor = minor, Patch = 0, PreRelease = pre, Metadata = []\<rparr>"


text \<open>
  With pre-releases the largest version can be missed. The comparison calls a pre-release
  neither less nor greater than its own extension, so it is no ordering: after three additions
  the list is not in descending order, and its \<^verbatim>\<open>Largest\<close> is less than another member.
\<close>

theorem prerelease_largest_missed:
  "let vl = fold (VersionList_Add insertionSort)
         [sample_version 1 0 ''rc.1'', sample_version 1 0 ''rc'', sample_version 1 0 ''rc.2''] NewVersionList
   in Largest vl = Some (sample_version 1 0 ''rc.1'') \<and> sample_version 1 0 ''rc.2'' \<in> set (Versions vl) \<and>
      semver_LessThan (sample_version 1 0 ''rc.1'') (sample_version 1 0 ''rc.2'')"
proof -
  let ?v = "\<lambda>pre. sample_version 1 0 pre"
  have nums: "Atoi ''rc'' = None" "Atoi ''1'' = Some 1" "Atoi ''2'' = Some 2"
    by (simp_all add: Atoi_def parse_int64_def digit_value_def)
  have lt: "\<not> semver_LessThan (?v ''rc.1'') (?v ''rc'')" "\<not> semver_LessThan (?v ''rc'') (?v ''rc.1'')"
    "\<not> semver_LessThan (?v ''rc'') (?v ''rc.2'')" "semver_LessThan (?v ''rc.1'') (?v ''rc.2'')"
    by (simp_all add: semver_LessThan_def semver_Slice_def preReleaseCompare_def sample_version_def nums)
  have ne: "?v ''rc'' \<noteq> ?v ''rc.1''" "?v ''rc.2'' \<noteq> ?v ''rc.1''" "?v ''rc.2'' \<noteq> ?v ''rc''" by (simp_all add: sample_version_def)
  show ?thesis
    using lt ne by (simp add: NewVersionList_def VersionList_Add_def insertionSort_def LargestFirst_Less_def Largest_def)
qed

end
