(* ===== verification/Bundle_Catalog.thy ===== *)
theory Bundle_Catalog
  imports Bundle_Config
begin

text \<open>
  The bundle catalog, \<^verbatim>\<open>relay/bundle/catalog.go\<close>: the bundles installed on the relay, an
  epoch that counts the changes to them, and the last epoch Cog has acknowledged. Every
  method holds the catalog's lock for its whole body, so each is one step. The catalog owns
  its bundles (\<^verbatim>\<open>updateCatalog\<close> stores fresh copies, one per name), so the map holds the
  bundles themselves and a store through a pointer obtained from it is an update of the map.
  The epochs are 64-bit and wrap around.
\<close>

section \<open>The model\<close>

record Catalog =
  lastAcked :: "64 word"
  epoch :: "64 word"
  bundles :: "string \<rightharpoonup> Bundle"

definition NewCatalog :: Catalog where
  "NewCatalog = \<lparr>lastAcked = 0, epoch = 0, bundles = Map.empty\<rparr>"

record diffResult =
  added :: "Bundle list"
  removed :: "string list"

definition newDiffResult :: diffResult where
  "newDiffResult = \<lparr>added = [], removed = []\<rparr>"

fun findByName :: "string \<Rightarrow> Bundle list \<Rightarrow> Bundle option" where
  "findByName name [] = None"
| "findByName name (bundle # bs) = (if Name bundle = name then Some bundle else findByName name bs)"

text \<open>The two loops of \<^verbatim>\<open>diff\<close>: over the catalog, in the order \<open>ks\<close>, and over the update.\<close>

fun diff_existing :: "(string \<rightharpoonup> Bundle) \<Rightarrow> Bundle list \<Rightarrow> string list \<Rightarrow> diffResult \<Rightarrow> diffResult" where
  "diff_existing m bs [] result = result"
| "diff_existing m bs (name # ks) result =
     diff_existing m bs ks
       (case m name of
          None \<Rightarrow> result
        | Some bundle \<Rightarrow>
            (case findByName name bs of
               None \<Rightarrow> result\<lparr>removed := removed result @ [name]\<rparr>
             | Some b \<Rightarrow>
                 if Version b \<noteq> Version bundle
                 then result\<lparr>added := added result @ [b], removed := removed result @ [name]\<rparr>
                 else result))"

fun diff_new :: "(string \<rightharpoonup> Bundle) \<Rightarrow> Bundle list \<Rightarrow> diffResult \<Rightarrow> diffResult" where
  "diff_new m [] result = result"
| "diff_new m (b # bs) result =
     diff_new m bs (if m (Name b) = None then result\<lparr>added := added result @ [b]\<rparr> else result)"

definition diff :: "Catalog \<Rightarrow> string list \<Rightarrow> Bundle list \<Rightarrow> diffResult" where
  "diff bc ks bs = diff_new (bundles bc) bs (diff_existing (bundles bc) bs ks newDiffResult)"

text \<open>The two loops of \<^verbatim>\<open>Replace\<close>, with the flag they set.\<close>

fun replace_removed :: "string list \<Rightarrow> (string \<rightharpoonup> Bundle) \<times> bool \<Rightarrow> (string \<rightharpoonup> Bundle) \<times> bool" where
  "replace_removed [] (m, dirty) = (m, dirty)"
| "replace_removed (name # names) (m, dirty) =
     (let before = map_len m; m' = map_delete name m; after = map_len m'
      in replace_removed names (m', if \<not> dirty \<and> before \<noteq> after then True else dirty))"

fun replace_added :: "Bundle list \<Rightarrow> (string \<rightharpoonup> Bundle) \<times> bool \<Rightarrow> (string \<rightharpoonup> Bundle) \<times> bool" where
  "replace_added [] (m, dirty) = (m, dirty)"
| "replace_added (newBundle # bs) (m, dirty) =
     replace_added bs (m(Name newBundle \<mapsto> newBundle), if \<not> dirty then True else dirty)"

definition Replace :: "string list \<Rightarrow> Bundle list \<Rightarrow> Catalog \<Rightarrow> Catalog \<times> bool" where
  "Replace ks bs bc =
     (let result = diff bc ks bs;
          (m, dirty) = replace_added (added result) (replace_removed (removed result) (bundles bc, False))
      in (bc\<lparr>bundles := m, epoch := (if dirty then epoch bc + 1 else epoch bc)\<rparr>, dirty))"

definition Len :: "Catalog \<Rightarrow> nat" where
  "Len bc = map_len (bundles bc)"

definition Count :: "Catalog \<Rightarrow> nat" where
  "Count bc = map_len (bundles bc)"

text \<open>\<^verbatim>\<open>BundleNames\<close> collects the keys in the order \<open>ks\<close> in which it ranges over the map.\<close>

fun BundleNames :: "string list \<Rightarrow> Catalog \<Rightarrow> string list" where
  "BundleNames [] bc = []"
| "BundleNames (k # ks) bc =
     (if bundles bc k = None then BundleNames ks bc else k # BundleNames ks bc)"

definition Remove :: "string \<Rightarrow> Catalog \<Rightarrow> Catalog" where
  "Remove name bc =
     (if bundles bc name \<noteq> None
      then bc\<lparr>bundles := map_delete name (bundles bc), epoch := epoch bc + 1\<rparr> else bc)"

definition Find :: "string \<Rightarrow> Catalog \<Rightarrow> Bundle option" where
  "Find name bc = bundles bc name"

definition IsChanged :: "Catalog \<Rightarrow> bool" where
  "IsChanged bc = (lastAcked bc < epoch bc)"

definition CurrentEpoch :: "Catalog \<Rightarrow> 64 word" where
  "CurrentEpoch bc = epoch bc"

definition EpochAcked :: "64 word \<Rightarrow> Catalog \<Rightarrow> Catalog" where
  "EpochAcked acked bc = (if acked > epoch bc then bc else bc\<lparr>lastAcked := acked\<rparr>)"

definition MarkReady :: "string \<Rightarrow> Catalog \<Rightarrow> Catalog" where
  "MarkReady name bc =
     (case bundles bc name of
        None \<Rightarrow> bc
      | Some bundle \<Rightarrow> bc\<lparr>bundles := (bundles bc)(name \<mapsto> SetAvailable True bundle)\<rparr>)"

definition Reconnected :: "Catalog \<Rightarrow> Catalog" where
  "Reconnected bc = bc\<lparr>epoch := epoch bc + 1\<rparr>"

text \<open>
  \<^verbatim>\<open>Find\<close> returns a pointer into the catalog: setting the availability of what it returns
  changes the catalog's own entry.
\<close>

definition set_available :: "string \<Rightarrow> bool \<Rightarrow> Catalog \<Rightarrow> Catalog" where
  "set_available name avail bc =
     (case Find name bc of
        None \<Rightarrow> bc
      | Some b \<Rightarrow> bc\<lparr>bundles := (bundles bc)(name \<mapsto> SetAvailable avail b)\<rparr>)"

section \<open>The specification\<close>

text \<open>
  What the catalog promises is which version of which bundle is installed. A snapshot sent by
  Cog assigns versions to names; \<open>versions_of\<close> reads the assignment off a snapshot and
  \<open>installed\<close> off a catalog.
\<close>

definition installed :: "Catalog \<Rightarrow> (string \<rightharpoonup> string)" where
  "installed bc = map_option Version \<circ> bundles bc"

definition versions_of :: "Bundle list \<Rightarrow> (string \<rightharpoonup> string)" where
  "versions_of bs = map_option Version \<circ> (\<lambda>n. findByName n bs)"

definition catalog_ok :: "Catalog \<Rightarrow> bool" where
  "catalog_ok bc \<longleftrightarrow>
     finite (dom (bundles bc)) \<and> (\<forall>n b. bundles bc n = Some b \<longrightarrow> Name b = n)"

text \<open>
  The operations as steps, \<open>catalog_op\<close>, and the catalogs that a new catalog can have become
  after \<open>n\<close> of them.
\<close>

inductive catalog_op :: "Catalog \<Rightarrow> Catalog \<Rightarrow> bool" where
  op_replace: "range_order (bundles bc) ks \<Longrightarrow> catalog_op bc (fst (Replace ks bs bc))"
| op_remove: "catalog_op bc (Remove name bc)"
| op_acked: "catalog_op bc (EpochAcked e bc)"
| op_ready: "catalog_op bc (MarkReady name bc)"
| op_reconnected: "catalog_op bc (Reconnected bc)"
| op_available: "catalog_op bc (set_available name avail bc)"

inductive catalog_after :: "nat \<Rightarrow> Catalog \<Rightarrow> bool" where
  after_new: "catalog_after 0 NewCatalog"
| after_op: "catalog_after n bc \<Longrightarrow> catalog_op bc bc' \<Longrightarrow> catalog_after (Suc n) bc'"

inductive_simps catalog_after_Suc: "catalog_after (Suc n) bc'"

section \<open>Looking a bundle up in a snapshot\<close>

lemma findByName_find: "findByName n bs = find (\<lambda>b. Name b = n) bs"
  by (induction bs) auto

lemma findByName_SomeD: "findByName n bs = Some b \<Longrightarrow> b \<in> set bs \<and> Name b = n"
  by (induction bs) (auto split: if_splits)

lemma findByName_None_iff: "findByName n bs = None \<longleftrightarrow> n \<notin> Name ` set bs"
  by (induction bs) auto

lemma findByName_Some_name: "findByName n bs = Some b \<Longrightarrow> n \<in> Name ` set bs"
  by (metis findByName_None_iff option.distinct(1))

lemma findByName_rev:
  "distinct (map Name bs) \<Longrightarrow> findByName n (rev bs) = findByName n bs"
  by (simp add: findByName_find find_rev_distinct)

section \<open>What the difference contains\<close>

definition stale :: "(string \<rightharpoonup> Bundle) \<Rightarrow> Bundle list \<Rightarrow> string \<Rightarrow> bool" where
  "stale m bs n \<longleftrightarrow> (\<exists>old. m n = Some old \<and> (\<forall>b. findByName n bs = Some b \<longrightarrow> Version b \<noteq> Version old))"

lemma diff_existing_eq:
  "set ks \<subseteq> dom m \<Longrightarrow>
   diff_existing m bs ks r =
     r\<lparr>added := added r @ List.map_filter (\<lambda>n. findByName n bs) (filter (stale m bs) ks),
       removed := removed r @ filter (stale m bs) ks\<rparr>"
proof (induction ks arbitrary: r)
  case Nil
  then show ?case by (simp add: List.map_filter_def)
next
  case (Cons k ks)
  then obtain old where "m k = Some old" by auto
  with Cons show ?case
    by (cases "findByName k bs") (auto simp: stale_def List.map_filter_def)
qed

lemma diff_new_eq:
  "diff_new m bs r = r\<lparr>added := added r @ filter (\<lambda>b. m (Name b) = None) bs\<rparr>"
  by (induction bs arbitrary: r) auto

lemma diff_eq:
  assumes "range_order (bundles bc) ks"
  shows "added (diff bc ks bs) =
           List.map_filter (\<lambda>n. findByName n bs) (filter (stale (bundles bc) bs) ks)
           @ filter (\<lambda>b. bundles bc (Name b) = None) bs"
    and "removed (diff bc ks bs) = filter (stale (bundles bc) bs) ks"
  using range_order_set [OF assms]
  by (simp_all add: diff_def diff_new_eq diff_existing_eq newDiffResult_def)

section \<open>What Replace does\<close>

lemma replace_removed_eq:
  "finite (dom m) \<Longrightarrow>
   replace_removed ns (m, d) = (fold map_delete ns m, d \<or> (\<exists>n \<in> set ns. n \<in> dom m))"
proof (induction ns arbitrary: m d)
  case Nil
  then show ?case by simp
next
  case (Cons n ns)
  have "finite (dom (map_delete n m))" using Cons.prems by simp
  then have "replace_removed (n # ns) (m, d) =
      (fold map_delete ns (map_delete n m), (d \<or> n \<in> dom m) \<or> (\<exists>k \<in> set ns. k \<in> dom (map_delete n m)))"
    by (simp only: replace_removed.simps Let_def map_len_delete_neq [OF Cons.prems] Cons.IH) auto
  then show ?case by (auto simp del: replace_removed.simps fun_upd_apply)
qed

lemma replace_added_eq:
  "replace_added bs (m, d) = (fold (\<lambda>b m. m(Name b \<mapsto> b)) bs m, d \<or> bs \<noteq> [])"
  by (induction bs arbitrary: m d) auto

lemma Replace_fst:
  assumes "range_order (bundles bc) ks"
  shows "bundles (fst (Replace ks bs bc)) =
     fold (\<lambda>b m. m(Name b \<mapsto> b)) (added (diff bc ks bs))
       (fold map_delete (removed (diff bc ks bs)) (bundles bc))"
  using range_order_finite [OF assms]
  by (simp add: Replace_def replace_removed_eq replace_added_eq split_beta Let_def)

lemma Replace_snd:
  assumes "range_order (bundles bc) ks"
  shows "snd (Replace ks bs bc) \<longleftrightarrow> removed (diff bc ks bs) \<noteq> [] \<or> added (diff bc ks bs) \<noteq> []"
proof -
  have "set (removed (diff bc ks bs)) \<subseteq> dom (bundles bc)"
    using range_order_set [OF assms] by (auto simp: diff_eq [OF assms])
  then have "(\<exists>n \<in> set (removed (diff bc ks bs)). n \<in> dom (bundles bc)) \<longleftrightarrow> removed (diff bc ks bs) \<noteq> []"
    by (cases "removed (diff bc ks bs)") auto
  with range_order_finite [OF assms] show ?thesis
    by (simp add: Replace_def replace_removed_eq replace_added_eq split_beta Let_def)
qed

lemma Replace_frame [simp]:
  "lastAcked (fst (Replace ks bs bc)) = lastAcked bc"
  "epoch (fst (Replace ks bs bc)) = (if snd (Replace ks bs bc) then epoch bc + 1 else epoch bc)"
  by (simp_all add: Replace_def split_beta Let_def)

lemma find_stale_added:
  assumes "distinct ks"
  shows "find (\<lambda>b. Name b = n) (rev (List.map_filter (\<lambda>k. findByName k bs) (filter P ks))) =
           (if n \<in> set ks \<and> P n then findByName n bs else None)"
  using assms
proof (induction ks)
  case Nil
  then show ?case by (simp add: List.map_filter_def)
next
  case (Cons k ks)
  then have "n = k \<Longrightarrow> find (\<lambda>b. Name b = n) (rev (List.map_filter (\<lambda>k. findByName k bs) (filter P ks))) = None"
    by auto
  with Cons show ?case
    by (auto simp: List.map_filter_def find_append dest: findByName_SomeD split: option.splits)
qed

lemma find_filter_key:
  "find (\<lambda>b. f b = k) (filter (\<lambda>b. P (f b)) xs) = (if P k then find (\<lambda>b. f b = k) xs else None)"
  by (induction xs) auto

lemma Replace_bundles:
  assumes ord: "range_order (bundles bc) ks"
  shows "bundles (fst (Replace ks bs bc)) n =
     (case bundles bc n of
        None \<Rightarrow> findByName n (rev bs)
      | Some old \<Rightarrow>
          (case findByName n bs of
             None \<Rightarrow> None
           | Some b \<Rightarrow> if Version b = Version old then Some old else Some b))"
proof -
  have new: "find (\<lambda>b. Name b = n) (rev (filter (\<lambda>b. bundles bc (Name b) = None) bs)) =
      (if bundles bc n = None then findByName n (rev bs) else None)"
    by (simp add: findByName_find rev_filter find_filter_key [where P = "\<lambda>k. bundles bc k = None"])
  have "n \<in> set ks \<longleftrightarrow> bundles bc n \<noteq> None"
    using range_order_set [OF ord] by auto
  then show ?thesis
    unfolding Replace_fst [OF ord] fold_store_apply diff_eq [OF ord] rev_append find_append new
      find_stale_added [OF range_order_distinct [OF ord]]
    by (auto simp: fold_delete_apply stale_def split: option.splits)
qed

lemma Replace_versions:
  assumes "range_order (bundles bc) ks" and "distinct (map Name bs)"
  shows "installed (fst (Replace ks bs bc)) n = versions_of bs n"
  using findByName_rev [OF assms(2)]
  by (auto simp: installed_def versions_of_def Replace_bundles [OF assms(1)] split: option.splits)

lemma Replace_clean:
  assumes "range_order (bundles bc) ks" and "\<not> snd (Replace ks bs bc)"
  shows "fst (Replace ks bs bc) = bc"
proof -
  have "bundles (fst (Replace ks bs bc)) = bundles bc"
    using assms(2) unfolding Replace_snd [OF assms(1)] Replace_fst [OF assms(1)] by simp
  then show ?thesis using assms(2) by (simp add: Catalog.equality)
qed

lemma Replace_dirty:
  assumes ord: "range_order (bundles bc) ks"
  shows "snd (Replace ks bs bc) \<longleftrightarrow> installed (fst (Replace ks bs bc)) \<noteq> installed bc"
proof
  assume "snd (Replace ks bs bc)"
  then consider n where "n \<in> set ks" "stale (bundles bc) bs n"
    | b where "b \<in> set bs" "bundles bc (Name b) = None"
    unfolding Replace_snd [OF ord] diff_eq [OF ord]
    by (auto simp: filter_empty_conv List.map_filter_def)
  then show "installed (fst (Replace ks bs bc)) \<noteq> installed bc"
  proof cases
    case 1
    then have "installed (fst (Replace ks bs bc)) n \<noteq> installed bc n"
      by (auto simp: installed_def stale_def Replace_bundles [OF ord] split: option.splits)
    then show ?thesis by metis
  next
    case 2
    then have "findByName (Name b) (rev bs) \<noteq> None" by (auto simp: findByName_None_iff)
    with 2 have "installed (fst (Replace ks bs bc)) (Name b) \<noteq> installed bc (Name b)"
      by (auto simp: installed_def Replace_bundles [OF ord])
    then show ?thesis by metis
  qed
next
  assume "installed (fst (Replace ks bs bc)) \<noteq> installed bc"
  then show "snd (Replace ks bs bc)" using Replace_clean [OF ord] by auto
qed

section \<open>The epoch interface\<close>

text \<open>
  What the announcer relies on: a current epoch, a test whether anything is unacknowledged,
  and an acknowledgement, which may name any epoch up to the current one and is ignored beyond
  it.
\<close>

locale epoch_tracker =
  fixes current :: "'c \<Rightarrow> 64 word"
    and changed :: "'c \<Rightarrow> bool"
    and ack :: "64 word \<Rightarrow> 'c \<Rightarrow> 'c"
  assumes current_ack: "current (ack e c) = current c"
    and changed_ack: "e \<le> current c \<Longrightarrow> changed (ack e c) \<longleftrightarrow> e < current c"
    and ack_future: "current c < e \<Longrightarrow> ack e c = c"
begin

lemma ack_current: "\<not> changed (ack (current c) c)"
  by (simp add: changed_ack)

lemma ack_stale: "e < current c \<Longrightarrow> changed (ack e c)"
  by (simp add: changed_ack)

lemma ack_unchanged_iff: "e \<le> current c \<Longrightarrow> \<not> changed (ack e c) \<longleftrightarrow> e = current c"
  by (auto simp: changed_ack)

end

interpretation catalog_epochs: epoch_tracker CurrentEpoch IsChanged EpochAcked
  by unfold_locales (auto simp: CurrentEpoch_def IsChanged_def EpochAcked_def)

section \<open>The invariants\<close>

lemma NewCatalog_ok: "catalog_ok NewCatalog"
  by (simp add: catalog_ok_def NewCatalog_def)

lemma catalog_ok_order: "catalog_ok bc \<Longrightarrow> \<exists>ks. range_order (bundles bc) ks"
  by (simp add: catalog_ok_def range_order_exists)

lemma Replace_ok:
  assumes "catalog_ok bc" and ord: "range_order (bundles bc) ks"
  shows "catalog_ok (fst (Replace ks bs bc))"
proof -
  have "dom (bundles (fst (Replace ks bs bc))) \<subseteq> dom (bundles bc) \<union> Name ` set bs"
    by (auto simp: Replace_bundles [OF ord] dest!: findByName_Some_name split: option.splits if_splits)
  then have "finite (dom (bundles (fst (Replace ks bs bc))))"
    using range_order_finite [OF ord] by (simp add: finite_subset)
  then show ?thesis using assms(1)
    by (auto simp: catalog_ok_def Replace_bundles [OF ord]
      dest: findByName_SomeD split: option.splits if_splits)
qed

lemma other_ops_ok:
  assumes "catalog_ok bc"
  shows "catalog_ok (Remove name bc)" "catalog_ok (EpochAcked e bc)"
    "catalog_ok (MarkReady name bc)" "catalog_ok (Reconnected bc)" "catalog_ok (set_available name avail bc)"
  using assms
  by (auto simp: catalog_ok_def Remove_def EpochAcked_def MarkReady_def Reconnected_def set_available_def Find_def
    bundle_simps split: option.splits)

interpretation catalog_sys: invariant_system "\<lambda>bc. bc = NewCatalog" catalog_op catalog_ok
proof unfold_locales
  fix bc bc'
  assume ok: "catalog_ok bc" and "catalog_op bc bc'"
  from this(2) ok show "catalog_ok bc'"
    by (induction rule: catalog_op.induct) (auto intro: Replace_ok other_ops_ok)
qed (simp add: NewCatalog_ok)

text \<open>One operation moves the epoch by at most one and acknowledges no later one.\<close>

lemma catalog_op_epoch:
  "catalog_op bc bc' \<Longrightarrow> epoch bc' = epoch bc \<or> epoch bc' = epoch bc + 1"
  by (induction rule: catalog_op.induct)
    (auto simp: Remove_def EpochAcked_def MarkReady_def Reconnected_def set_available_def split: option.splits)

lemma catalog_op_acked:
  "catalog_op bc bc' \<Longrightarrow> lastAcked bc' = lastAcked bc \<or> lastAcked bc' \<le> epoch bc' "
  by (induction rule: catalog_op.induct)
    (auto simp: Remove_def EpochAcked_def MarkReady_def Reconnected_def set_available_def split: option.splits)

lemma catalog_after_epoch:
  "catalog_after n bc \<Longrightarrow> n < 2 ^ 64 \<Longrightarrow> unat (epoch bc) \<le> n \<and> lastAcked bc \<le> epoch bc"
proof (induction rule: catalog_after.induct)
  case after_new
  then show ?case by (simp add: NewCatalog_def)
next
  case (after_op n bc bc')
  then have IH: "unat (epoch bc) \<le> n" "lastAcked bc \<le> epoch bc" by simp_all
  from IH(1) after_op.prems have "unat (epoch bc + 1) = unat (epoch bc) + 1"
    by (simp add: unat_word_ariths)
  with IH catalog_op_epoch [OF after_op.hyps(2)] have "unat (epoch bc') \<le> Suc n" "epoch bc \<le> epoch bc'"
    by (auto simp: word_le_nat_alt)
  with IH(2) catalog_op_acked [OF after_op.hyps(2)] show ?case by auto
qed

section \<open>Properties\<close>

definition sample_bundle :: "string \<Rightarrow> string \<Rightarrow> Bundle" where
  "sample_bundle name version =
     \<lparr>BundleVersion = 2, Name = name, Version = version, Permissions = [], Docker = None,
      Commands = Map.empty, Templates = Map.empty, available = False\<rparr>"

definition sample_catalog :: Catalog where
  "sample_catalog =
     \<lparr>lastAcked = 0, epoch = 1,
      bundles = [''foo'' \<mapsto> (sample_bundle ''foo'' ''1.2.0'')\<lparr>available := True\<rparr>,
                 ''bar'' \<mapsto> sample_bundle ''bar'' ''1.0.0'']\<rparr>"

lemma sample_catalog_order: "range_order (bundles sample_catalog) [''foo'', ''bar'']"
  by (auto simp: sample_catalog_def range_order_def)

text \<open>
  C7: replacing the catalog installs the snapshot. When the snapshot names each bundle at most
  once, after \<^verbatim>\<open>Replace\<close> exactly the bundles of the snapshot are installed, in exactly its
  versions, whatever order the catalog's map is iterated in.
\<close>

theorem Replace_installs_snapshot:
  assumes "range_order (bundles bc) ks" and "distinct (map Name bs)"
  shows "installed (fst (Replace ks bs bc)) = versions_of bs"
  using Replace_versions [OF assms] by (rule ext)

theorem Replace_installs_snapshot_witness:
  "installed (fst (Replace [''foo'', ''bar''] [sample_bundle ''foo'' ''1.2.1''] sample_catalog)) =
     versions_of [sample_bundle ''foo'' ''1.2.1'']"
  by (rule Replace_installs_snapshot [OF sample_catalog_order]) simp

text \<open>
  \<^verbatim>\<open>Replace\<close> reports a change exactly when the set of installed versions changed, and
  the epoch is incremented in exactly that case; the last acknowledged epoch is kept.
\<close>

theorem Replace_reports_change:
  assumes "range_order (bundles bc) ks"
  shows "snd (Replace ks bs bc) = (installed (fst (Replace ks bs bc)) \<noteq> installed bc) \<and>
    epoch (fst (Replace ks bs bc)) =
      (if installed (fst (Replace ks bs bc)) \<noteq> installed bc then epoch bc + 1 else epoch bc) \<and>
    lastAcked (fst (Replace ks bs bc)) = lastAcked bc"
  using Replace_dirty [OF assms] by simp

theorem Replace_reports_change_witness:
  "snd (Replace [''foo'', ''bar''] [] sample_catalog) =
     (installed (fst (Replace [''foo'', ''bar''] [] sample_catalog)) \<noteq> installed sample_catalog) \<and>
   epoch (fst (Replace [''foo'', ''bar''] [] sample_catalog)) =
     (if installed (fst (Replace [''foo'', ''bar''] [] sample_catalog)) \<noteq> installed sample_catalog
      then epoch sample_catalog + 1 else epoch sample_catalog) \<and>
   lastAcked (fst (Replace [''foo'', ''bar''] [] sample_catalog)) = lastAcked sample_catalog"
  by (rule Replace_reports_change [OF sample_catalog_order])

text \<open>
  An installed bundle whose version the snapshot confirms is kept as it is, with its
  availability; one with another version in the snapshot is replaced by the snapshot's entry;
  one the snapshot does not name is dropped; and a new name gets the snapshot's last entry of
  that name.
\<close>

theorem Replace_each_bundle:
  assumes "range_order (bundles bc) ks"
  shows "Find n (fst (Replace ks bs bc)) =
     (case Find n bc of
        None \<Rightarrow> findByName n (rev bs)
      | Some old \<Rightarrow>
          (case findByName n bs of
             None \<Rightarrow> None
           | Some b \<Rightarrow> if Version b = Version old then Some old else Some b))"
  using Replace_bundles [OF assms] by (simp add: Find_def)

theorem Replace_each_bundle_witness:
  "Find ''foo'' (fst (Replace [''foo'', ''bar''] [sample_bundle ''foo'' ''1.2.0''] sample_catalog)) =
     Some ((sample_bundle ''foo'' ''1.2.0'')\<lparr>available := True\<rparr>)"
  by (subst Replace_each_bundle [OF sample_catalog_order])
    (simp add: Find_def sample_catalog_def sample_bundle_def)

text \<open>
  The result of \<^verbatim>\<open>Replace\<close> does not depend on the order in which Go iterates over the
  catalog's map.
\<close>

theorem Replace_order_independent:
  assumes "range_order (bundles bc) ks" and "range_order (bundles bc) ks'"
  shows "Replace ks bs bc = Replace ks' bs bc"
proof -
  have "bundles (fst (Replace ks bs bc)) = bundles (fst (Replace ks' bs bc))"
    by (rule ext) (simp add: Replace_bundles [OF assms(1)] Replace_bundles [OF assms(2)])
  moreover from this have "snd (Replace ks bs bc) = snd (Replace ks' bs bc)"
    using Replace_dirty [OF assms(1)] Replace_dirty [OF assms(2)] by (simp add: installed_def)
  ultimately show ?thesis by (intro prod_eqI) (auto simp: Catalog.equality)
qed

theorem Replace_order_independent_witness:
  "Replace [''foo'', ''bar''] [sample_bundle ''baz'' ''0.1.0''] sample_catalog =
   Replace [''bar'', ''foo''] [sample_bundle ''baz'' ''0.1.0''] sample_catalog"
  by (rule Replace_order_independent [OF sample_catalog_order])
    (auto simp: sample_catalog_def range_order_def)

text \<open>
  C23: in every catalog that fewer than \<open>2^64\<close> operations have produced, the map is finite, each
  bundle is stored under its own name, the epoch is at most the number of operations, and the
  last acknowledged epoch is not ahead of the epoch.
\<close>

theorem catalog_invariant:
  assumes "catalog_after n bc" and "n < 2 ^ 64"
  shows "catalog_ok bc \<and> unat (epoch bc) \<le> n \<and> lastAcked bc \<le> epoch bc"
proof -
  from assms(1) have "reachable (\<lambda>bc. bc = NewCatalog) catalog_op bc"
    by (induction rule: catalog_after.induct) (auto intro: reachable.intros)
  then show ?thesis using catalog_sys.reachable_inv catalog_after_epoch [OF assms] by blast
qed

theorem catalog_invariant_witness:
  "catalog_ok (Reconnected NewCatalog) \<and> unat (epoch (Reconnected NewCatalog)) \<le> 1 \<and>
   lastAcked (Reconnected NewCatalog) \<le> epoch (Reconnected NewCatalog)"
  using catalog_invariant [OF after_op [OF after_new op_reconnected]] by simp

text \<open>
  A snapshot that names a bundle twice makes \<^verbatim>\<open>Replace\<close> unstable. On a catalog without the
  bundle the last entry is installed, on the catalog so produced the first one is: the second,
  identical update reports a change and installs another version.
\<close>

theorem Replace_duplicates_unstable:
  "let bs = [sample_bundle ''foo'' ''1.2.0'', sample_bundle ''foo'' ''1.2.1''];
       bc1 = fst (Replace [] bs NewCatalog);
       (bc2, dirty) = Replace [''foo''] bs bc1
   in installed bc1 ''foo'' = Some ''1.2.1'' \<and> dirty \<and> installed bc2 ''foo'' = Some ''1.2.0''"
proof -
  let ?bs = "[sample_bundle ''foo'' ''1.2.0'', sample_bundle ''foo'' ''1.2.1'']"
  let ?bc1 = "fst (Replace [] ?bs NewCatalog)"
  have b1: "bundles ?bc1 = [''foo'' \<mapsto> sample_bundle ''foo'' ''1.2.1'']"
    by (rule ext) (simp add: Replace_bundles range_order_def NewCatalog_def sample_bundle_def)
  then have ord: "range_order (bundles ?bc1) [''foo'']" by (simp add: range_order_def)
  have i2: "installed (fst (Replace [''foo''] ?bs ?bc1)) ''foo'' = Some ''1.2.0''"
    by (simp add: installed_def Replace_bundles [OF ord] b1, simp add: sample_bundle_def)
  moreover have i1: "installed ?bc1 ''foo'' = Some ''1.2.1''"
    by (simp add: installed_def b1, simp add: sample_bundle_def)
  moreover have "snd (Replace [''foo''] ?bs ?bc1)"
    using i1 i2 by (auto simp: Replace_dirty [OF ord])
  ultimately show ?thesis by (simp add: Let_def split_beta)
qed

end
