(* ===== verification/Announcer.thy ===== *)
theory Announcer
  imports Bundle_Catalog Directives
begin

text \<open>
  The bundle announcer, \<^verbatim>\<open>relay/announcer.go\<close>: a goroutine that takes commands from a
  channel of capacity two, publishes the list of available bundles to Cog, waits for a receipt
  and publishes again every five seconds until the receipt arrives. Four kinds of goroutine
  run this code: the loop, the subscription handler that calls \<^verbatim>\<open>cogReceipt\<close>, the callbacks
  of the retry timer, and the relay's goroutines that send commands and change the catalog.
  The sections under \<^verbatim>\<open>stateLock\<close> are the atomic steps; where the code releases the lock
  (between the loop's test and its send, around the sleep after a failed publish, and before
  the timer is created) another goroutine may step.
\<close>

section \<open>The model\<close>

datatype relayAnnouncerCommand = AnnounceCommand | StopCommand

datatype relayAnnouncerState = StoppedState | WaitingState | ReceiptWaitingState

text \<open>
  Where the loop goroutine is: at the test of its \<^verbatim>\<open>for\<close>, at the channel receive, about to
  call \<^verbatim>\<open>sendAnnouncement(true)\<close>, asleep after a failed publish, about to create the retry
  timer, or finished. A timer callback is about to call \<^verbatim>\<open>sendAnnouncement(false)\<close> or asleep
  after a failed publish. A sleeping sender holds the announcement it prepared.
\<close>

datatype sender = SendLock | SendSleep Announcement

datatype loop_pc = LoopTest | LoopReceive | LoopSend sender | LoopArm | LoopExited

text \<open>
  Timers are numbered in the order of their creation. \<open>armedTimers\<close> are the ones that will
  fire; \<open>announceTimer\<close> is the field of the struct, nil before the first announcement.
\<close>

record relayAnnouncer =
  ra_id :: string
  receiptTopic :: string
  catalog :: Catalog
  state :: relayAnnouncerState
  control :: "relayAnnouncerCommand list"
  receiptFor :: string
  announceTimer :: "nat option"
  announcementPending :: bool
  armedTimers :: "nat set"
  nextTimer :: nat
  loopPC :: loop_pc
  callbacks :: "sender list"
  published :: "Announcement list"

definition NewAnnouncer :: "string \<Rightarrow> Catalog \<Rightarrow> relayAnnouncer" where
  "NewAnnouncer relayID bc =
     \<lparr>ra_id = relayID, receiptTopic = ''bot/relays/'' @ relayID @ ''/announcer'', catalog = bc,
      state = StoppedState, control = [], receiptFor = [], announceTimer = None,
      announcementPending = False, armedTimers = {}, nextTimer = 0, loopPC = LoopExited,
      callbacks = [], published = []\<rparr>"

text \<open>\<^verbatim>\<open>Run\<close>: subscribe to the receipts, then start the loop. \<open>subscribe\<close> is the bus.\<close>

definition SetSubscriptions :: "(string \<Rightarrow> error option) \<Rightarrow> relayAnnouncer \<Rightarrow> error option" where
  "SetSubscriptions subscribe ra = subscribe (receiptTopic ra)"

definition Run :: "(string \<Rightarrow> error option) \<Rightarrow> relayAnnouncer \<Rightarrow> error + relayAnnouncer" where
  "Run subscribe ra =
     (case SetSubscriptions subscribe ra of
        Some e \<Rightarrow> Inl e
      | None \<Rightarrow> Inr (ra\<lparr>state := WaitingState, loopPC := LoopTest\<rparr>))"

text \<open>A send on the control channel blocks while the channel holds two commands.\<close>

definition send_control :: "relayAnnouncerCommand \<Rightarrow> relayAnnouncer \<Rightarrow> relayAnnouncer option" where
  "send_control cmd ra =
     (if length (control ra) < 2 then Some (ra\<lparr>control := control ra @ [cmd]\<rparr>) else None)"

definition SendAnnouncement :: "relayAnnouncer \<Rightarrow> relayAnnouncer option" where
  "SendAnnouncement = send_control AnnounceCommand"

definition Halt :: "relayAnnouncer \<Rightarrow> relayAnnouncer option" where
  "Halt = send_control StopCommand"

text \<open>\<^verbatim>\<open>Timer.Stop\<close> and \<^verbatim>\<open>Timer.Reset\<close> through the field: on a nil timer they panic.\<close>

definition timer_stop :: "relayAnnouncer \<Rightarrow> relayAnnouncer go_result" where
  "timer_stop ra =
     (case announceTimer ra of
        None \<Rightarrow> Panic ''nil timer''
      | Some t \<Rightarrow> Ret (ra\<lparr>armedTimers := armedTimers ra - {t}\<rparr>))"

definition timer_reset :: "relayAnnouncer \<Rightarrow> relayAnnouncer go_result" where
  "timer_reset ra =
     (case announceTimer ra of
        None \<Rightarrow> Panic ''nil timer''
      | Some t \<Rightarrow> Ret (ra\<lparr>armedTimers := insert t (armedTimers ra)\<rparr>))"

definition cogReceipt :: "(string \<Rightarrow> error + AnnouncementReceipt) \<Rightarrow> string \<Rightarrow> relayAnnouncer \<Rightarrow> relayAnnouncer go_result" where
  "cogReceipt unmarshal payload ra =
     (case unmarshal payload of
        Inl _ \<Rightarrow> Ret ra
      | Inr receipt \<Rightarrow>
          if rcpt_ID receipt \<noteq> receiptFor ra then Ret ra
          else
            let epoch = fst (parse_uint64 (receiptFor ra));
                ra1 = ra\<lparr>catalog := EpochAcked epoch (catalog ra), receiptFor := []\<rparr>
            in if \<not> announcementPending ra1 then timer_stop (ra1\<lparr>state := WaitingState\<rparr>) else Ret ra1)"

text \<open>
  \<^verbatim>\<open>getBundles\<close>: the bundles marked available, in the order \<open>ks\<close> in which \<^verbatim>\<open>BundleNames\<close>
  ranges over the catalog.
\<close>

fun getBundles_loop :: "string list \<Rightarrow> Catalog \<Rightarrow> Bundle list" where
  "getBundles_loop [] bc = []"
| "getBundles_loop (name # names) bc =
     (case Find name bc of
        None \<Rightarrow> getBundles_loop names bc
      | Some bundle \<Rightarrow>
          if IsAvailable bundle then bundle # getBundles_loop names bc else getBundles_loop names bc)"

definition getBundles :: "string list \<Rightarrow> Catalog \<Rightarrow> Bundle list" where
  "getBundles ks bc = getBundles_loop (BundleNames ks bc) bc"

text \<open>
  \<^verbatim>\<open>sendAnnouncement\<close> in two parts: what it prepares under the lock, and what it does once
  the bus accepted the message. In between it publishes, again and again until that succeeds.
\<close>

definition prepareAnnouncement :: "string list \<Rightarrow> relayAnnouncer \<Rightarrow> Announcement" where
  "prepareAnnouncement ks ra =
     (let announcementID = show_nat (unat (CurrentEpoch (catalog ra)))
      in NewBundleAnnouncementExtended (ra_id ra) (getBundles ks (catalog ra)) (receiptTopic ra) announcementID)"

definition announcementSent :: "bool \<Rightarrow> Announcement \<Rightarrow> relayAnnouncer \<Rightarrow> relayAnnouncer go_result" where
  "announcementSent skipTimer ann ra =
     (let ra1 = ra\<lparr>published := published ra @ [ann], receiptFor := ann_ID ann, state := ReceiptWaitingState\<rparr>
      in if \<not> skipTimer then timer_reset ra1 else Ret ra1)"

text \<open>The timer the loop creates after it has sent an announcement.\<close>

definition armTimer :: "relayAnnouncer \<Rightarrow> relayAnnouncer" where
  "armTimer ra = ra\<lparr>announceTimer := Some (nextTimer ra), nextTimer := Suc (nextTimer ra),
     armedTimers := insert (nextTimer ra) (armedTimers ra)\<rparr>"

text \<open>
  The loop's reaction to the command at the head of the channel. A stop sets the state and
  stops the timer; an announcement is deferred while a receipt is awaited.
\<close>

definition loop_receive :: "relayAnnouncer \<Rightarrow> relayAnnouncer go_result" where
  "loop_receive ra =
     (case control ra of
        [] \<Rightarrow> Ret ra
      | StopCommand # cs \<Rightarrow>
          timer_stop (ra\<lparr>control := cs, state := StoppedState, loopPC := LoopTest\<rparr>)
      | AnnounceCommand # cs \<Rightarrow>
          if state ra = ReceiptWaitingState
          then Ret (ra\<lparr>control := cs, announcementPending := True, loopPC := LoopTest\<rparr>)
          else Ret (ra\<lparr>control := cs, loopPC := LoopSend SendLock\<rparr>))"

text \<open>
  The steps of the announcer. A state is a running announcer, or the panic that ended the
  process: Go ends the whole process when a goroutine panics.
\<close>

inductive announcer_step :: "relayAnnouncer go_result \<Rightarrow> relayAnnouncer go_result \<Rightarrow> bool" where
  step_control: "send_control cmd ra = Some ra' \<Longrightarrow> announcer_step (Ret ra) (Ret ra')"
| step_test: "loopPC ra = LoopTest \<Longrightarrow>
     announcer_step (Ret ra) (Ret (ra\<lparr>loopPC := (if state ra \<noteq> StoppedState then LoopReceive else LoopExited)\<rparr>))"
| step_receive: "loopPC ra = LoopReceive \<Longrightarrow> control ra \<noteq> [] \<Longrightarrow> announcer_step (Ret ra) (loop_receive ra)"
| step_send: "loopPC ra = LoopSend SendLock \<Longrightarrow> range_order (bundles (catalog ra)) ks \<Longrightarrow>
     announcer_step (Ret ra) (announcementSent True (prepareAnnouncement ks ra) (ra\<lparr>loopPC := LoopArm\<rparr>))"
| step_send_fail: "loopPC ra = LoopSend SendLock \<Longrightarrow> range_order (bundles (catalog ra)) ks \<Longrightarrow>
     announcer_step (Ret ra) (Ret (ra\<lparr>loopPC := LoopSend (SendSleep (prepareAnnouncement ks ra))\<rparr>))"
| step_resend: "loopPC ra = LoopSend (SendSleep ann) \<Longrightarrow>
     announcer_step (Ret ra) (announcementSent True ann (ra\<lparr>loopPC := LoopArm\<rparr>))"
| step_resend_fail: "loopPC ra = LoopSend (SendSleep ann) \<Longrightarrow> announcer_step (Ret ra) (Ret ra)"
| step_arm: "loopPC ra = LoopArm \<Longrightarrow> announcer_step (Ret ra) (Ret (armTimer (ra\<lparr>loopPC := LoopTest\<rparr>)))"
| step_fire: "t \<in> armedTimers ra \<Longrightarrow>
     announcer_step (Ret ra) (Ret (ra\<lparr>armedTimers := armedTimers ra - {t}, callbacks := callbacks ra @ [SendLock]\<rparr>))"
| step_callback: "callbacks ra = xs @ SendLock # ys \<Longrightarrow> range_order (bundles (catalog ra)) ks \<Longrightarrow>
     announcer_step (Ret ra) (announcementSent False (prepareAnnouncement ks ra) (ra\<lparr>callbacks := xs @ ys\<rparr>))"
| step_callback_fail: "callbacks ra = xs @ SendLock # ys \<Longrightarrow> range_order (bundles (catalog ra)) ks \<Longrightarrow>
     announcer_step (Ret ra) (Ret (ra\<lparr>callbacks := xs @ SendSleep (prepareAnnouncement ks ra) # ys\<rparr>))"
| step_recallback: "callbacks ra = xs @ SendSleep ann # ys \<Longrightarrow>
     announcer_step (Ret ra) (announcementSent False ann (ra\<lparr>callbacks := xs @ ys\<rparr>))"
| step_recallback_fail: "callbacks ra = xs @ SendSleep ann # ys \<Longrightarrow> announcer_step (Ret ra) (Ret ra)"
| step_receipt: "announcer_step (Ret ra) (cogReceipt unmarshal payload ra)"
| step_catalog: "catalog_op (catalog ra) bc \<Longrightarrow> announcer_step (Ret ra) (Ret (ra\<lparr>catalog := bc\<rparr>))"

definition announcer_init :: "relayAnnouncer go_result \<Rightarrow> bool" where
  "announcer_init s \<longleftrightarrow>
     (\<exists>relayID. s = Ret ((NewAnnouncer relayID NewCatalog)\<lparr>state := WaitingState, loopPC := LoopTest\<rparr>))"

abbreviation announcer_reachable :: "relayAnnouncer go_result \<Rightarrow> bool" where
  "announcer_reachable \<equiv> reachable announcer_init announcer_step"

section \<open>Laws of the operations\<close>

lemmas announcer_defs = send_control_def loop_receive_def announcementSent_def timer_stop_def
  timer_reset_def armTimer_def cogReceipt_def Let_def

lemmas announcer_splits = option.splits list.splits relayAnnouncerCommand.splits sum.splits if_splits

inductive_cases announcer_stepE: "announcer_step (Ret ra) s"

inductive_simps announcer_step_Panic [simp]: "announcer_step (Panic p) s"

lemma BundleNames_filter: "BundleNames ks bc = filter (\<lambda>k. bundles bc k \<noteq> None) ks"
  by (induction ks) auto

lemma getBundles_loop_set:
  "set (getBundles_loop ns bc) = {b. available b \<and> (\<exists>n \<in> set ns. bundles bc n = Some b)}"
  by (induction ns) (auto simp: Find_def bundle_simps split: option.splits)

lemma getBundles_set:
  assumes "range_order (bundles bc) ks"
  shows "set (getBundles ks bc) = {b. available b \<and> b \<in> ran (bundles bc)}"
  using range_order_set [OF assms]
  by (auto simp: getBundles_def getBundles_loop_set BundleNames_filter ran_def)

lemma getBundles_loop_names:
  "catalog_ok bc \<Longrightarrow> distinct ns \<Longrightarrow> distinct (map Name (getBundles_loop ns bc))"
  by (induction ns)
    (auto simp: catalog_ok_def Find_def getBundles_loop_set split: option.splits)

lemma prepareAnnouncement_ID [simp]:
  "ann_ID (prepareAnnouncement ks ra) = show_nat (unat (epoch (catalog ra)))"
  by (simp add: prepareAnnouncement_def NewBundleAnnouncementExtended_def CurrentEpoch_def Let_def)

section \<open>Invariants\<close>

text \<open>
  While the announcer waits for a receipt, another attempt is on its way: the loop is about to
  create a timer, a callback is running, or the current timer is armed.
\<close>

definition retry_scheduled :: "relayAnnouncer \<Rightarrow> bool" where
  "retry_scheduled ra \<longleftrightarrow>
     loopPC ra = LoopArm \<or> callbacks ra \<noteq> [] \<or> (\<exists>t. announceTimer ra = Some t \<and> t \<in> armedTimers ra)"

text \<open>Announcements carry the decimal text of an epoch as their id.\<close>

definition epoch_id :: "string \<Rightarrow> bool" where
  "epoch_id s \<longleftrightarrow> (\<exists>e :: 64 word. s = show_nat (unat e))"

fun sender_ok :: "sender \<Rightarrow> bool" where
  "sender_ok SendLock = True"
| "sender_ok (SendSleep ann) = epoch_id (ann_ID ann)"

definition announcer_ok :: "relayAnnouncer \<Rightarrow> bool" where
  "announcer_ok ra \<longleftrightarrow>
     (state ra = ReceiptWaitingState \<longrightarrow> retry_scheduled ra) \<and>
     (armedTimers ra \<noteq> {} \<or> callbacks ra \<noteq> [] \<longrightarrow> announceTimer ra \<noteq> None) \<and>
     (announcementPending ra \<longrightarrow> state ra \<noteq> WaitingState) \<and>
     (receiptFor ra = [] \<or> epoch_id (receiptFor ra)) \<and>
     (\<forall>ann \<in> set (published ra). epoch_id (ann_ID ann)) \<and>
     (\<forall>c \<in> set (callbacks ra). sender_ok c) \<and>
     (\<forall>c. loopPC ra = LoopSend c \<longrightarrow> sender_ok c) \<and>
     catalog_ok (catalog ra) \<and>
     length (control ra) \<le> 2"

fun announcer_inv :: "relayAnnouncer go_result \<Rightarrow> bool" where
  "announcer_inv (Ret ra) = announcer_ok ra"
| "announcer_inv (Panic p) = True"

lemma epoch_id_show [simp]: "epoch_id (show_nat (unat (e :: 64 word)))"
  by (auto simp: epoch_id_def)

lemma announcementSent_ok:
  assumes "announcer_ok ra" and "epoch_id (ann_ID ann)"
  shows "announcer_inv (announcementSent True ann (ra\<lparr>loopPC := LoopArm\<rparr>))"
    and "callbacks ra = xs @ c # ys \<Longrightarrow> announcer_inv (announcementSent False ann (ra\<lparr>callbacks := xs @ ys\<rparr>))"
  using assms by (auto simp: announcer_ok_def announcer_defs retry_scheduled_def split: option.splits)

lemma loop_receive_ok:
  "announcer_ok ra \<Longrightarrow> loopPC ra = LoopReceive \<Longrightarrow> announcer_inv (loop_receive ra)"
  by (auto simp: announcer_ok_def announcer_defs retry_scheduled_def split: announcer_splits)

lemma cogReceipt_ok: "announcer_ok ra \<Longrightarrow> announcer_inv (cogReceipt unmarshal payload ra)"
  by (auto simp: announcer_ok_def announcer_defs retry_scheduled_def other_ops_ok split: announcer_splits)

lemma announcer_step_inv: "announcer_step s t \<Longrightarrow> announcer_inv s \<Longrightarrow> announcer_inv t"
proof (induction rule: announcer_step.induct)
  case (step_catalog ra bc)
  then show ?case
    by (auto simp: announcer_ok_def retry_scheduled_def intro: catalog_sys.inv_step)
next
  case (step_fire t ra)
  then show ?case by (auto simp: announcer_ok_def retry_scheduled_def)
qed (auto simp: loop_receive_ok cogReceipt_ok announcementSent_ok,
     (auto simp: announcer_ok_def announcer_defs retry_scheduled_def split: announcer_splits)+)

interpretation announcer_sys: invariant_system announcer_init announcer_step announcer_inv
proof unfold_locales
  fix s assume "announcer_init s"
  then show "announcer_inv s"
    by (auto simp: announcer_init_def announcer_ok_def NewAnnouncer_def NewCatalog_ok retry_scheduled_def)
next
  fix s t assume "announcer_inv s" and "announcer_step s t"
  then show "announcer_inv t" by (auto intro: announcer_step_inv)
qed

section \<open>Consequences\<close>

fun has_pending :: "relayAnnouncer go_result \<Rightarrow> bool" where
  "has_pending (Ret ra) = announcementPending ra"
| "has_pending (Panic p) = True"

lemma step_has_pending: "announcer_step s t \<Longrightarrow> has_pending s \<Longrightarrow> has_pending t"
  by (induction rule: announcer_step.induct) (auto simp: announcer_defs split: announcer_splits)

lemma steps_has_pending: "announcer_step\<^sup>*\<^sup>* s t \<Longrightarrow> has_pending s \<Longrightarrow> has_pending t"
  by (induction rule: rtranclp_induct) (auto intro: step_has_pending)

lemma reachable_ok: "announcer_reachable (Ret ra) \<Longrightarrow> announcer_ok ra"
  using announcer_sys.reachable_inv by fastforce

text \<open>A callback that is about to send can publish in one step.\<close>

lemma callback_publishes:
  assumes "announcer_ok ra" and cb: "callbacks ra = c # cs"
  shows "\<exists>ra'. announcer_step (Ret ra) (Ret ra') \<and> length (published ra') = Suc (length (published ra))"
proof -
  from assms obtain t where t: "announceTimer ra = Some t" by (auto simp: announcer_ok_def)
  from assms(1) have "catalog_ok (catalog ra)" by (simp add: announcer_ok_def)
  then obtain ks where ks: "range_order (bundles (catalog ra)) ks" using catalog_ok_order by blast
  define ann where "ann = (case c of SendLock \<Rightarrow> prepareAnnouncement ks ra | SendSleep a \<Rightarrow> a)"
  have "announcer_step (Ret ra) (announcementSent False ann (ra\<lparr>callbacks := cs\<rparr>))"
    using step_callback [of ra "[]" cs ks] step_recallback [of ra "[]" _ cs] cb ks
    by (cases c) (simp_all add: ann_def)
  moreover have "\<exists>ra'. announcementSent False ann (ra\<lparr>callbacks := cs\<rparr>) = Ret ra' \<and>
      length (published ra') = Suc (length (published ra))"
    by (simp add: announcementSent_def timer_reset_def t)
  ultimately show ?thesis by metis
qed

lemma retry_leads_to_publish:
  assumes "announcer_ok ra" and "retry_scheduled ra"
  shows "\<exists>ra'. announcer_step\<^sup>*\<^sup>* (Ret ra) (Ret ra') \<and> length (published ra') = Suc (length (published ra))"
proof -
  have from_callback: ?thesis if "announcer_step\<^sup>*\<^sup>* (Ret ra) (Ret rb)" "announcer_ok rb" "callbacks rb \<noteq> []"
      "published rb = published ra" for rb
    using that callback_publishes [of rb] by (metis neq_Nil_conv rtranclp.rtrancl_into_rtrancl)
  have from_armed: ?thesis if steps: "announcer_step\<^sup>*\<^sup>* (Ret ra) (Ret rb)" and "announcer_ok rb"
      and t: "t \<in> armedTimers rb" and "published rb = published ra" for rb t
  proof -
    let ?rc = "rb\<lparr>armedTimers := armedTimers rb - {t}, callbacks := callbacks rb @ [SendLock]\<rparr>"
    have step: "announcer_step (Ret rb) (Ret ?rc)" using t by (rule step_fire)
    with that announcer_step_inv [OF step] show ?thesis
      by (intro from_callback [of ?rc]) (auto intro: rtranclp.rtrancl_into_rtrancl [OF steps])
  qed
  from assms(2) consider "loopPC ra = LoopArm" | "callbacks ra \<noteq> []" | t where "t \<in> armedTimers ra"
    by (auto simp: retry_scheduled_def)
  then show ?thesis
  proof cases
    case 1
    let ?rb = "armTimer (ra\<lparr>loopPC := LoopTest\<rparr>)"
    have step: "announcer_step (Ret ra) (Ret ?rb)" using 1 by (rule step_arm)
    show ?thesis
      using step announcer_step_inv [OF step] assms(1)
      by (intro from_armed [of ?rb "nextTimer ra"]) (auto simp: armTimer_def)
  next
    case 2
    then show ?thesis using from_callback [of ra] assms(1) by simp
  next
    case 3
    then show ?thesis using from_armed [of ra] assms(1) by simp
  qed
qed

section \<open>A run\<close>

text \<open>
  The start of a run: the loop receives an announce command, publishes the empty catalog as
  announcement 0, and arms the timer; a second command then finds the receipt outstanding.
\<close>

definition run_start :: relayAnnouncer where
  "run_start = (NewAnnouncer ''r'' NewCatalog)\<lparr>state := WaitingState, loopPC := LoopTest\<rparr>"

definition run_sent :: relayAnnouncer where
  "run_sent = run_start\<lparr>loopPC := LoopArm, state := ReceiptWaitingState, receiptFor := ''0'',
     published := [NewBundleAnnouncementExtended ''r'' [] (receiptTopic run_start) ''0'']\<rparr>"

definition run_pending :: relayAnnouncer where
  "run_pending = (armTimer run_sent)\<lparr>loopPC := LoopTest, announcementPending := True\<rparr>"

lemma announcer_reach_step:
  "announcer_reachable s \<Longrightarrow> announcer_step s t \<Longrightarrow> t = u \<Longrightarrow> announcer_reachable u"
  by (auto intro: reachable_step)

lemma run_start_reachable: "announcer_reachable (Ret run_start)"
  by (rule reachable_init) (auto simp: announcer_init_def run_start_def)

lemma run_receive_reachable: "announcer_reachable (Ret (run_start\<lparr>loopPC := LoopReceive, control := [cmd]\<rparr>))"
proof -
  have "announcer_reachable (Ret (run_start\<lparr>loopPC := LoopReceive\<rparr>))"
    by (rule announcer_reach_step [OF run_start_reachable step_test])
      (simp_all add: run_start_def)
  then show ?thesis
    by (rule announcer_reach_step [OF _ step_control [where cmd = cmd]])
      (simp_all add: send_control_def run_start_def NewAnnouncer_def)
qed

lemma run_sent_reachable: "announcer_reachable (Ret run_sent)"
proof -
  have "announcer_reachable (Ret (run_start\<lparr>loopPC := LoopSend SendLock\<rparr>))"
    by (rule announcer_reach_step [OF run_receive_reachable [of AnnounceCommand] step_receive])
      (simp_all add: loop_receive_def run_start_def NewAnnouncer_def)
  then show ?thesis
    by (rule announcer_reach_step [OF _ step_send [where ks = "[]"]])
      (simp_all add: announcementSent_def prepareAnnouncement_def getBundles_def run_sent_def
        run_start_def NewAnnouncer_def NewCatalog_def range_order_def CurrentEpoch_def
        NewBundleAnnouncementExtended_def Let_def)
qed

lemma run_pending_reachable: "announcer_reachable (Ret run_pending)"
proof -
  have "announcer_reachable (Ret ((armTimer run_sent)\<lparr>loopPC := LoopTest\<rparr>))"
    by (rule announcer_reach_step [OF run_sent_reachable step_arm])
      (simp_all add: armTimer_def run_sent_def)
  then have "announcer_reachable (Ret ((armTimer run_sent)\<lparr>loopPC := LoopReceive\<rparr>))"
    by (rule announcer_reach_step [OF _ step_test]) (simp_all add: armTimer_def run_sent_def)
  then have "announcer_reachable (Ret ((armTimer run_sent)\<lparr>loopPC := LoopReceive, control := [AnnounceCommand]\<rparr>))"
    by (rule announcer_reach_step [OF _ step_control [where cmd = AnnounceCommand]])
      (simp_all add: send_control_def armTimer_def run_sent_def run_start_def NewAnnouncer_def)
  then show ?thesis
    by (rule announcer_reach_step [OF _ step_receive])
      (simp_all add: loop_receive_def armTimer_def run_pending_def run_sent_def run_start_def NewAnnouncer_def)
qed

definition decode_receipt_0 :: "string \<Rightarrow> error + AnnouncementReceipt" where
  "decode_receipt_0 payload = Inr \<lparr>rcpt_ID = ''0'', rcpt_Status = ''success'', rcpt_Bundles = GNil\<rparr>"

lemma run_pending_receipt:
  "cogReceipt decode_receipt_0 [] run_pending = Ret (run_pending\<lparr>receiptFor := []\<rparr>)"
  by (simp add: cogReceipt_def decode_receipt_0_def Let_def run_pending_def armTimer_def run_sent_def
    EpochAcked_def run_start_def NewAnnouncer_def NewCatalog_def parse_uint64_def digit_value_def)

section \<open>Properties\<close>

text \<open>
  C12: while the announcer is waiting for a receipt it is never stuck. From every reachable
  state in the receipt-waiting state some continuation of the run publishes another
  announcement: a retry is armed, running, or about to be armed.
\<close>

theorem announcer_keeps_retrying:
  assumes "announcer_reachable (Ret ra)" and "state ra = ReceiptWaitingState"
  shows "\<exists>ra'. announcer_step\<^sup>*\<^sup>* (Ret ra) (Ret ra') \<and> length (published ra') = Suc (length (published ra))"
proof -
  have "announcer_ok ra" using assms(1) by (rule reachable_ok)
  then show ?thesis using assms(2) by (intro retry_leads_to_publish) (auto simp: announcer_ok_def)
qed

theorem announcer_keeps_retrying_witness:
  "announcer_reachable (Ret run_sent) \<and>
   (\<exists>ra'. announcer_step\<^sup>*\<^sup>* (Ret run_sent) (Ret ra') \<and> length (published ra') = 2)"
  using announcer_keeps_retrying [OF run_sent_reachable] run_sent_reachable
  by (simp add: run_sent_def eval_nat_numeral)



text \<open>
  An announcement lists exactly the bundles that are available: the name and version of
  every bundle of the catalog that is marked available, each name once, whatever order the
  catalog's map is iterated in.
\<close>

theorem announcement_lists_available:
  assumes "catalog_ok (catalog ra)" and "range_order (bundles (catalog ra)) ks"
  shows "(\<lambda>r. (ref_Name r, ref_Version r)) ` set (ann_Bundles (prepareAnnouncement ks ra)) =
           {(n, Version b) | n b. bundles (catalog ra) n = Some b \<and> available b} \<and>
         distinct (map ref_Name (ann_Bundles (prepareAnnouncement ks ra)))"
proof
  have refs: "ann_Bundles (prepareAnnouncement ks ra) = bundle_refs (getBundles ks (catalog ra))"
    by (simp add: prepareAnnouncement_def NewBundleAnnouncementExtended_def Let_def)
  show "(\<lambda>r. (ref_Name r, ref_Version r)) ` set (ann_Bundles (prepareAnnouncement ks ra)) =
           {(n, Version b) | n b. bundles (catalog ra) n = Some b \<and> available b}"
    using assms(1)
    by (auto simp: refs bundle_refs_map getBundles_set [OF assms(2)] ran_def catalog_ok_def image_iff)
      blast+
  show "distinct (map ref_Name (ann_Bundles (prepareAnnouncement ks ra)))"
    using getBundles_loop_names [OF assms(1)] range_order_distinct [OF assms(2)]
    by (simp add: refs bundle_refs_map getBundles_def BundleNames_filter comp_def)
qed

theorem announcement_lists_available_witness:
  "let b = \<lparr>BundleVersion = 1, Name = ''foo'', Version = ''1.2.0'', Permissions = [], Docker = None,
             Commands = Map.empty, Templates = Map.empty, available = True\<rparr>;
       ra = run_start\<lparr>catalog := NewCatalog\<lparr>bundles := [''foo'' \<mapsto> b]\<rparr>\<rparr>
   in (\<lambda>r. (ref_Name r, ref_Version r)) ` set (ann_Bundles (prepareAnnouncement [''foo''] ra)) =
        {(n, Version b) | n b. bundles (catalog ra) n = Some b \<and> available b} \<and>
      distinct (map ref_Name (ann_Bundles (prepareAnnouncement [''foo''] ra)))"
  unfolding Let_def
  by (rule announcement_lists_available) (auto simp: catalog_ok_def range_order_def split: if_splits)

text \<open>
  Once the first retry timer exists, no step of the announcer panics: every later stop
  command, receipt or callback finds a timer to stop or reset.
\<close>

theorem announcer_no_panic_after_first_timer:
  assumes "announcer_reachable (Ret ra)" and "announceTimer ra \<noteq> None" and "announcer_step (Ret ra) s"
  shows "\<exists>ra'. s = Ret ra' \<and> announceTimer ra' \<noteq> None"
  using assms(3,2)
  by (cases rule: announcer_stepE) (auto simp: announcer_defs split: announcer_splits)

theorem announcer_no_panic_after_first_timer_witness:
  "\<exists>ra'. loop_receive (run_pending\<lparr>loopPC := LoopReceive, control := [StopCommand]\<rparr>) = Ret ra' \<and>
     announceTimer ra' \<noteq> None"
proof (rule announcer_no_panic_after_first_timer)
  have "announcer_reachable (Ret (run_pending\<lparr>loopPC := LoopReceive\<rparr>))"
    by (rule announcer_reach_step [OF run_pending_reachable step_test])
      (simp_all add: run_pending_def armTimer_def run_sent_def)
  then show "announcer_reachable (Ret (run_pending\<lparr>loopPC := LoopReceive, control := [StopCommand]\<rparr>))"
    by (rule announcer_reach_step [OF _ step_control [where cmd = StopCommand]])
      (simp_all add: send_control_def run_pending_def armTimer_def run_sent_def run_start_def NewAnnouncer_def)
qed (auto intro: step_receive simp: run_pending_def armTimer_def)

text \<open>
  A stop command that arrives before the first announcement ends the process. The loop
  stops a timer that has not been created yet, so the state in which the announcer has
  panicked is reachable.
\<close>

theorem halt_before_announcement_panics: "announcer_reachable (Panic ''nil timer'')"
  by (rule announcer_reach_step [OF run_receive_reachable [of StopCommand] step_receive])
    (simp_all add: loop_receive_def timer_stop_def run_start_def NewAnnouncer_def)

text \<open>
  So does a receipt that arrives early. The loop creates the retry timer only after the first
  announcement has been published; a receipt that is handled in between stops a timer that does
  not exist yet.
\<close>

theorem early_receipt_panics:
  "announcer_reachable (Ret run_sent) \<and> published run_sent \<noteq> [] \<and>
   announcer_step (Ret run_sent) (Panic ''nil timer'')"
proof -
  have "cogReceipt decode_receipt_0 [] run_sent = Panic ''nil timer''"
    by (simp add: cogReceipt_def decode_receipt_0_def Let_def run_sent_def timer_stop_def run_start_def NewAnnouncer_def)
  then show ?thesis using step_receipt [of run_sent decode_receipt_0 "[]"] run_sent_reachable by (simp add: run_sent_def)
qed

text \<open>
  A deferred announcement is never cleared. The flag is set when a command arrives while a
  receipt is awaited and no step resets it, so from then on the announcer never returns to the
  waiting state: every receipt leaves the retry timer running.
\<close>

theorem pending_announcement_never_clears:
  assumes "announcer_reachable (Ret ra)" and "announcementPending ra"
    and "announcer_step\<^sup>*\<^sup>* (Ret ra) (Ret ra')"
  shows "announcementPending ra' \<and> state ra' \<noteq> WaitingState"
proof -
  have "announcementPending ra'" using steps_has_pending [OF assms(3)] assms(2) by simp
  moreover have "announcer_ok ra'" using reachable_steps [OF assms(1,3)] by (rule reachable_ok)
  ultimately show ?thesis by (simp add: announcer_ok_def)
qed

theorem pending_announcement_never_clears_witness:
  "announcementPending (run_pending\<lparr>receiptFor := []\<rparr>) \<and> state (run_pending\<lparr>receiptFor := []\<rparr>) \<noteq> WaitingState"
proof (rule pending_announcement_never_clears [OF run_pending_reachable])
  show "announcer_step\<^sup>*\<^sup>* (Ret run_pending) (Ret (run_pending\<lparr>receiptFor := []\<rparr>))"
    using step_receipt [of run_pending decode_receipt_0 "[]"]
    by (simp add: run_pending_receipt r_into_rtranclp)
qed (simp add: run_pending_def)

end
