(* ===== verification/Exec_Messages.thy ===== *)
theory Exec_Messages
  imports Bundle_Config Dynamic_Config
begin

text \<open>
  Execution requests and the environment of a command: \<^verbatim>\<open>relay/messages/execution.go\<close>,
  \<^verbatim>\<open>relay/messages/env_builder.go\<close> and the request type of the command driver,
  \<^verbatim>\<open>circuit-driver/api/request.go\<close>. The environment is built by appending to a list, so a
  name may occur several times.
\<close>

section \<open>The request of the command driver\<close>

record ExecRequest =
  req_Executable :: "string option"
  Stdin :: string
  Env :: "(string \<times> string) list"

definition NewExecRequest :: ExecRequest where
  "NewExecRequest = \<lparr>req_Executable = None, Stdin = [], Env = []\<rparr>"

fun FindEnv_loop :: "string \<Rightarrow> (string \<times> string) list \<Rightarrow> string" where
  "FindEnv_loop name [] = []"
| "FindEnv_loop name (ev # evs) = (if fst ev = name then snd ev else FindEnv_loop name evs)"

definition FindEnv :: "string \<Rightarrow> ExecRequest \<Rightarrow> string" where
  "FindEnv name er = FindEnv_loop name (Env er)"

definition PutEnv :: "string \<Rightarrow> string \<Rightarrow> ExecRequest \<Rightarrow> ExecRequest" where
  "PutEnv name value er = er\<lparr>Env := Env er @ [(name, value)]\<rparr>"

definition SetExecutable :: "string \<Rightarrow> ExecRequest \<Rightarrow> ExecRequest" where
  "SetExecutable name er = er\<lparr>req_Executable := Some name\<rparr>"

definition convertEnv :: "ExecRequest \<Rightarrow> string list" where
  "convertEnv er = map (\<lambda>(n, v). n @ ''='' @ v) (Env er)"

section \<open>Execution requests and responses\<close>

record ChatUser =
  chat_ID :: go_value
  Handle :: string
  Provider :: string

record CogUser =
  user_ID :: string
  Email :: string
  FirstName :: string
  LastName :: string
  Username :: string

record ChatRoom =
  room_Name :: string

record ExecutionRequest =
  Options :: "string \<rightharpoonup> go_value"
  Args :: "go_value list"
  CogEnv :: go_value
  InvocationID :: string
  InvocationStep :: string
  Command :: string
  ReplyTo :: string
  Requestor :: ChatUser
  User :: CogUser
  Room :: ChatRoom
  ServiceToken :: string
  ServicesRoot :: string
  bundleName :: string
  commandName :: string
  pipelineID :: string

record ExecutionResponse =
  resp_Room :: string
  resp_Bundle :: string
  Status :: string
  StatusMessage :: string
  Template :: string
  Body :: go_value
  IsJSON :: bool
  Aborted :: bool

definition empty_response :: ExecutionResponse where
  "empty_response = \<lparr>resp_Room = [], resp_Bundle = [], Status = [], StatusMessage = [], Template = [],
     Body = GNil, IsJSON = False, Aborted = False\<rparr>"

definition BundleName :: "ExecutionRequest \<Rightarrow> string" where
  "BundleName er = bundleName er"

definition CommandName :: "ExecutionRequest \<Rightarrow> string" where
  "CommandName er = commandName er"

definition PipelineID :: "ExecutionRequest \<Rightarrow> string" where
  "PipelineID er = pipelineID er"

text \<open>\<^verbatim>\<open>Parse\<close> indexes the pieces of the command name and of the reply topic without a test.\<close>

definition index_panic :: string where
  "index_panic = ''index out of range''"

definition Parse :: "ExecutionRequest \<Rightarrow> ExecutionRequest go_result" where
  "Parse er =
     (let commandParts = split_n (CHR '':'') 2 (Command er);
          pipelineParts = split_n (CHR ''/'') 5 (ReplyTo er)
      in if length commandParts < 1 then Panic index_panic
         else if length commandParts < 2 then Panic index_panic
         else if length pipelineParts < 4 then Panic index_panic
         else Ret (er\<lparr>bundleName := commandParts ! 0, commandName := commandParts ! 1,
                      pipelineID := pipelineParts ! 3\<rparr>))"

section \<open>Formatting values\<close>

definition show_bool :: "bool \<Rightarrow> string" where
  "show_bool b = (if b then ''true'' else ''false'')"

text \<open>\<^verbatim>\<open>fmt.Sprintf("%v", x)\<close>.\<close>

fun sprint_v :: "go_value \<Rightarrow> string" where
  "sprint_v GNil = ''<nil>''"
| "sprint_v (GBool b) = show_bool b"
| "sprint_v (GNumber s) = s"
| "sprint_v (GInt i) = show_int i"
| "sprint_v (GFloat s) = s"
| "sprint_v (GString s) = s"
| "sprint_v (GSlice vs) = ''['' @ join_with (CHR '' '') (map sprint_v vs) @ '']''"
| "sprint_v (GMap kvs) =
     ''map['' @ join_with (CHR '' '') (map (\<lambda>(k, v). k @ '':'' @ sprint_v v) kvs) @ '']''"

text \<open>
  \<^verbatim>\<open>fmt.Sprintf("%s", x)\<close>: a value that is not a string is printed as a formatting error
  that names its type. \<^verbatim>\<open>json.Number\<close> is a string type.
\<close>

fun sprint_s :: "go_value \<Rightarrow> string" where
  "sprint_s GNil = ''%!s(<nil>)''"
| "sprint_s (GBool b) = ''%!s(bool='' @ show_bool b @ '')''"
| "sprint_s (GNumber s) = s"
| "sprint_s (GInt i) = ''%!s(int='' @ show_int i @ '')''"
| "sprint_s (GFloat s) = ''%!s(float64='' @ s @ '')''"
| "sprint_s (GString s) = s"
| "sprint_s (GSlice vs) = ''['' @ join_with (CHR '' '') (map sprint_s vs) @ '']''"
| "sprint_s (GMap kvs) =
     ''map['' @ join_with (CHR '' '') (map (\<lambda>(k, v). k @ '':'' @ sprint_s v) kvs) @ '']''"

section \<open>The environment\<close>

text \<open>The arguments: \<^verbatim>\<open>COG_ARGV_0\<close>, \<^verbatim>\<open>COG_ARGV_1\<close> and so on.\<close>

fun put_args :: "nat \<Rightarrow> go_value list \<Rightarrow> ExecRequest \<Rightarrow> ExecRequest" where
  "put_args i [] request = request"
| "put_args i (v # vs) request =
     put_args (Suc i) vs (PutEnv (''COG_ARGV_'' @ show_nat i) (sprint_v v) request)"

fun put_values :: "string \<Rightarrow> nat \<Rightarrow> go_value list \<Rightarrow> ExecRequest \<Rightarrow> ExecRequest" where
  "put_values k i [] request = request"
| "put_values k i (v # vs) request =
     put_values k (Suc i) vs
       (PutEnv (''COG_OPT_'' @ to_upper k @ ''_'' @ show_nat i) (sprint_v v) request)"

text \<open>
  One option. \<^verbatim>\<open>reflect.TypeOf\<close> of a nil value is nil, and asking it for its kind panics.
\<close>

fun put_option :: "string \<Rightarrow> go_value \<Rightarrow> ExecRequest \<Rightarrow> ExecRequest go_result" where
  "put_option k GNil request = Panic ''nil option value''"
| "put_option k (GSlice vs) request =
     Ret (put_values k 0 vs (PutEnv (''COG_OPT_'' @ to_upper k @ ''_COUNT'') (show_nat (length vs)) request))"
| "put_option k v request = Ret (PutEnv (''COG_OPT_'' @ to_upper k) (sprint_v v) request)"

text \<open>The loop over the options, in the order \<open>ks\<close>, with the list of their names.\<close>

fun put_options ::
    "(string \<rightharpoonup> go_value) \<Rightarrow> string list \<Rightarrow> string \<Rightarrow> ExecRequest \<Rightarrow> (string \<times> ExecRequest) go_result" where
  "put_options opts [] cogOpts request = Ret (cogOpts, request)"
| "put_options opts (k # ks) cogOpts request =
     (case opts k of
        None \<Rightarrow> put_options opts ks cogOpts request
      | Some v \<Rightarrow>
          go_bind (put_option k v request) (\<lambda>request'.
            put_options opts ks (if cogOpts = [] then k else cogOpts @ '','' @ k) request'))"

fun put_all :: "(string \<rightharpoonup> 'v) \<Rightarrow> ('v \<Rightarrow> string) \<Rightarrow> string list \<Rightarrow> ExecRequest \<Rightarrow> ExecRequest" where
  "put_all m fmt [] request = request"
| "put_all m fmt (k # ks) request =
     put_all m fmt ks (case m k of None \<Rightarrow> request | Some v \<Rightarrow> PutEnv k (fmt v) request)"

text \<open>
  What \<^verbatim>\<open>compileEnvironment\<close> reads besides its arguments: the orders in which it ranges over
  its four maps (the options, the command's variables, the dynamic configuration and the
  relay's extra variables), and what the loader of the dynamic configuration reads.
\<close>

record env_world =
  opt_ord :: "string list"
  var_ord :: "string list"
  dyn_ord :: "string list"
  extra_ord :: "string list"
  w_stat :: "string \<Rightarrow> bool option"
  w_readFile :: "string \<Rightarrow> error + string"
  w_yaml :: "string \<Rightarrow> (string \<rightharpoonup> go_value) \<Rightarrow> error + (string \<rightharpoonup> go_value)"
  w_strip_ord :: "(string \<rightharpoonup> go_value) \<Rightarrow> string list"

definition load_dynamic :: "env_world \<Rightarrow> Config \<Rightarrow> ExecutionRequest \<Rightarrow> (string \<rightharpoonup> go_value)" where
  "load_dynamic w relayConfig er =
     LoadDynamicConfig (w_stat w) (w_readFile w) (w_yaml w) (w_strip_ord w) relayConfig
       (BundleName er) (room_Name (Room er)) (Username (User er))"

definition put_cog_vars :: "ExecutionRequest \<Rightarrow> ExecRequest \<Rightarrow> ExecRequest" where
  "put_cog_vars er request =
     (let r = fold (\<lambda>(n, v). PutEnv n v)
        [(''COG_BUNDLE'', BundleName er), (''COG_COMMAND'', CommandName er),
         (''COG_ROOM'', room_Name (Room er)), (''COG_CHAT_HANDLE'', Handle (Requestor er)),
         (''COG_USERNAME'', Username (User er)), (''COG_EMAIL'', Email (User er)),
         (''COG_PIPELINE_ID'', PipelineID er), (''COG_SERVICE_TOKEN'', ServiceToken er),
         (''COG_SERVICES_ROOT'', ServicesRoot er), (''COG_INVOCATION_ID'', InvocationID er)] request
      in if InvocationStep er \<noteq> [] then PutEnv ''COG_INVOCATION_STEP'' (InvocationStep er) r else r)"

definition compileEnvironment ::
    "env_world \<Rightarrow> ExecutionRequest \<Rightarrow> BundleCommand \<Rightarrow> ExecRequest \<Rightarrow> Config \<Rightarrow> bool \<Rightarrow>
     (ExecRequest \<times> bool) go_result" where
  "compileEnvironment w er command request relayConfig useDynamicConfig =
     (let r1 = put_args 0 (Args er) request;
          r2 = PutEnv ''COG_ARGC'' (show_nat (length (Args er))) r1
      in go_bind
           (if map_len (Options er) > 0
            then go_bind (put_options (Options er) (opt_ord w) [] r2)
                   (\<lambda>(cogOpts, r). Ret (PutEnv ''COG_OPTS'' cogOpts r))
            else Ret r2)
           (\<lambda>r3.
             let r4 = put_cog_vars er r3;
                 r5 = put_all (EnvVars command) (\<lambda>v. v) (var_ord w) r4;
                 dyn = load_dynamic w relayConfig er;
                 foundDynamicConfig = (useDynamicConfig \<and> map_len dyn > 0);
                 r6 = (if useDynamicConfig then put_all dyn sprint_s (dyn_ord w) r5 else r5);
                 r7 = (case Execution relayConfig of
                         None \<Rightarrow> r6
                       | Some x \<Rightarrow> put_all (ParsedExtraEnv x) (\<lambda>v. v) (extra_ord w) r6)
             in Ret (r7, foundDynamicConfig)))"

definition errorCommandNotFound :: error where
  "errorCommandNotFound = ''Command not found''"

text \<open>
  \<^verbatim>\<open>ToCircuitRequest\<close>; \<open>marshal\<close> is the JSON encoder. A missing command and a nil one are
  the same to the code.
\<close>

definition ToCircuitRequest ::
    "(go_value \<Rightarrow> string) \<Rightarrow> env_world \<Rightarrow> ExecutionRequest \<Rightarrow> Bundle \<Rightarrow> Config \<Rightarrow> bool \<Rightarrow>
     (error + ExecRequest \<times> bool) go_result" where
  "ToCircuitRequest marshal w er bundle relayConfig useDynamicConfig =
     (case Commands bundle (CommandName er) of
        Some (Some command) \<Rightarrow>
          go_bind (compileEnvironment w er command NewExecRequest relayConfig useDynamicConfig)
            (\<lambda>(request, hasDynamicConfig).
              let retval = SetExecutable (Executable command) request;
                  retval' = (if CogEnv er \<noteq> GNil then retval\<lparr>Stdin := marshal (CogEnv er)\<rparr> else retval)
              in Ret (Inr (retval', hasDynamicConfig)))
      | _ \<Rightarrow> Ret (Inl errorCommandNotFound))"

section \<open>Laws\<close>

lemma Env_PutEnv [simp]: "Env (PutEnv n v r) = Env r @ [(n, v)]"
  by (simp add: PutEnv_def)

lemma Env_put_args:
  "Env (put_args i vs r) = Env r @ map (\<lambda>(j, v). (''COG_ARGV_'' @ show_nat j, sprint_v v)) (enumerate i vs)"
  by (induction i vs r rule: put_args.induct) simp_all

lemma Env_put_values:
  "Env (put_values k i vs r) =
     Env r @ map (\<lambda>(j, v). (''COG_OPT_'' @ to_upper k @ ''_'' @ show_nat j, sprint_v v)) (enumerate i vs)"
  by (induction k i vs r rule: put_values.induct) simp_all

definition map_env :: "(string \<rightharpoonup> 'v) \<Rightarrow> ('v \<Rightarrow> string) \<Rightarrow> string list \<Rightarrow> (string \<times> string) list" where
  "map_env m fmt ks = concat (map (\<lambda>k. case m k of None \<Rightarrow> [] | Some v \<Rightarrow> [(k, fmt v)]) ks)"

lemma Env_put_all: "Env (put_all m fmt ks r) = Env r @ map_env m fmt ks"
  unfolding map_env_def by (induction m fmt ks r rule: put_all.induct) (auto split: option.splits)

lemma map_env_names: "p \<in> set (map_env m fmt ks) \<Longrightarrow> fst p \<in> dom m"
  unfolding map_env_def
  by (induction ks) (auto simp: eq_commute [of "Some x" "m k" for x k] split: option.split_asm)

text \<open>The entries one option adds.\<close>

fun option_env :: "string \<Rightarrow> go_value \<Rightarrow> (string \<times> string) list" where
  "option_env k (GSlice vs) =
     (''COG_OPT_'' @ to_upper k @ ''_COUNT'', show_nat (length vs)) #
     map (\<lambda>(j, v). (''COG_OPT_'' @ to_upper k @ ''_'' @ show_nat j, sprint_v v)) (enumerate 0 vs)"
| "option_env k v = [(''COG_OPT_'' @ to_upper k, sprint_v v)]"

lemma put_option_Ret:
  "v \<noteq> GNil \<Longrightarrow> \<exists>r'. put_option k v r = Ret r' \<and> Env r' = Env r @ option_env k v"
  by (cases v) (simp_all add: Env_put_values)

lemma put_option_panics: "(\<exists>p. put_option k v r = Panic p) \<longleftrightarrow> v = GNil"
  by (cases v) simp_all

lemma option_env_names: "p \<in> set (option_env k v) \<Longrightarrow> prefix ''COG_OPT_'' (fst p)"
  by (cases "(k, v)" rule: option_env.cases) auto

definition options_env :: "(string \<rightharpoonup> go_value) \<Rightarrow> string list \<Rightarrow> (string \<times> string) list" where
  "options_env opts ks = concat (map (\<lambda>k. case opts k of None \<Rightarrow> [] | Some v \<Rightarrow> option_env k v) ks)"

definition opt_names :: "string \<Rightarrow> string list \<Rightarrow> string" where
  "opt_names = foldl (\<lambda>acc k. if acc = [] then k else acc @ '','' @ k)"

lemma put_options_Ret:
  assumes "set ks \<subseteq> dom opts" and "\<forall>k \<in> set ks. opts k \<noteq> Some GNil"
  shows "\<exists>r'. put_options opts ks acc r = Ret (opt_names acc ks, r') \<and> Env r' = Env r @ options_env opts ks"
  using assms
proof (induction ks arbitrary: acc r)
  case Nil
  then show ?case by (simp add: opt_names_def options_env_def)
next
  case (Cons k ks)
  then obtain v where v: "opts k = Some v" "v \<noteq> GNil" by auto
  then obtain r1 where r1: "put_option k v r = Ret r1" "Env r1 = Env r @ option_env k v"
    using put_option_Ret by blast
  let ?acc = "if acc = [] then k else acc @ '','' @ k"
  obtain r' where "put_options opts ks ?acc r1 = Ret (opt_names ?acc ks, r')"
    "Env r' = Env r1 @ options_env opts ks"
    using Cons.IH [of ?acc r1] Cons.prems by auto
  with v r1 show ?case by (simp add: opt_names_def options_env_def)
qed

lemma put_options_panics:
  "(\<exists>p. put_options opts ks acc r = Panic p) \<longleftrightarrow> (\<exists>k \<in> set ks. opts k = Some GNil)"
proof (induction ks arbitrary: acc r)
  case (Cons k ks)
  show ?case
  proof (cases "opts k")
    case None
    with Cons show ?thesis by auto
  next
    case (Some v)
    show ?thesis
    proof (cases "put_option k v r")
      case (Ret r1)
      then have "v \<noteq> GNil" using put_option_panics [of k v r] by auto
      with Some Ret Cons show ?thesis by auto
    next
      case (Panic p)
      then have "v = GNil" using put_option_panics [of k v r] by blast
      with Some show ?thesis by auto
    qed
  qed
qed simp

lemma opt_names_join:
  "ks \<noteq> [] \<Longrightarrow> [] \<notin> set ks \<Longrightarrow> opt_names [] ks = join_with (CHR '','') ks"
proof (induction ks rule: rev_induct)
  case (snoc k ks)
  have "join_with c (xs @ [y]) = join_with c xs @ c # y" if "xs \<noteq> []" for c xs and y :: string
    using that by (induction c xs rule: join_with.induct) auto
  moreover have "join_with (CHR '','') ks \<noteq> []" if "ks \<noteq> []" "[] \<notin> set ks"
    using that by (induction "CHR '',''" ks rule: join_with.induct) auto
  ultimately show ?case using snoc by (cases "ks = []") (auto simp: opt_names_def)
qed simp

text \<open>The variables that describe the invocation, and the whole environment as one list.\<close>

definition cog_env :: "ExecutionRequest \<Rightarrow> (string \<times> string) list" where
  "cog_env er =
     [(''COG_BUNDLE'', BundleName er), (''COG_COMMAND'', CommandName er),
      (''COG_ROOM'', room_Name (Room er)), (''COG_CHAT_HANDLE'', Handle (Requestor er)),
      (''COG_USERNAME'', Username (User er)), (''COG_EMAIL'', Email (User er)),
      (''COG_PIPELINE_ID'', PipelineID er), (''COG_SERVICE_TOKEN'', ServiceToken er),
      (''COG_SERVICES_ROOT'', ServicesRoot er), (''COG_INVOCATION_ID'', InvocationID er)] @
     (if InvocationStep er = [] then [] else [(''COG_INVOCATION_STEP'', InvocationStep er)])"

lemma Env_put_cog_vars: "Env (put_cog_vars er r) = Env r @ cog_env er"
  by (simp add: put_cog_vars_def cog_env_def)

definition args_env :: "ExecutionRequest \<Rightarrow> (string \<times> string) list" where
  "args_env er = map (\<lambda>(j, v). (''COG_ARGV_'' @ show_nat j, sprint_v v)) (enumerate 0 (Args er)) @
     [(''COG_ARGC'', show_nat (length (Args er)))]"

definition all_options_env :: "env_world \<Rightarrow> ExecutionRequest \<Rightarrow> (string \<times> string) list" where
  "all_options_env w er =
     (if map_len (Options er) > 0
      then options_env (Options er) (opt_ord w) @ [(''COG_OPTS'', opt_names [] (opt_ord w))] else [])"

definition config_env :: "env_world \<Rightarrow> ExecutionRequest \<Rightarrow> Config \<Rightarrow> bool \<Rightarrow> (string \<times> string) list" where
  "config_env w er c useDynamicConfig =
     (if useDynamicConfig then map_env (load_dynamic w c er) sprint_s (dyn_ord w) else []) @
     (case Execution c of None \<Rightarrow> [] | Some x \<Rightarrow> map_env (ParsedExtraEnv x) (\<lambda>v. v) (extra_ord w))"

lemma compileEnvironment_Ret:
  assumes "range_order (Options er) (opt_ord w)" and "\<forall>k. Options er k \<noteq> Some GNil"
  shows "\<exists>r. compileEnvironment w er command request c dyn =
      Ret (r, dyn \<and> map_len (load_dynamic w c er) > 0) \<and>
    Env r = Env request @ args_env er @ all_options_env w er @ cog_env er @
      map_env (EnvVars command) (\<lambda>v. v) (var_ord w) @ config_env w er c dyn"
proof -
  let ?r2 = "PutEnv ''COG_ARGC'' (show_nat (length (Args er))) (put_args 0 (Args er) request)"
  obtain r' where r': "put_options (Options er) (opt_ord w) [] ?r2 = Ret (opt_names [] (opt_ord w), r')"
    "Env r' = Env ?r2 @ options_env (Options er) (opt_ord w)"
    using put_options_Ret [of "opt_ord w" "Options er" "[]" ?r2] assms by (auto simp: range_order_def)
  have args: "Env ?r2 = Env request @ args_env er" by (simp add: Env_put_args args_env_def)
  show ?thesis
    using r' args
    by (cases "map_len (Options er) > 0"; cases "Execution c"; cases dyn)
       (simp_all add: compileEnvironment_def Let_def Env_put_all Env_put_cog_vars all_options_env_def config_env_def)
qed

lemma compileEnvironment_panics:
  assumes "range_order (Options er) (opt_ord w)"
  shows "(\<exists>p. compileEnvironment w er command request c dyn = Panic p) \<longleftrightarrow> (\<exists>k. Options er k = Some GNil)"
proof (cases "\<exists>k. Options er k = Some GNil")
  case True
  with assms have "\<exists>k \<in> set (opt_ord w). Options er k = Some GNil" by (auto simp: range_order_def)
  moreover have "map_len (Options er) > 0" using True map_len_pos [OF range_order_finite [OF assms]] by auto
  ultimately show ?thesis
    using put_options_panics [of "Options er" "opt_ord w" "[]"
        "PutEnv ''COG_ARGC'' (show_nat (length (Args er))) (put_args 0 (Args er) request)"] True
    by (auto simp: compileEnvironment_def Let_def)
next
  case False
  with compileEnvironment_Ret [OF assms, of command request c dyn] show ?thesis by auto
qed

lemma compileEnvironment_Env:
  assumes "range_order (Options er) (opt_ord w)"
    and "compileEnvironment w er command request c dyn = Ret (r, found)"
  shows "Env r = Env request @ args_env er @ all_options_env w er @ cog_env er @
      map_env (EnvVars command) (\<lambda>v. v) (var_ord w) @ config_env w er c dyn"
    and "found \<longleftrightarrow> dyn \<and> map_len (load_dynamic w c er) > 0"
proof -
  have "\<forall>k. Options er k \<noteq> Some GNil"
    using compileEnvironment_panics [OF assms(1), of command request c dyn] assms(2) by auto
  from compileEnvironment_Ret [OF assms(1) this, of command request c dyn] assms(2)
  show "Env r = Env request @ args_env er @ all_options_env w er @ cog_env er @
      map_env (EnvVars command) (\<lambda>v. v) (var_ord w) @ config_env w er c dyn"
    and "found \<longleftrightarrow> dyn \<and> map_len (load_dynamic w c er) > 0"
    by auto
qed

text \<open>Building the environment leaves the standard input alone.\<close>

lemma Stdin_PutEnv [simp]: "Stdin (PutEnv n v r) = Stdin r"
  by (simp add: PutEnv_def)

lemma Stdin_put_args [simp]: "Stdin (put_args i vs r) = Stdin r"
  by (induction i vs r rule: put_args.induct) simp_all

lemma Stdin_put_values [simp]: "Stdin (put_values k i vs r) = Stdin r"
  by (induction k i vs r rule: put_values.induct) simp_all

lemma Stdin_put_all [simp]: "Stdin (put_all m fmt ks r) = Stdin r"
  by (induction m fmt ks r rule: put_all.induct) (simp_all split: option.split)

lemma Stdin_put_cog_vars [simp]: "Stdin (put_cog_vars er r) = Stdin r"
  by (simp add: put_cog_vars_def Let_def)

lemma Stdin_put_options: "put_options opts ks acc r = Ret (s, r') \<Longrightarrow> Stdin r' = Stdin r"
proof (induction opts ks acc r rule: put_options.induct)
  case (2 opts k ks acc r)
  have "put_option k v r = Ret r1 \<Longrightarrow> Stdin r1 = Stdin r" for v r1 by (cases v) auto
  with 2 show ?case by (fastforce split: option.splits)
qed simp

lemma compileEnvironment_Stdin:
  "compileEnvironment w er command request c dyn = Ret (r, found) \<Longrightarrow> Stdin r = Stdin request"
  by (auto simp: compileEnvironment_def Let_def dest!: Stdin_put_options split: if_splits option.splits)

text \<open>The names each part of the environment uses.\<close>

lemma args_env_names: "p \<in> set (args_env er) \<Longrightarrow> prefix ''COG_ARG'' (fst p)"
  by (auto simp: args_env_def)

lemma all_options_env_names: "p \<in> set (all_options_env w er) \<Longrightarrow> prefix ''COG_OPT'' (fst p)"
proof -
  assume "p \<in> set (all_options_env w er)"
  then consider "prefix ''COG_OPT_'' (fst p)" | "fst p = ''COG_OPTS''"
    by (auto simp: all_options_env_def options_env_def dest!: option_env_names split: if_splits option.splits)
  then show ?thesis by cases (auto simp: prefix_def)
qed

text \<open>
  The relay's configuration is clean when neither the dynamic configuration nor the extra
  variables hold a reserved name: what the two loaders guarantee.
\<close>

definition clean_sources :: "env_world \<Rightarrow> ExecutionRequest \<Rightarrow> Config \<Rightarrow> bool" where
  "clean_sources w er c \<longleftrightarrow>
     (\<forall>k \<in> dom (load_dynamic w c er). \<not> reserved_key k) \<and>
     (\<forall>x. Execution c = Some x \<longrightarrow> (\<forall>k \<in> dom (ParsedExtraEnv x). \<not> reserved_key k))"

text \<open>The map order of the loader's last loop, and the extra variables as the start-up parses them.\<close>

definition loaded_sources :: "env_world \<Rightarrow> ExecutionRequest \<Rightarrow> Config \<Rightarrow> bool" where
  "loaded_sources w er c \<longleftrightarrow>
     (\<forall>m. read_layers (w_readFile w) (w_yaml w)
        (allConfigFiles (w_stat w) (DynamicConfigRoot c) (BundleName er) (room_Name (Room er)) (Username (User er)))
        Map.empty = Some m \<longrightarrow> range_order m (w_strip_ord w m)) \<and>
     (\<forall>x. Execution c = Some x \<longrightarrow> (\<exists>x0. ExecutionInfo_parse x0 = Ret x))"

lemma loaded_sources_clean: "loaded_sources w er c \<Longrightarrow> clean_sources w er c"
  unfolding clean_sources_def load_dynamic_def
proof (intro conjI ballI allI impI)
  assume src: "loaded_sources w er c"
  show "\<not> reserved_key k" if "k \<in> dom (LoadDynamicConfig (w_stat w) (w_readFile w) (w_yaml w) (w_strip_ord w) c
      (BundleName er) (room_Name (Room er)) (Username (User er)))" for k
    by (rule LoadDynamicConfig_reserved [OF _ that]) (use src in \<open>simp add: loaded_sources_def\<close>)
  show "\<not> reserved_key k" if "Execution c = Some x" "k \<in> dom (ParsedExtraEnv x)" for x k
    using src that ExecutionInfo_parse_reserved by (auto simp: loaded_sources_def)
qed

lemma config_env_names:
  "clean_sources w er c \<Longrightarrow> p \<in> set (config_env w er c dyn) \<Longrightarrow> \<not> reserved_key (fst p)"
  by (cases "Execution c") (auto simp: config_env_def clean_sources_def dest!: map_env_names split: if_splits)

lemma filter_name_Nil: "(\<And>p. p \<in> set xs \<Longrightarrow> fst p \<noteq> n) \<Longrightarrow> filter (\<lambda>p. fst p = n) xs = []"
  by (simp add: filter_empty_conv)

lemma cog_env_names: "p \<in> set (cog_env er) \<Longrightarrow>
    reserved_key (fst p) \<and> \<not> prefix ''COG_ARG'' (fst p) \<and> \<not> prefix ''COG_OPT'' (fst p)"
  by (auto simp: cog_env_def reserved_key_def split: if_splits)

lemma filter_name_distinct:
  "distinct (map fst xs) \<Longrightarrow> (n, v) \<in> set xs \<Longrightarrow> filter (\<lambda>p. fst p = n) xs = [(n, v)]"
proof (induction xs)
  case (Cons x xs)
  show ?case
  proof (cases "fst x = n")
    case True
    then have "filter (\<lambda>p. fst p = n) xs = []" using Cons.prems by (intro filter_name_Nil) (auto simp: rev_image_eqI)
    moreover have "(n, v) \<notin> set xs" using True Cons.prems(1) by (auto simp: rev_image_eqI)
    ultimately show ?thesis using True Cons.prems(2) by simp
  next
    case False
    with Cons show ?thesis by auto
  qed
qed simp

lemma cog_env_unique: "(n, v) \<in> set (cog_env er) \<Longrightarrow> filter (\<lambda>p. fst p = n) (cog_env er) = [(n, v)]"
  by (erule filter_name_distinct [rotated]) (simp add: cog_env_def)

section \<open>Properties\<close>

text \<open>
  What \<^verbatim>\<open>Parse\<close> extracts. When it returns, the command's qualified name is the bundle
  name, the first colon and the command name, and the pipeline id is the fourth segment of the
  reply topic; every other field is kept. It panics exactly when the command has no colon or
  the topic has fewer than four segments.
\<close>

theorem Parse_extracts:
  "(\<forall>er'. Parse er = Ret er' \<longrightarrow>
      Command er = BundleName er' @ '':'' @ CommandName er' \<and> CHR '':'' \<notin> set (BundleName er') \<and>
      PipelineID er' = split_on (CHR ''/'') (ReplyTo er) ! 3 \<and>
      er'\<lparr>bundleName := bundleName er, commandName := commandName er, pipelineID := pipelineID er\<rparr> = er) \<and>
   ((\<exists>p. Parse er = Panic p) \<longleftrightarrow>
      CHR '':'' \<notin> set (Command er) \<or> length (split_on (CHR ''/'') (ReplyTo er)) < 4)"
proof -
  have two: "split_n c 2 s = (case break_at c s of None \<Rightarrow> [s] | Some (a, b) \<Rightarrow> [a, b])" for c s
    by (simp add: numeral_2_eq_2 split: option.split)
  show ?thesis
    using split_n_nth [of 3 5 "CHR ''/''" "ReplyTo er"] length_split_n_min [of 5 "CHR ''/''" "ReplyTo er"]
    by (auto simp: Parse_def Let_def two BundleName_def CommandName_def PipelineID_def
      break_at_None dest: break_at_Some split: option.splits)
qed

definition sample_request :: ExecutionRequest where
  "sample_request = \<lparr>Options = [''x'' \<mapsto> GSlice [GNumber ''1'', GString ''b'']], Args = [GString ''a''], CogEnv = GNil,
     InvocationID = ''i'', InvocationStep = [], Command = ''b:c:d'', ReplyTo = ''/bot/pipelines/p1/reply'',
     Requestor = \<lparr>chat_ID = GNil, Handle = ''h'', Provider = ''p''\<rparr>,
     User = \<lparr>user_ID = ''1'', Email = ''e'', FirstName = ''f'', LastName = ''l'', Username = ''u''\<rparr>,
     Room = \<lparr>room_Name = ''r''\<rparr>, ServiceToken = ''t'', ServicesRoot = ''s'',
     bundleName = ''b'', commandName = ''c'', pipelineID = ''p1''\<rparr>"

definition sample_world :: env_world where
  "sample_world = \<lparr>opt_ord = [''x''], var_ord = [], dyn_ord = [], extra_ord = [], w_stat = (\<lambda>_. None),
     w_readFile = (\<lambda>_. Inl ''none''), w_yaml = (\<lambda>_ m. Inr m), w_strip_ord = (\<lambda>_. [])\<rparr>"

lemma Parse_sample_request:
  "Parse sample_request = Ret (sample_request\<lparr>bundleName := ''b'', commandName := ''c:d'', pipelineID := ''p1''\<rparr>)"
  by (simp add: Parse_def sample_request_def eval_nat_numeral)

theorem Parse_extracts_witness:
  "\<exists>er'. Parse sample_request = Ret er' \<and> BundleName er' = ''b'' \<and> CommandName er' = ''c:d'' \<and> PipelineID er' = ''p1'' \<and>
     Command sample_request = BundleName er' @ '':'' @ CommandName er'"
  using Parse_extracts [of sample_request] Parse_sample_request
  by (auto simp: BundleName_def CommandName_def PipelineID_def)


definition sample_command :: BundleCommand where
  "sample_command = \<lparr>cmd_Name = ''c'', Executable = ''/bin/c'', cmd_Options = Map.empty, Rules = [], EnvVars = Map.empty\<rparr>"

lemma sample_sources:
  "range_order (Options sample_request) (opt_ord sample_world)"
  "loaded_sources sample_world sample_request zero_config"
  "Options sample_request k \<noteq> Some GNil"
  "load_dynamic sample_world zero_config sample_request = Map.empty"
  by (simp_all add: range_order_def sample_request_def sample_world_def loaded_sources_def load_dynamic_def
    LoadDynamicConfig_def zero_config_def allConfigFiles_def resolveYAMLFile_def)


text \<open>
  C28: every outcome of building a request. The error is returned exactly when the bundle has
  no such command, a panic happens exactly when the command exists and some option of the
  request is null, and otherwise the result has the command's executable, the encoded pipeline
  environment on its standard input if there is one, and a flag that says whether dynamic
  configuration was found.
\<close>

theorem ToCircuitRequest_outcomes:
  assumes "range_order (Options er) (opt_ord w)"
  shows "case Commands b (CommandName er) of
      Some (Some command) \<Rightarrow>
        (if \<exists>k. Options er k = Some GNil then \<exists>p. ToCircuitRequest marshal w er b c dyn = Panic p
         else \<exists>r. ToCircuitRequest marshal w er b c dyn =
                Ret (Inr (r, dyn \<and> map_len (load_dynamic w c er) > 0)) \<and>
              req_Executable r = Some (Executable command) \<and>
              Stdin r = (if CogEnv er = GNil then [] else marshal (CogEnv er)))
    | _ \<Rightarrow> ToCircuitRequest marshal w er b c dyn = Ret (Inl errorCommandNotFound)"
proof (cases "\<exists>command. Commands b (CommandName er) = Some (Some command)")
  case True
  then obtain command where cmd: "Commands b (CommandName er) = Some (Some command)" by blast
  show ?thesis
  proof (cases "compileEnvironment w er command NewExecRequest c dyn")
    case (Panic p)
    then show ?thesis
      using compileEnvironment_panics [OF assms, of command NewExecRequest c dyn] cmd
      by (simp add: ToCircuitRequest_def)
  next
    case (Ret rf)
    obtain r found where rf: "rf = (r, found)" by (cases rf)
    have "Stdin r = []" using Ret rf by (simp add: compileEnvironment_Stdin NewExecRequest_def)
    with Ret rf cmd compileEnvironment_panics [OF assms, of command NewExecRequest c dyn]
      compileEnvironment_Env(2) [OF assms, of command NewExecRequest c dyn r found]
    show ?thesis by (auto simp: ToCircuitRequest_def SetExecutable_def)
  qed
next
  case False
  then show ?thesis by (auto simp: ToCircuitRequest_def split: option.splits)
qed

lemma sample_names:
  "CommandName sample_request = ''c''" "Executable sample_command = ''/bin/c''"
  by (simp_all add: CommandName_def sample_request_def sample_command_def)

theorem ToCircuitRequest_outcomes_witness:
  "\<exists>r. ToCircuitRequest (\<lambda>_. []) sample_world sample_request
      (\<lparr>BundleVersion = 3, Name = ''b'', Version = ''1.0.0'', Permissions = [], Docker = None,
        Commands = [''c'' \<mapsto> Some sample_command], Templates = Map.empty, available = True\<rparr>) zero_config False = Ret (Inr (r, False)) \<and>
    req_Executable r = Some ''/bin/c''"
  using ToCircuitRequest_outcomes [OF sample_sources(1), where b = "\<lparr>BundleVersion = 3, Name = ''b'', Version = ''1.0.0'',
      Permissions = [], Docker = None, Commands = [''c'' \<mapsto> Some sample_command], Templates = Map.empty,
      available = True\<rparr>" and marshal = "\<lambda>_. []" and c = zero_config and dyn = False] sample_sources(3)
  by (simp add: sample_names) blast

text \<open>
  C29: a command can enumerate its options. If no option name is empty or has a comma,
  splitting \<^verbatim>\<open>COG_OPTS\<close> at the commas gives back every option name once, and the entries of
  each option are in the environment: its value, or for a list its length and its elements.
\<close>

theorem options_enumerable:
  assumes "range_order (Options er) (opt_ord w)" and "Options er \<noteq> Map.empty"
    and "\<forall>k \<in> dom (Options er). k \<noteq> [] \<and> CHR '','' \<notin> set k"
    and "compileEnvironment w er command request c dyn = Ret (r, found)"
  shows "(\<exists>s. (''COG_OPTS'', s) \<in> set (Env r) \<and> distinct (split_on (CHR '','') s) \<and>
        set (split_on (CHR '','') s) = dom (Options er)) \<and>
    (\<forall>k v. Options er k = Some v \<longrightarrow> set (option_env k v) \<subseteq> set (Env r))"
proof -
  let ?ks = "opt_ord w"
  have ks: "distinct ?ks" "set ?ks = dom (Options er)" using assms(1) by (auto simp: range_order_def)
  have pos: "map_len (Options er) > 0" using assms(2) map_len_pos [OF range_order_finite [OF assms(1)]] by simp
  have ne: "?ks \<noteq> []" using assms(2) ks(2) by (metis dom_eq_empty_conv set_empty)
  moreover have "[] \<notin> set ?ks" "\<forall>k \<in> set ?ks. CHR '','' \<notin> set k" using assms(3) ks(2) by auto
  ultimately have names: "split_on (CHR '','') (opt_names [] ?ks) = ?ks"
    by (simp add: opt_names_join split_on_join)
  have "set (all_options_env w er) \<subseteq> set (Env r)"
    using compileEnvironment_Env(1) [OF assms(1,4)] by auto
  moreover have "set (option_env k v) \<subseteq> set (all_options_env w er)" if "Options er k = Some v" for k v
  proof -
    have "k \<in> set ?ks" using that ks(2) by blast
    with that pos show ?thesis by (auto simp: all_options_env_def options_env_def intro!: bexI [of _ k])
  qed
  moreover have "(''COG_OPTS'', opt_names [] ?ks) \<in> set (all_options_env w er)"
    using pos by (simp add: all_options_env_def)
  ultimately show ?thesis
    using names ks by (intro conjI allI impI exI [of _ "opt_names [] ?ks"]) auto
qed

theorem options_enumerable_witness:
  "\<exists>r. compileEnvironment sample_world sample_request sample_command NewExecRequest zero_config False = Ret (r, False) \<and>
     {(''COG_OPT_X_COUNT'', ''2''), (''COG_OPT_X_0'', ''1''), (''COG_OPT_X_1'', ''b'')} \<subseteq> set (Env r)"
proof -
  obtain r where r: "compileEnvironment sample_world sample_request sample_command NewExecRequest zero_config False = Ret (r, False)"
    using compileEnvironment_Ret [of sample_request sample_world sample_command NewExecRequest zero_config False] sample_sources
    by (auto simp: map_len_def)
  have "Options sample_request \<noteq> Map.empty" "\<forall>k \<in> dom (Options sample_request). k \<noteq> [] \<and> CHR '','' \<notin> set k"
    by (simp_all add: sample_request_def)
  note opts = options_enumerable [OF sample_sources(1) this r, THEN conjunct2, rule_format]
  have "Options sample_request ''x'' = Some (GSlice [GNumber ''1'', GString ''b''])"
    by (simp add: sample_request_def)
  from opts [OF this] have "set (option_env ''x'' (GSlice [GNumber ''1'', GString ''b''])) \<subseteq> set (Env r)" .
  moreover have "to_upper_char (CHR ''x'') = CHR ''X''" by code_simp
  moreover from this have "option_env ''x'' (GSlice [GNumber ''1'', GString ''b'']) =
      [(''COG_OPT_X_COUNT'', ''2''), (''COG_OPT_X_0'', ''1''), (''COG_OPT_X_1'', ''b'')]"
    by (simp add: numeral_2_eq_2 [symmetric])
  ultimately have "{(''COG_OPT_X_COUNT'', ''2''), (''COG_OPT_X_0'', ''1''), (''COG_OPT_X_1'', ''b'')} \<subseteq> set (Env r)" by simp
  with r show ?thesis by blast
qed

end
