(* ===== verification/Output_Parser.thy ===== *)
theory Output_Parser
  imports Exec_Messages
begin

text \<open>
  The command output protocol: \<^verbatim>\<open>relay/worker/output_parser_v1.go\<close> and the result type of the
  command driver, \<^verbatim>\<open>circuit-driver/api/result.pb.go\<close>. A command writes directives and
  content to its standard output, line by line. The parser tries a Go map of regular
  expressions on each line, in an order the language leaves open: the order for the \<open>i\<close>-th
  line is an argument. The JSON decoder is a parameter.
\<close>

section \<open>The model\<close>

record ExecResult =
  Stdout :: string
  Stderr :: string
  Success :: "bool option"
  Elapsed :: "int option"

definition EmptyExecResult :: ExecResult where
  "EmptyExecResult = \<lparr>Stdout = [], Stderr = [], Success = None, Elapsed = None\<rparr>"

definition GetSuccess :: "ExecResult \<Rightarrow> bool" where
  "GetSuccess m = (case Success m of None \<Rightarrow> False | Some b \<Rightarrow> b)"

definition SetSuccess :: "bool \<Rightarrow> ExecResult \<Rightarrow> ExecResult" where
  "SetSuccess flag er = er\<lparr>Success := Some flag\<rparr>"

definition SetElapsed :: "int \<Rightarrow> ExecResult \<Rightarrow> ExecResult" where
  "SetElapsed elapsed er = er\<lparr>Elapsed := Some elapsed\<rparr>"

text \<open>
  A key of the matcher map is one of the eight regular expressions. Each is a fixed prefix
  followed by a group that takes the rest of the line, except the last one, which matches one
  line exactly. A logging expression also captures the name of its level.
\<close>

datatype outputMatcher =
    LogMatcher string
  | ActionMatcher
  | TemplateMatcher
  | JSONMatcher

definition matchers :: "outputMatcher list" where
  "matchers = [LogMatcher ''DEBUG:'', LogMatcher ''INFO:'', LogMatcher ''WARN:'', LogMatcher ''ERR:'',
     LogMatcher ''ERROR:'', ActionMatcher, TemplateMatcher, JSONMatcher]"

definition strip_prefix :: "string \<Rightarrow> string \<Rightarrow> string option" where
  "strip_prefix p s = (if has_prefix s p then Some (drop (length p) s) else None)"

text \<open>\<^verbatim>\<open>re.FindStringSubmatch(line)[1:]\<close>, or \<open>None\<close> when the expression does not match.\<close>

fun submatches :: "outputMatcher \<Rightarrow> string \<Rightarrow> string list option" where
  "submatches (LogMatcher level) line =
     map_option (\<lambda>rest. [level, rest]) (strip_prefix (''COGCMD_'' @ level) line)"
| "submatches ActionMatcher line = map_option (\<lambda>rest. [rest]) (strip_prefix ''COGCMD_ACTION:'' line)"
| "submatches TemplateMatcher line = map_option (\<lambda>rest. [rest]) (strip_prefix ''COG_TEMPLATE:'' line)"
| "submatches JSONMatcher line = (if line = ''JSON'' then Some [''JSON''] else None)"

datatype log_level = LDebug | LInfo | LWarn | LError

text \<open>A log entry: the level, the pipeline id, the command and the message.\<close>

type_synonym log_entry = "log_level \<times> string \<times> string \<times> string"

definition writeToLog :: "string list \<Rightarrow> ExecutionRequest \<Rightarrow> log_entry list \<Rightarrow> log_entry list" where
  "writeToLog line req logs =
     (let message = trim_char (CHR '' '') (line ! 1)
      in if message = [] then logs
         else logs @ [((if line ! 0 = ''DEBUG:'' then LDebug
                        else if line ! 0 = ''WARN:'' then LWarn
                        else if line ! 0 = ''ERR:'' \<or> line ! 0 = ''ERROR:'' then LError
                        else LInfo), PipelineID req, Command req, message)])"

definition extractTemplate :: "string list \<Rightarrow> ExecutionResponse \<Rightarrow> ExecutionResponse" where
  "extractTemplate line resp = resp\<lparr>Template := trim_char (CHR '' '') (line ! 0)\<rparr>"

definition flagJSON :: "string list \<Rightarrow> ExecutionResponse \<Rightarrow> ExecutionResponse" where
  "flagJSON line resp = resp\<lparr>IsJSON := True\<rparr>"

definition parseAction :: "string list \<Rightarrow> ExecutionResponse \<Rightarrow> ExecutionResponse" where
  "parseAction line resp =
     (if trim_char (CHR '' '') (line ! 0) = ''abort'' then resp\<lparr>Aborted := True\<rparr> else resp)"

fun callback ::
    "outputMatcher \<Rightarrow> string list \<Rightarrow> ExecutionRequest \<Rightarrow> ExecutionResponse \<times> log_entry list \<Rightarrow>
     ExecutionResponse \<times> log_entry list" where
  "callback (LogMatcher level) line req (resp, logs) = (resp, writeToLog line req logs)"
| "callback ActionMatcher line req (resp, logs) = (parseAction line resp, logs)"
| "callback TemplateMatcher line req (resp, logs) = (extractTemplate line resp, logs)"
| "callback JSONMatcher line req (resp, logs) = (flagJSON line resp, logs)"

text \<open>The loop over the matchers: the first that matches is called, and the loop ends.\<close>

fun run_matchers ::
    "outputMatcher list \<Rightarrow> string \<Rightarrow> ExecutionRequest \<Rightarrow> ExecutionResponse \<times> log_entry list \<Rightarrow>
     bool \<times> ExecutionResponse \<times> log_entry list" where
  "run_matchers [] line req st = (False, st)"
| "run_matchers (m # ms) line req st =
     (case submatches m line of
        Some groups \<Rightarrow> (True, callback m groups req st)
      | None \<Rightarrow> run_matchers ms line req st)"

fun parse_lines ::
    "(nat \<Rightarrow> outputMatcher list) \<Rightarrow> nat \<Rightarrow> string list \<Rightarrow> ExecutionRequest \<Rightarrow>
     string list \<times> ExecutionResponse \<times> log_entry list \<Rightarrow> string list \<times> ExecutionResponse \<times> log_entry list" where
  "parse_lines ord i [] req st = st"
| "parse_lines ord i (line # lines) req (retained, resp, logs) =
     parse_lines ord (Suc i) lines req
       (if \<not> IsJSON resp
        then let (matched, resp', logs') = run_matchers (ord i) line req (resp, logs)
             in (if \<not> matched then retained @ [line] else retained, resp', logs')
        else (retained @ [line], resp, logs))"

definition text_body :: "string list \<Rightarrow> go_value" where
  "text_body retained = GSlice [GMap [(''body'', GSlice (map GString retained))]]"

definition Output_Parse ::
    "(nat \<Rightarrow> outputMatcher list) \<Rightarrow> (string \<Rightarrow> error + go_value) \<Rightarrow> ExecResult \<Rightarrow> ExecutionRequest \<Rightarrow>
     error option \<Rightarrow> ExecutionResponse \<times> log_entry list" where
  "Output_Parse ord decode result req err =
     (let resp = empty_response\<lparr>Status := ''ok''\<rparr>
      in case err of
           Some e \<Rightarrow> (resp\<lparr>Status := ''error'', StatusMessage := e\<rparr>, [])
         | None \<Rightarrow>
             let (retained, resp, logs) =
                   (if length (Stdout result) > 0
                    then parse_lines ord 0 (split_on (CHR 0x0A) (trim_suffix (Stdout result) [CHR 0x0A])) req ([], resp, [])
                    else ([], resp, []))
             in if \<not> GetSuccess result
                then (resp\<lparr>Status := ''error'', StatusMessage := Stderr result\<rparr>, logs)
                else let resp' =
                       (if IsJSON resp
                        then (case decode (join_with (CHR 0x0A) retained) of
                                Inl e \<Rightarrow> resp\<lparr>Status := ''error'', StatusMessage := ''Command returned invalid JSON.''\<rparr>
                              | Inr jsonBody \<Rightarrow> resp\<lparr>Body := jsonBody\<rparr>)
                        else if length retained > 0 then resp\<lparr>Body := text_body retained\<rparr> else resp)
                     in (if Status resp' = ''ok'' \<and> Aborted resp' then resp'\<lparr>Status := ''abort''\<rparr> else resp', logs))"

section \<open>The protocol\<close>

text \<open>
  What the protocol says, without a loop: directives are the lines before the \<^verbatim>\<open>JSON\<close> marker
  that begin with one of the seven prefixes; everything else, and every line after the marker,
  is content.
\<close>

definition directive_prefixes :: "string list" where
  "directive_prefixes = [''COGCMD_DEBUG:'', ''COGCMD_INFO:'', ''COGCMD_WARN:'', ''COGCMD_ERR:'',
     ''COGCMD_ERROR:'', ''COGCMD_ACTION:'', ''COG_TEMPLATE:'']"

definition is_directive :: "string \<Rightarrow> bool" where
  "is_directive line \<longleftrightarrow> line = ''JSON'' \<or> list_ex (\<lambda>p. prefix p line) directive_prefixes"

definition head_lines :: "string list \<Rightarrow> string list" where
  "head_lines = takeWhile (\<lambda>l. l \<noteq> ''JSON'')"

definition content_lines :: "string list \<Rightarrow> string list" where
  "content_lines ls = filter (\<lambda>l. \<not> is_directive l) (head_lines ls) @ drop (Suc (length (head_lines ls))) ls"

definition template_from :: "string \<Rightarrow> string list \<Rightarrow> string" where
  "template_from t ls =
     (case find (prefix ''COG_TEMPLATE:'') (rev (head_lines ls)) of
        None \<Rightarrow> t | Some l \<Rightarrow> trim_char (CHR '' '') (drop 13 l))"

definition aborts :: "string list \<Rightarrow> bool" where
  "aborts ls \<longleftrightarrow> list_ex (\<lambda>l. prefix ''COGCMD_ACTION:'' l \<and> trim_char (CHR '' '') (drop 14 l) = ''abort'') (head_lines ls)"

text \<open>What one logging directive writes to the log.\<close>

definition log_prefixes :: "(string \<times> log_level) list" where
  "log_prefixes = [(''COGCMD_DEBUG:'', LDebug), (''COGCMD_INFO:'', LInfo), (''COGCMD_WARN:'', LWarn),
     (''COGCMD_ERR:'', LError), (''COGCMD_ERROR:'', LError)]"

definition log_of :: "ExecutionRequest \<Rightarrow> string \<Rightarrow> log_entry list" where
  "log_of req line =
     concat (map (\<lambda>(p, level).
       if prefix p line \<and> trim_char (CHR '' '') (drop (length p) line) \<noteq> []
       then [(level, PipelineID req, Command req, trim_char (CHR '' '') (drop (length p) line))] else []) log_prefixes)"

definition output_lines :: "string \<Rightarrow> string list" where
  "output_lines s = (if s = [] then [] else split_on (CHR 0x0A) (trim_suffix s [CHR 0x0A]))"

text \<open>The response the protocol prescribes.\<close>

definition protocol_response :: "(string \<Rightarrow> error + go_value) \<Rightarrow> ExecResult \<Rightarrow> error option \<Rightarrow> ExecutionResponse" where
  "protocol_response decode result err =
     (let ls = output_lines (Stdout result);
          base = empty_response\<lparr>Template := template_from [] ls, IsJSON := ''JSON'' \<in> set ls, Aborted := aborts ls\<rparr>;
          fail = (\<lambda>r msg. r\<lparr>Status := ''error'', StatusMessage := msg\<rparr>);
          done = (\<lambda>body. base\<lparr>Status := if aborts ls then ''abort'' else ''ok'', Body := body\<rparr>)
      in case err of
           Some e \<Rightarrow> fail empty_response e
         | None \<Rightarrow>
             if Success result \<noteq> Some True then fail base (Stderr result)
             else if ''JSON'' \<notin> set ls
             then done (if content_lines ls = [] then GNil else text_body (content_lines ls))
             else case decode (join_with (CHR 0x0A) (content_lines ls)) of
               Inl e \<Rightarrow> fail base ''Command returned invalid JSON.''
             | Inr body \<Rightarrow> done body)"

section \<open>Laws\<close>

text \<open>At most one of the expressions matches a line, so the order of the matchers is immaterial.\<close>

lemma submatches_exclusive:
  assumes "m \<in> set matchers" and "m' \<in> set matchers"
    and "submatches m line \<noteq> None" and "submatches m' line \<noteq> None"
  shows "m = m'"
  using assms
  by (auto simp: matchers_def strip_prefix_def prefix_def split: if_splits)

lemma run_matchers_hit:
  assumes "set ms \<subseteq> set matchers" and "m \<in> set ms" and "submatches m line = Some groups"
  shows "run_matchers ms line req st = (True, callback m groups req st)"
  using assms
proof (induction ms)
  case (Cons a ms)
  show ?case
  proof (cases "submatches a line")
    case None
    with Cons show ?thesis by auto
  next
    case (Some g)
    then have "a = m" using Cons.prems submatches_exclusive [of a m line] by auto
    with Some Cons.prems(3) show ?thesis by simp
  qed
qed simp

lemma run_matchers_miss:
  "(\<And>m. m \<in> set ms \<Longrightarrow> submatches m line = None) \<Longrightarrow> run_matchers ms line req st = (False, st)"
  by (induction ms) auto

lemma is_directive_matches: "is_directive line \<longleftrightarrow> (\<exists>m \<in> set matchers. submatches m line \<noteq> None)"
  by (auto simp: is_directive_def directive_prefixes_def matchers_def strip_prefix_def)

text \<open>What one line before the marker does to the response and to the log.\<close>

definition line_effect :: "string \<Rightarrow> ExecutionResponse \<Rightarrow> ExecutionResponse" where
  "line_effect line resp =
     resp\<lparr>Template := (if prefix ''COG_TEMPLATE:'' line then trim_char (CHR '' '') (drop 13 line) else Template resp),
          IsJSON := (IsJSON resp \<or> line = ''JSON''),
          Aborted := (Aborted resp \<or> prefix ''COGCMD_ACTION:'' line \<and> trim_char (CHR '' '') (drop 14 line) = ''abort'')\<rparr>"

lemma strip_prefix_Some: "strip_prefix p s = Some r \<longleftrightarrow> s = p @ r"
  by (auto simp: strip_prefix_def prefix_def)

lemma callback_effect:
  assumes "m \<in> set matchers" and "submatches m line = Some groups"
  shows "callback m groups req (resp, logs) = (line_effect line resp, logs @ log_of req line)"
proof -
  have "m \<in> {LogMatcher ''DEBUG:'', LogMatcher ''INFO:'', LogMatcher ''WARN:'', LogMatcher ''ERR:'',
     LogMatcher ''ERROR:'', ActionMatcher, TemplateMatcher, JSONMatcher}"
    using assms(1) by (simp add: matchers_def)
  then show ?thesis
    using assms(2)
    by (elim insertE emptyE; clarsimp simp: strip_prefix_Some split: if_splits)
       (simp_all add: line_effect_def log_of_def log_prefixes_def writeToLog_def
          extractTemplate_def flagJSON_def parseAction_def Let_def)
qed

lemma line_effect_content: "\<not> is_directive line \<Longrightarrow> line_effect line resp = resp \<and> log_of req line = []"
  by (auto simp: is_directive_def directive_prefixes_def line_effect_def log_of_def log_prefixes_def)

lemma run_matchers_effect:
  assumes "set ms = set matchers"
  shows "run_matchers ms line req (resp, logs) = (is_directive line, line_effect line resp, logs @ log_of req line)"
proof (cases "is_directive line")
  case True
  then obtain m groups where m: "m \<in> set matchers" "submatches m line = Some groups"
    by (auto simp: is_directive_matches)
  then show ?thesis
    using True assms by (simp add: run_matchers_hit [where m = m] callback_effect)
next
  case False
  then have "run_matchers ms line req (resp, logs) = (False, resp, logs)"
    using assms by (intro run_matchers_miss) (auto simp: is_directive_matches)
  then show ?thesis using False by (simp add: line_effect_content)
qed

lemma parse_lines_json:
  "IsJSON resp \<Longrightarrow> parse_lines ord i ls req (ret, resp, logs) = (ret @ ls, resp, logs)"
  by (induction ls arbitrary: i ret) simp_all

lemma head_lines_simps [simp]:
  "head_lines [] = []" "head_lines (l # ls) = (if l = ''JSON'' then [] else l # head_lines ls)"
  by (simp_all add: head_lines_def)

lemma content_lines_simps [simp]:
  "content_lines [] = []"
  "content_lines (l # ls) = (if l = ''JSON'' then ls else if is_directive l then content_lines ls else l # content_lines ls)"
  by (simp_all add: content_lines_def)

lemma template_from_Cons:
  "template_from t (l # ls) =
     (if l = ''JSON'' then t
      else template_from (if prefix ''COG_TEMPLATE:'' l then trim_char (CHR '' '') (drop 13 l) else t) ls)"
  by (auto simp: template_from_def find_append split: option.splits)

lemma parse_lines_spec:
  assumes "\<And>i. set (ord i) = set matchers" and "\<not> IsJSON resp"
  shows "parse_lines ord i ls req (ret, resp, logs) =
    (ret @ content_lines ls,
     resp\<lparr>Template := template_from (Template resp) ls, IsJSON := ''JSON'' \<in> set ls, Aborted := Aborted resp \<or> aborts ls\<rparr>,
     logs @ concat (map (log_of req) (head_lines ls)))"
  using assms(2)
proof (induction ls arbitrary: i ret resp logs)
  case Nil
  then show ?case by (simp add: template_from_def aborts_def)
next
  case (Cons l ls)
  show ?case
  proof (cases "l = ''JSON''")
    case True
    then have "is_directive l" "log_of req l = []"
      by (simp_all add: is_directive_def log_of_def log_prefixes_def)
    with True Cons.prems show ?thesis
      by (simp add: run_matchers_effect assms(1) parse_lines_json line_effect_def template_from_Cons aborts_def)
  next
    case False
    with Cons.prems have "\<not> IsJSON (line_effect l resp)" by (simp add: line_effect_def)
    from Cons.IH [OF this] False Cons.prems show ?thesis
      by (auto simp: run_matchers_effect assms(1) line_effect_def template_from_Cons aborts_def)
  qed
qed

lemma Output_Parse_spec:
  assumes "\<And>i. set (ord i) = set matchers"
  shows "Output_Parse ord decode result req err =
    (protocol_response decode result err,
     if err = None then concat (map (log_of req) (head_lines (output_lines (Stdout result)))) else [])"
proof (cases err)
  case (Some e)
  then show ?thesis by (simp add: Output_Parse_def protocol_response_def)
next
  case None
  let ?ls = "output_lines (Stdout result)"
  let ?start = "empty_response\<lparr>Status := ''ok''\<rparr>"
  let ?r = "?start\<lparr>Template := template_from [] ?ls, IsJSON := ''JSON'' \<in> set ?ls, Aborted := aborts ?ls\<rparr>"
  have "\<not> IsJSON ?start" "Template ?start = []" "\<not> Aborted ?start" by (simp_all add: empty_response_def)
  then have "(if length (Stdout result) > 0
      then parse_lines ord 0 (split_on (CHR 0x0A) (trim_suffix (Stdout result) [CHR 0x0A])) req ([], ?start, [])
      else ([], ?start, [])) = (content_lines ?ls, ?r, concat (map (log_of req) (head_lines ?ls)))"
    using parse_lines_spec [where ord = ord and i = 0 and ls = ?ls and resp = ?start and req = req and ret = "[]" and logs = "[]", OF assms]
    by (cases "Stdout result = []") (simp_all add: output_lines_def template_from_def aborts_def empty_response_def)
  note parsed = this
  have "GetSuccess result \<longleftrightarrow> Success result = Some True" by (simp add: GetSuccess_def split: option.split)
  then show ?thesis
    unfolding Output_Parse_def protocol_response_def Let_def None option.case parsed prod.case
    by (cases "Success result = Some True"; cases "''JSON'' \<in> set ?ls"; cases "aborts ?ls";
        cases "decode (join_with (CHR 0x0A) (content_lines ?ls))"; cases "content_lines ?ls = []")
       (simp_all add: empty_response_def)
qed

lemma content_lines_all: "(\<And>l. l \<in> set ls \<Longrightarrow> \<not> is_directive l) \<Longrightarrow> content_lines ls = ls"
  by (induction ls) (auto simp: is_directive_def)

section \<open>Properties\<close>

text \<open>
  C9: the parser implements the output protocol. For every order in which the run-time visits
  the matchers, the response and the log are those the protocol prescribes: directives before
  the \<^verbatim>\<open>JSON\<close> marker are taken out of the content and carried out, the last template wins,
  the content after the marker is decoded, and a failed command, a failed run and undecodable
  JSON give an error response.
\<close>

theorem Output_Parse_protocol:
  assumes "\<And>i. set (ord i) = set matchers"
  shows "Output_Parse ord decode result req err =
    (protocol_response decode result err,
     if err = None then concat (map (log_of req) (head_lines (output_lines (Stdout result)))) else [])"
  by (rule Output_Parse_spec [OF assms])

theorem Output_Parse_protocol_witness:
  "Output_Parse (\<lambda>i. if even i then matchers else rev matchers) (\<lambda>_. Inl ''bad'')
     \<lparr>Stdout = ''COG_TEMPLATE: t'' @ [CHR 0x0A] @ ''x'' @ [CHR 0x0A], Stderr = [], Success = Some True, Elapsed = None\<rparr>
     sample_request None =
   (empty_response\<lparr>Status := ''ok'', Template := ''t'', Body := text_body [''x'']\<rparr>, [])"
proof -
  have lines: "output_lines (''COG_TEMPLATE: t'' @ [CHR 0x0A] @ ''x'' @ [CHR 0x0A]) = [''COG_TEMPLATE: t'', ''x'']" by code_simp
  have "set ((\<lambda>i. if even i then matchers else rev matchers) i) = set matchers" for i :: nat by simp
  from Output_Parse_protocol [OF this] show ?thesis
    by (simp add: protocol_response_def lines [simplified] Let_def template_from_def aborts_def is_directive_def
      directive_prefixes_def log_of_def log_prefixes_def trim_char_def empty_response_def)
qed

text \<open>
  Plain output arrives unchanged. If a command succeeds and no line of its output is a
  directive, the lines of the response body joined by newlines are the output without its last
  newline, and the status is ok.
\<close>

theorem plain_output_roundtrip:
  assumes "\<And>i. set (ord i) = set matchers" and "Success result = Some True" and "Stdout result \<noteq> []"
    and "\<forall>l \<in> set (output_lines (Stdout result)). \<not> is_directive l"
  shows "\<exists>ls. Body (fst (Output_Parse ord decode result req None)) = text_body ls \<and>
      join_with (CHR 0x0A) ls = trim_suffix (Stdout result) [CHR 0x0A] \<and>
      Status (fst (Output_Parse ord decode result req None)) = ''ok''"
proof -
  let ?ls = "output_lines (Stdout result)"
  have c: "content_lines ?ls = ?ls" using assms(4) by (intro content_lines_all) auto
  have "?ls \<noteq> []" "join_with (CHR 0x0A) ?ls = trim_suffix (Stdout result) [CHR 0x0A]"
    using assms(3) by (auto simp: output_lines_def join_split_on)
  moreover have "''JSON'' \<notin> set ?ls" using assms(4) by (auto simp: is_directive_def)
  moreover have "\<not> aborts ?ls"
    using assms(4)
    by (auto simp: aborts_def is_directive_def directive_prefixes_def list_ex_iff head_lines_def dest: set_takeWhileD)
  ultimately show ?thesis
    using assms(2) c by (intro exI [of _ ?ls]) (simp add: Output_Parse_spec [OF assms(1)] protocol_response_def Let_def)
qed

theorem plain_output_roundtrip_witness:
  "\<exists>ls. Body (fst (Output_Parse (\<lambda>_. matchers) (\<lambda>_. Inl []) \<lparr>Stdout = ''ab'' @ [CHR 0x0A], Stderr = [],
      Success = Some True, Elapsed = None\<rparr> sample_request None)) = text_body ls \<and> join_with (CHR 0x0A) ls = ''ab''"
proof -
  have "output_lines (''ab'' @ [CHR 0x0A]) = [''ab'']" and t: "trim_suffix (''ab'' @ [CHR 0x0A]) [CHR 0x0A] = ''ab''" by code_simp+
  then have "\<forall>l \<in> set (output_lines (Stdout \<lparr>Stdout = ''ab'' @ [CHR 0x0A], Stderr = [], Success = Some True, Elapsed = None\<rparr>)). \<not> is_directive l"
    by (simp add: is_directive_def directive_prefixes_def)
  from plain_output_roundtrip [OF refl _ _ this, where req = sample_request and decode = "\<lambda>_. Inl []"] t
  show ?thesis by auto
qed

end
