(* ===== verification/Env_Cache.thy ===== *)
theory Env_Cache
  imports Relay_Prelude
begin

text \<open>
  The cache of execution environments, \<^verbatim>\<open>relay/engines/env_cache.go\<close>. An environment is an
  object that the code compares by identity, so it is a number here. \<^verbatim>\<open>time.Now()\<close> is an
  argument, in nanoseconds. The mutex makes each operation one step.
\<close>

section \<open>The model\<close>

type_synonym env_id = nat

definition oldAge :: int where
  "oldAge = 10 * 10 ^ 9"

record cacheEntry =
  ce_env :: env_id
  inUse :: bool
  lastUsed :: int

record envCache =
  envs :: "string \<rightharpoonup> cacheEntry"

definition newEnvCache :: envCache where
  "newEnvCache = \<lparr>envs = Map.empty\<rparr>"

definition cache_get :: "string \<Rightarrow> int \<Rightarrow> envCache \<Rightarrow> env_id option \<times> envCache" where
  "cache_get key now ec =
     (case envs ec key of
        Some retval \<Rightarrow>
          if \<not> inUse retval
          then (Some (ce_env retval), ec\<lparr>envs := (envs ec)(key \<mapsto> retval\<lparr>inUse := True, lastUsed := now\<rparr>)\<rparr>)
          else (None, ec)
      | None \<Rightarrow> (None, ec))"

definition cache_put :: "string \<Rightarrow> env_id \<Rightarrow> int \<Rightarrow> envCache \<Rightarrow> bool \<times> envCache" where
  "cache_put key env now ec =
     (case envs ec key of
        None \<Rightarrow> (True, ec\<lparr>envs := (envs ec)(key \<mapsto> \<lparr>ce_env = env, inUse = False, lastUsed = now\<rparr>)\<rparr>)
      | Some entry \<Rightarrow>
          if ce_env entry \<noteq> env then (False, ec)
          else (True, ec\<lparr>envs := (envs ec)(key \<mapsto> entry\<lparr>inUse := False\<rparr>)\<rparr>))"

text \<open>The loop of \<^verbatim>\<open>getOld\<close>, over the keys in the order the run-time picks.\<close>

fun getOld_loop :: "string list \<Rightarrow> int \<Rightarrow> envCache \<times> env_id list \<Rightarrow> envCache \<times> env_id list" where
  "getOld_loop [] now st = st"
| "getOld_loop (key # keys) now (ec, retval) =
     getOld_loop keys now
       (case envs ec key of
          None \<Rightarrow> (ec, retval)
        | Some value \<Rightarrow>
            if \<not> inUse value \<and> now - lastUsed value > oldAge
            then (ec\<lparr>envs := map_delete key (envs ec)\<rparr>, retval @ [ce_env value])
            else (ec, retval))"

definition getOld :: "string list \<Rightarrow> int \<Rightarrow> envCache \<Rightarrow> env_id list \<times> envCache" where
  "getOld ord now ec = (let (ec', retval) = getOld_loop ord now (ec, []) in (retval, ec'))"

section \<open>Laws\<close>

definition expired :: "int \<Rightarrow> cacheEntry \<Rightarrow> bool" where
  "expired now e \<longleftrightarrow> \<not> inUse e \<and> now - lastUsed e > oldAge"

definition sweep :: "int \<Rightarrow> (string \<rightharpoonup> cacheEntry) \<Rightarrow> (string \<rightharpoonup> cacheEntry)" where
  "sweep now m = (\<lambda>k. case m k of Some e \<Rightarrow> if expired now e then None else Some e | None \<Rightarrow> None)"

definition old_envs :: "int \<Rightarrow> (string \<rightharpoonup> cacheEntry) \<Rightarrow> string list \<Rightarrow> env_id list" where
  "old_envs now m ks = concat (map (\<lambda>k. case m k of Some e \<Rightarrow> if expired now e then [ce_env e] else [] | None \<Rightarrow> []) ks)"

lemma getOld_loop_spec:
  "distinct ks \<Longrightarrow> getOld_loop ks now (ec, r) =
     (ec\<lparr>envs := (\<lambda>k. if k \<in> set ks then sweep now (envs ec) k else envs ec k)\<rparr>, r @ old_envs now (envs ec) ks)"
proof (induction ks arbitrary: ec r)
  case Nil
  then show ?case by (simp add: old_envs_def)
next
  case (Cons k ks)
  have old: "old_envs now (m(k := v)) ks = old_envs now m ks" for m v
    using Cons.prems unfolding old_envs_def by (intro arg_cong [where f = concat] map_cong) auto
  show ?case
  proof (cases "\<exists>e. envs ec k = Some e \<and> expired now e")
    case True
    then obtain e where e: "envs ec k = Some e" "expired now e" by blast
    with Cons show ?thesis
      by (simp add: old old_envs_def [of now "envs ec" "k # ks"] old_envs_def [symmetric])
         (auto simp: expired_def sweep_def fun_eq_iff old_envs_def)
  next
    case False
    then have "getOld_loop (k # ks) now (ec, r) = getOld_loop ks now (ec, r)"
      by (auto simp: expired_def split: option.splits)
    moreover have "sweep now (envs ec) k = envs ec k" and "old_envs now (envs ec) (k # ks) = old_envs now (envs ec) ks"
      using False by (auto simp: sweep_def old_envs_def split: option.splits)
    ultimately show ?thesis using Cons by (auto simp: fun_eq_iff)
  qed
qed

lemma getOld_spec:
  assumes "range_order (envs ec) ord"
  shows "getOld ord now ec = (old_envs now (envs ec) ord, ec\<lparr>envs := sweep now (envs ec)\<rparr>)"
proof -
  have "(\<lambda>k. if k \<in> set ord then sweep now (envs ec) k else envs ec k) = sweep now (envs ec)"
    using assms by (auto simp: range_order_def sweep_def fun_eq_iff split: option.splits)
  then show ?thesis using assms by (simp add: getOld_def getOld_loop_spec range_order_def)
qed

lemma set_old_envs: "set (old_envs now m ks) = {ce_env e | e k. k \<in> set ks \<and> m k = Some e \<and> expired now e}"
proof -
  have "x \<in> set (old_envs now m ks) \<longleftrightarrow> (\<exists>k \<in> set ks. \<exists>e. m k = Some e \<and> expired now e \<and> x = ce_env e)" for x
    by (force simp: old_envs_def split: option.splits if_splits)
  then show ?thesis by blast
qed

text \<open>A run of the cache's operations, by any interleaving of its clients.\<close>

datatype cache_op =
    OpGet string int
  | OpPut string env_id int
  | OpOld "string list" int

fun run_op :: "cache_op \<Rightarrow> envCache \<Rightarrow> envCache" where
  "run_op (OpGet key now) ec = snd (cache_get key now ec)"
| "run_op (OpPut key env now) ec = snd (cache_put key env now ec)"
| "run_op (OpOld ord now) ec = snd (getOld ord now ec)"

definition leased_entry :: "string \<Rightarrow> env_id \<Rightarrow> envCache \<Rightarrow> bool" where
  "leased_entry key env ec \<longleftrightarrow> (\<exists>e. envs ec key = Some e \<and> ce_env e = env \<and> inUse e)"

lemma getOld_loop_leased:
  "leased_entry key env (fst st) \<Longrightarrow> leased_entry key env (fst (getOld_loop ks now st))"
proof (induction ks now st rule: getOld_loop.induct)
  case (2 k ks now ec r)
  show ?case
    unfolding getOld_loop.simps
    by (rule "2.IH") (use "2.prems" in \<open>auto simp: leased_entry_def split: option.splits\<close>)
qed simp

lemma run_op_leased:
  assumes "leased_entry key env ec" and "\<And>now. op \<noteq> OpPut key env now"
  shows "leased_entry key env (run_op op ec)"
proof (cases op)
  case (OpGet k now)
  then show ?thesis using assms(1) by (auto simp: leased_entry_def cache_get_def split: option.splits)
next
  case (OpPut k e now)
  then have "k \<noteq> key \<or> e \<noteq> env" using assms(2) by blast
  then show ?thesis using assms(1) OpPut by (auto simp: leased_entry_def cache_put_def split: option.splits)
next
  case (OpOld ord now)
  then show ?thesis
    using getOld_loop_leased [of key env "(ec, [])" ord now] assms(1) by (simp add: getOld_def split_beta)
qed

section \<open>Properties\<close>

text \<open>
  A cached environment has one user at a time. Once \<^verbatim>\<open>get\<close> has handed out the
  environment of a key, no later \<^verbatim>\<open>get\<close> of this key hands out anything, whatever other
  operations run in between, clean-ups included, until it is put back.
\<close>

theorem cached_environment_exclusive:
  assumes "cache_get key now ec = (Some env, ec1)"
    and "\<forall>op \<in> set ops. \<forall>t. op \<noteq> OpPut key env t"
  shows "fst (cache_get key now' (fold run_op ops ec1)) = None"
proof -
  have "leased_entry key env ec1"
    using assms(1) by (auto simp: cache_get_def leased_entry_def split: option.splits if_splits)
  then have "leased_entry key env (fold run_op ops ec1)"
    using assms(2) by (induction ops arbitrary: ec1) (auto intro: run_op_leased)
  then show ?thesis by (auto simp: leased_entry_def cache_get_def)
qed

theorem cached_environment_exclusive_witness:
  "fst (cache_get ''k'' 9 (fold run_op [OpGet ''k'' 2, OpOld [''k''] (2 * oldAge), OpPut ''k'' 8 3]
     (snd (cache_get ''k'' 1 (snd (cache_put ''k'' 7 0 newEnvCache)))))) = None"
  by (rule cached_environment_exclusive [where env = 7 and now = 1 and ec = "snd (cache_put ''k'' 7 0 newEnvCache)"])
     (simp_all add: cache_get_def cache_put_def newEnvCache_def)

text \<open>
  The clean-up takes out of the cache exactly the environments that nobody uses and
  that were last handed out or first stored more than ten seconds ago, returns those and no
  others, and leaves every other entry as it is, in whatever order it visits the entries.
\<close>

theorem getOld_evicts_idle:
  assumes "range_order (envs ec) ord"
  shows "set (fst (getOld ord now ec)) =
      {ce_env e | e. e \<in> ran (envs ec) \<and> \<not> inUse e \<and> now - lastUsed e > 10000000000} \<and>
    envs (snd (getOld ord now ec)) k =
      (case envs ec k of
         Some e \<Rightarrow> if \<not> inUse e \<and> now - lastUsed e > 10000000000 then None else Some e
       | None \<Rightarrow> None)"
  using assms
  by (auto simp: getOld_spec set_old_envs sweep_def expired_def oldAge_def range_order_def ran_def split: option.splits)

theorem getOld_evicts_idle_witness:
  "set (fst (getOld [''k''] (2 * oldAge) (snd (cache_put ''k'' 7 0 newEnvCache)))) = {7}"
proof -
  let ?ec = "snd (cache_put ''k'' 7 0 newEnvCache)"
  have envs: "envs ?ec = [''k'' \<mapsto> \<lparr>ce_env = 7, inUse = False, lastUsed = 0\<rparr>]"
    by (simp add: cache_put_def newEnvCache_def)
  then have "range_order (envs ?ec) [''k'']" by (simp add: range_order_def)
  from getOld_evicts_idle [OF this] show ?thesis by (auto simp: envs oldAge_def)
qed

text \<open>
  What releasing does. A released environment is the one the next \<^verbatim>\<open>get\<close> of the key
  hands out, unless the key holds a different environment; in that case nothing changes and the
  caller is told to shut its environment down.
\<close>

theorem cache_put_get:
  "case cache_put key env now ec of
     (True, ec') \<Rightarrow> fst (cache_get key now' ec') = Some env \<and> (\<forall>k. k \<noteq> key \<longrightarrow> envs ec' k = envs ec k)
   | (False, ec') \<Rightarrow> ec' = ec \<and> (\<exists>e. envs ec key = Some e \<and> ce_env e \<noteq> env)"
  by (auto simp: cache_put_def cache_get_def split: option.splits)

theorem cache_put_get_witness:
  "fst (cache_get ''k'' 1 (snd (cache_put ''k'' 7 0 newEnvCache))) = Some 7"
  using cache_put_get [where key = "''k''" and env = 7 and now = 0 and ec = newEnvCache and now' = 1] by (simp add: cache_put_def newEnvCache_def)

end
