(* ===== verification/Circuit_Env.thy ===== *)
theory Circuit_Env
  imports Output_Parser Env_Cache
begin

text \<open>
  Execution environments, \<^verbatim>\<open>vendor/github.com/operable/circuit\<close>, and the version comparison of
  the Docker client library, \<^verbatim>\<open>docker/api/types/versions/compare.go\<close>. The environments are
  objects in a store. The Docker daemon and its client, the process that runs a command and the
  process environment are reached through a record of functions over an abstract state of the
  outside world; the type \<open>'c\<close> stands for a client connection.
\<close>

section \<open>Computations with state\<close>

text \<open>
  A Go function that reads and changes a state and may panic. \<open>go_then\<close> runs one after the
  other; a panic ends the whole computation.
\<close>

type_synonym ('s, 'a) go_m = "'s \<Rightarrow> ('a \<times> 's) go_result"

definition go_return :: "'a \<Rightarrow> ('s, 'a) go_m" where
  "go_return x = (\<lambda>s. Ret (x, s))"

definition go_then :: "('s, 'a) go_m \<Rightarrow> ('a \<Rightarrow> ('s, 'b) go_m) \<Rightarrow> ('s, 'b) go_m" where
  "go_then m f = (\<lambda>s. case m s of Ret (x, s') \<Rightarrow> f x s' | Panic p \<Rightarrow> Panic p)"

definition go_lift :: "'a go_result \<Rightarrow> ('s, 'a) go_m" where
  "go_lift r = (\<lambda>s. case r of Ret x \<Rightarrow> Ret (x, s) | Panic p \<Rightarrow> Panic p)"

text \<open>The loop over a slice.\<close>

fun go_foreach :: "('a \<Rightarrow> 'b \<Rightarrow> ('s, 'b) go_m) \<Rightarrow> 'a list \<Rightarrow> 'b \<Rightarrow> ('s, 'b) go_m" where
  "go_foreach f [] acc = go_return acc"
| "go_foreach f (x # xs) acc = go_then (f x acc) (go_foreach f xs)"

lemma go_return_apply [simp]: "go_return x s = Ret (x, s)"
  by (simp add: go_return_def)

lemma go_then_Ret_iff [simp]:
  "go_then m f s = Ret (y, t) \<longleftrightarrow> (\<exists>x s'. m s = Ret (x, s') \<and> f x s' = Ret (y, t))"
  by (auto simp: go_then_def split: go_result.splits)

lemma go_lift_Ret_iff [simp]: "go_lift r s = Ret (x, t) \<longleftrightarrow> r = Ret x \<and> t = s"
  by (auto simp: go_lift_def split: go_result.splits)

section \<open>Version comparison\<close>

definition atoi :: "string \<Rightarrow> int" where
  "atoi s = fst (parse_int64 s)"

fun compare_tabs :: "string list \<Rightarrow> string list \<Rightarrow> int" where
  "compare_tabs [] [] = 0"
| "compare_tabs (x # xs) [] = (if atoi x > 0 then 1 else if 0 > atoi x then - 1 else compare_tabs xs [])"
| "compare_tabs [] (y # ys) = (if 0 > atoi y then 1 else if atoi y > 0 then - 1 else compare_tabs [] ys)"
| "compare_tabs (x # xs) (y # ys) =
     (if atoi x > atoi y then 1 else if atoi y > atoi x then - 1 else compare_tabs xs ys)"

definition version_compare :: "string \<Rightarrow> string \<Rightarrow> int" where
  "version_compare v1 v2 = compare_tabs (split_on (CHR ''.'') v1) (split_on (CHR ''.'') v2)"

definition version_LessThan :: "string \<Rightarrow> string \<Rightarrow> bool" where
  "version_LessThan v other \<longleftrightarrow> version_compare v other = - 1"

text \<open>
  Padding with zeros makes the tables equally long, and the comparison is the lexicographic
  one.
\<close>

lemma compare_tabs_refl [simp]: "compare_tabs xs xs = 0"
  by (induction xs) auto

lemma compare_tabs_antisym: "compare_tabs xs ys = - compare_tabs ys xs"
  by (induction xs ys rule: compare_tabs.induct) auto

lemma compare_tabs_trans:
  "compare_tabs xs ys = - 1 \<Longrightarrow> compare_tabs ys zs = - 1 \<Longrightarrow> compare_tabs xs zs = - 1"
proof (induction xs ys arbitrary: zs rule: compare_tabs.induct)
  case 1
  then show ?case by simp
next
  case (2 x xs)
  show ?case using "2.prems" "2.IH" [of "tl zs"] by (cases zs) (auto split: if_splits)
next
  case (3 y ys)
  show ?case using "3.prems" "3.IH" [of "tl zs"] by (cases zs) (auto split: if_splits)
next
  case (4 x xs y ys)
  show ?case using "4.prems" "4.IH" [of "tl zs"] by (cases zs) (auto split: if_splits)
qed

lemma version_LessThan_irrefl [simp]: "\<not> version_LessThan v v"
  by (simp add: version_LessThan_def version_compare_def)

section \<open>The outside world\<close>

record container_spec =
  cs_Image :: string
  cs_Cmd :: "string list"
  cs_OpenStdin :: bool
  cs_Privileged :: bool
  cs_VolumesFrom :: "string list"
  cs_Binds :: "string list"
  cs_Memory :: "64 word"
  cs_Labels :: "string \<rightharpoonup> string"

record AuthConfig =
  ServerAddress :: string
  auth_Username :: string
  Password :: string
  auth_Email :: string

datatype EnvironmentKind = NativeKind | DockerKind

record 'c environment =
  e_Kind :: EnvironmentKind
  e_Bundle :: string
  e_Conn :: "'c option"
  e_Image :: string
  e_Tag :: string
  e_containerID :: string
  e_userData :: "(string \<rightharpoonup> go_value) option"
  e_isDead :: bool

record ('c, 'w) outside =
  Getenv :: "string \<Rightarrow> string"
  DefaultVersion :: string
  NewEnvClient :: "'w \<Rightarrow> (error + 'c) \<times> 'w"
  NewClient :: "string \<Rightarrow> string \<Rightarrow> 'w \<Rightarrow> (error + 'c) \<times> 'w"
  Ping :: "'c \<Rightarrow> 'w \<Rightarrow> (error + string) \<times> 'w"
  ClientVersion :: "'c \<Rightarrow> string"
  UpdateClientVersion :: "string \<Rightarrow> 'c \<Rightarrow> 'c"
  ImageInspectWithRaw :: "'c \<Rightarrow> string \<Rightarrow> 'w \<Rightarrow> (string \<times> error option) \<times> 'w"
  ImagePull :: "'c \<Rightarrow> string \<Rightarrow> string \<Rightarrow> 'w \<Rightarrow> error option \<times> 'w"
  ImageRemove :: "'c \<Rightarrow> string \<Rightarrow> 'w \<Rightarrow> error option \<times> 'w"
  ContainerCreate :: "'c \<Rightarrow> container_spec \<Rightarrow> string \<Rightarrow> 'w \<Rightarrow> (error + string) \<times> 'w"
  ContainerStart :: "'c \<Rightarrow> string \<Rightarrow> 'w \<Rightarrow> error option \<times> 'w"
  ContainerRemove :: "'c \<Rightarrow> string \<Rightarrow> 'w \<Rightarrow> error option \<times> 'w"
  ContainerList :: "'c \<Rightarrow> (string \<times> string) list \<Rightarrow> 'w \<Rightarrow> (error + string list) \<times> 'w"
  RegistryLogin :: "'c \<Rightarrow> AuthConfig \<Rightarrow> 'w \<Rightarrow> error option \<times> 'w"
  EncodeAuth :: "AuthConfig \<Rightarrow> error + string"
  DriverRun :: "'c environment \<Rightarrow> ExecRequest \<Rightarrow> 'w \<Rightarrow> ExecResult \<times> 'w"

text \<open>
  The state the engines share: the cache, the store of environments with the next unused
  identity, and the outside world.
\<close>

record ('c, 'w) engine_world =
  ew_cache :: envCache
  ew_envs :: "env_id \<rightharpoonup> 'c environment"
  ew_next :: env_id
  ew_outside :: 'w

section \<open>Environments\<close>

definition ErrorDeadEnvironment :: error where
  "ErrorDeadEnvironment = ''Dead environment''"

record 'c CreateEnvironmentOptions =
  opt_Kind :: EnvironmentKind
  opt_Bundle :: string
  opt_Conn :: "'c option"
  opt_Image :: string
  opt_Tag :: string
  opt_Binds :: "string list"
  opt_DriverInstance :: string
  opt_DriverPath :: string
  opt_Memory :: "64 word"

text \<open>A new object in the store.\<close>

definition alloc_env :: "'c environment \<Rightarrow> ('c, 'w) engine_world \<Rightarrow> env_id \<times> ('c, 'w) engine_world" where
  "alloc_env e w = (ew_next w, w\<lparr>ew_envs := (ew_envs w)(ew_next w \<mapsto> e), ew_next := Suc (ew_next w)\<rparr>)"

definition native_init :: "'c CreateEnvironmentOptions \<Rightarrow> ('c, 'w) engine_world \<Rightarrow> (error + env_id) \<times> ('c, 'w) engine_world" where
  "native_init options w =
     (let (i, w') = alloc_env \<lparr>e_Kind = NativeKind, e_Bundle = opt_Bundle options, e_Conn = None, e_Image = [], e_Tag = [],
            e_containerID = [], e_userData = None, e_isDead = False\<rparr> w
      in (Inr i, w'))"

definition docker_spec :: "'c CreateEnvironmentOptions \<Rightarrow> container_spec" where
  "docker_spec options =
     \<lparr>cs_Image = opt_Image options @ '':'' @ opt_Tag options, cs_Cmd = [opt_DriverPath options], cs_OpenStdin = True,
      cs_Privileged = False, cs_VolumesFrom = [opt_DriverInstance options], cs_Binds = opt_Binds options,
      cs_Memory = opt_Memory options * 1024 * 1024, cs_Labels = Map.empty\<rparr>"

definition docker_init ::
    "('c, 'w) outside \<Rightarrow> 'c CreateEnvironmentOptions \<Rightarrow> 'c \<Rightarrow> ('c, 'w) engine_world \<Rightarrow> (error + env_id) \<times> ('c, 'w) engine_world" where
  "docker_init os options conn w =
     (case ContainerCreate os conn (docker_spec options) [] (ew_outside w) of
        (Inl e, o1) \<Rightarrow> (Inl e, w\<lparr>ew_outside := o1\<rparr>)
      | (Inr containerID, o1) \<Rightarrow>
          (case ContainerStart os conn containerID o1 of
             (Some e, o2) \<Rightarrow> (Inl e, w\<lparr>ew_outside := o2\<rparr>)
           | (None, o2) \<Rightarrow>
               let (i, w') = alloc_env \<lparr>e_Kind = DockerKind, e_Bundle = opt_Bundle options, e_Conn = Some conn,
                      e_Image = opt_Image options, e_Tag = opt_Tag options, e_containerID = containerID,
                      e_userData = None, e_isDead = False\<rparr> (w\<lparr>ew_outside := o2\<rparr>)
               in (Inr i, w')))"

definition CreateEnvironment ::
    "('c, 'w) outside \<Rightarrow> 'c CreateEnvironmentOptions \<Rightarrow> (('c, 'w) engine_world, error + env_id) go_m" where
  "CreateEnvironment os options w =
     (case opt_Kind options of
        NativeKind \<Rightarrow> Ret (native_init options w)
      | DockerKind \<Rightarrow>
          (case opt_Conn options of
             None \<Rightarrow> Panic ''nil client''
           | Some conn \<Rightarrow> Ret (docker_init os options conn w)))"

definition env_GetUserData :: "'c environment \<Rightarrow> error + (string \<rightharpoonup> go_value) option" where
  "env_GetUserData e = (if e_isDead e then Inl ErrorDeadEnvironment else Inr (e_userData e))"

definition env_SetUserData :: "(string \<rightharpoonup> go_value) \<Rightarrow> 'c environment \<Rightarrow> error option \<times> 'c environment" where
  "env_SetUserData data e =
     (if e_isDead e then (Some ErrorDeadEnvironment, e) else (None, e\<lparr>e_userData := Some data\<rparr>))"

definition env_GetMetadata :: "'c environment \<Rightarrow> (string \<rightharpoonup> string)" where
  "env_GetMetadata e =
     (case e_Kind e of
        NativeKind \<Rightarrow> [''bundle'' \<mapsto> e_Bundle e]
      | DockerKind \<Rightarrow> [''bundle'' \<mapsto> e_Bundle e, ''image'' \<mapsto> e_Image e, ''tag'' \<mapsto> e_Tag e, ''container'' \<mapsto> e_containerID e])"

definition env_Run :: "('c, 'w) outside \<Rightarrow> ExecRequest \<Rightarrow> 'c environment \<Rightarrow> 'w \<Rightarrow> (ExecResult \<times> error option) \<times> 'w" where
  "env_Run os request e w =
     (if e_isDead e then ((EmptyExecResult, Some ErrorDeadEnvironment), w)
      else let (result, w') = DriverRun os e request w in ((result, None), w'))"

definition env_Shutdown :: "('c, 'w) outside \<Rightarrow> 'c environment \<Rightarrow> 'w \<Rightarrow> error option \<times> 'c environment \<times> 'w" where
  "env_Shutdown os e w =
     (if e_isDead e then (Some ErrorDeadEnvironment, e, w)
      else case e_Kind e of
        NativeKind \<Rightarrow> (None, e\<lparr>e_isDead := True\<rparr>, w)
      | DockerKind \<Rightarrow>
          (case e_Conn e of
             None \<Rightarrow> (None, e\<lparr>e_isDead := True\<rparr>, w)
           | Some conn \<Rightarrow> let (err, w') = ContainerRemove os conn (e_containerID e) w in (err, e\<lparr>e_isDead := True\<rparr>, w')))"

text \<open>The methods on an object of the store.\<close>

definition shutdown_env :: "('c, 'w) outside \<Rightarrow> env_id \<Rightarrow> (('c, 'w) engine_world, error option) go_m" where
  "shutdown_env os i w =
     (case ew_envs w i of
        None \<Rightarrow> Panic ''nil environment''
      | Some e \<Rightarrow>
          let (err, e', o') = env_Shutdown os e (ew_outside w)
          in Ret (err, w\<lparr>ew_envs := (ew_envs w)(i \<mapsto> e'), ew_outside := o'\<rparr>))"

definition get_user_data :: "env_id \<Rightarrow> (('c, 'w) engine_world, error + (string \<rightharpoonup> go_value) option) go_m" where
  "get_user_data i w =
     (case ew_envs w i of
        None \<Rightarrow> Panic ''nil environment''
      | Some e \<Rightarrow> Ret (env_GetUserData e, w))"

definition set_user_data :: "env_id \<Rightarrow> (string \<rightharpoonup> go_value) \<Rightarrow> (('c, 'w) engine_world, error option) go_m" where
  "set_user_data i data w =
     (case ew_envs w i of
        None \<Rightarrow> Panic ''nil environment''
      | Some e \<Rightarrow> let (err, e') = env_SetUserData data e in Ret (err, w\<lparr>ew_envs := (ew_envs w)(i \<mapsto> e')\<rparr>))"

definition run_env :: "('c, 'w) outside \<Rightarrow> env_id \<Rightarrow> ExecRequest \<Rightarrow> (('c, 'w) engine_world, ExecResult \<times> error option) go_m" where
  "run_env os i request w =
     (case ew_envs w i of
        None \<Rightarrow> Panic ''nil environment''
      | Some e \<Rightarrow> let (r, o') = env_Run os request e (ew_outside w) in Ret (r, w\<lparr>ew_outside := o'\<rparr>))"

section \<open>Laws\<close>

definition alive :: "('c, 'w) engine_world \<Rightarrow> env_id \<Rightarrow> bool" where
  "alive w i \<longleftrightarrow> (\<exists>e. ew_envs w i = Some e \<and> \<not> e_isDead e)"

definition ids_bounded :: "('c, 'w) engine_world \<Rightarrow> bool" where
  "ids_bounded w \<longleftrightarrow> (\<forall>i \<in> dom (ew_envs w). i < ew_next w)"

lemma alive_bounded: "ids_bounded w \<Longrightarrow> alive w i \<Longrightarrow> i < ew_next w"
  by (auto simp: alive_def ids_bounded_def)

lemma env_Shutdown_dead: "env_Shutdown os e w = (err, e', w') \<Longrightarrow> e_isDead e'"
  by (auto simp: env_Shutdown_def split: if_splits EnvironmentKind.splits option.splits prod.splits)

lemma shutdown_env_Ret:
  assumes "shutdown_env os i w = Ret (err, w')"
  shows "alive w' j \<longleftrightarrow> alive w j \<and> j \<noteq> i" "ids_bounded w \<Longrightarrow> ids_bounded w'" "ew_cache w' = ew_cache w"
    "ew_next w' = ew_next w" "dom (ew_envs w') = dom (ew_envs w)"
  using assms
  by (auto simp: shutdown_env_def alive_def ids_bounded_def dest: env_Shutdown_dead split: option.splits prod.splits if_splits)

lemma shutdown_env_total: "ew_envs w i = Some e \<Longrightarrow> \<exists>err w'. shutdown_env os i w = Ret (err, w')"
  by (simp add: shutdown_env_def split_beta)

text \<open>A successful creation gives a live object that did not exist before; a failed one gives none.\<close>

lemma CreateEnvironment_Ret:
  assumes "CreateEnvironment os options w = Ret (r, w')" and "ids_bounded w"
  shows "case r of
      Inr i \<Rightarrow> i = ew_next w \<and> alive w' i \<and> (\<forall>j. alive w' j \<longleftrightarrow> alive w j \<or> j = i) \<and> ids_bounded w' \<and> ew_cache w' = ew_cache w
    | Inl e \<Rightarrow> (\<forall>j. alive w' j \<longleftrightarrow> alive w j) \<and> ids_bounded w' \<and> ew_cache w' = ew_cache w \<and> ew_next w' = ew_next w"
  using assms
  by (auto simp: CreateEnvironment_def native_init_def docker_init_def alloc_env_def alive_def ids_bounded_def Let_def
    less_Suc_eq split: EnvironmentKind.splits option.splits sum.splits prod.splits if_splits)

text \<open>Using an environment neither creates nor ends one.\<close>

definition same_lives :: "('c, 'w) engine_world \<Rightarrow> ('c, 'w) engine_world \<Rightarrow> bool" where
  "same_lives w w' \<longleftrightarrow> ew_cache w' = ew_cache w \<and> (\<forall>i. alive w' i \<longleftrightarrow> alive w i) \<and> (ids_bounded w \<longrightarrow> ids_bounded w')"

lemma set_user_data_lives: "set_user_data i d w = Ret (err, w') \<Longrightarrow> same_lives w w'"
  by (auto simp: set_user_data_def env_SetUserData_def same_lives_def alive_def ids_bounded_def Let_def split: option.splits if_splits prod.splits)

lemma run_env_lives: "run_env os i r w = Ret (x, w') \<Longrightarrow> same_lives w w'"
  by (auto simp: run_env_def same_lives_def alive_def ids_bounded_def Let_def split: option.splits prod.splits)

lemma run_env_alive:
  assumes "alive w i"
  shows "\<exists>result w'. run_env os i r w = Ret ((result, None), w')"
  using assms by (auto simp: alive_def run_env_def env_Run_def split: prod.splits)

lemma set_user_data_alive: "alive w i \<Longrightarrow> \<exists>w'. set_user_data i d w = Ret (None, w')"
  by (auto simp: alive_def set_user_data_def env_SetUserData_def)

lemma get_user_data_alive: "alive w i \<Longrightarrow> \<exists>d. get_user_data i w = Ret (Inr d, w)"
  by (auto simp: alive_def get_user_data_def env_GetUserData_def)

end
