(* ===== verification/Exec_Engines.thy ===== *)
theory Exec_Engines
  imports Circuit_Env
begin

text \<open>
  The execution engines, \<^verbatim>\<open>relay/engines/{engines,native,docker}.go\<close>. An engine is created
  for each use; what outlives it is the shared world of \<^verbatim>\<open>Circuit_Env\<close>: the cache, the
  environments and the outside world. \<^verbatim>\<open>time.Now()\<close> is an argument.
\<close>

section \<open>The Docker engine\<close>

definition megabyte :: "64 word" where
  "megabyte = 1024 * 1024"

definition relayCreatedLabel :: string where
  "relayCreatedLabel = ''io.operable.cog.relay.create''"

definition errorDriverImageUnavailable :: error where
  "errorDriverImageUnavailable = ''Command driver image is unavailable''"

definition driverImage :: string where
  "driverImage = ''operable/circuit-driver''"

record 'c DockerEngine =
  de_client :: "'c option"
  de_relayConfig :: Config
  de_config :: DockerInfo
  de_auth :: string

definition NewDockerEngine :: "Config \<Rightarrow> 'c DockerEngine go_result" where
  "NewDockerEngine relayConfig =
     (case cfg_Docker relayConfig of
        None \<Rightarrow> Panic ''nil docker configuration''
      | Some dockerConfig \<Rightarrow>
          Ret \<lparr>de_client = None, de_relayConfig = relayConfig, de_config = dockerConfig, de_auth = []\<rparr>)"

definition newClient :: "('c, 'w) outside \<Rightarrow> DockerInfo \<Rightarrow> 'w \<Rightarrow> (error + 'c) \<times> 'w" where
  "newClient os dockerConfig w =
     (case (if UseEnv dockerConfig then NewEnvClient os w
            else let v = Getenv os ''DOCKER_API_VERSION'';
                     dockerAPIVersion = (if v = [] then DefaultVersion os else v)
                 in NewClient os (SocketPath dockerConfig) dockerAPIVersion w) of
        (Inl e, w1) \<Rightarrow> (Inl e, w1)
      | (Inr c, w1) \<Rightarrow>
          (case Ping os c w1 of
             (Inl e, w2) \<Rightarrow> (Inr c, w2)
           | (Inr v, w2) \<Rightarrow>
               let apiVersion = (if v = [] then ''1.24'' else v)
               in (Inr (if version_LessThan apiVersion (ClientVersion os c)
                        then UpdateClientVersion os apiVersion c else c), w2)))"

text \<open>Reading the engine's fields, and calls on its client or on the shared world.\<close>

type_synonym ('c, 'w, 'a) engine_m = "('c DockerEngine \<times> ('c, 'w) engine_world, 'a) go_m"

definition get_engine :: "('c, 'w, 'c DockerEngine) engine_m" where
  "get_engine = (\<lambda>(de, w). Ret (de, (de, w)))"

definition on_outside :: "('w \<Rightarrow> 'a \<times> 'w) \<Rightarrow> ('c, 'w, 'a) engine_m" where
  "on_outside f = (\<lambda>(de, w). let (x, o') = f (ew_outside w) in Ret (x, (de, w\<lparr>ew_outside := o'\<rparr>)))"

definition with_client :: "('c \<Rightarrow> 'w \<Rightarrow> 'a \<times> 'w) \<Rightarrow> ('c, 'w, 'a) engine_m" where
  "with_client f = (\<lambda>(de, w).
     case de_client de of None \<Rightarrow> Panic ''nil client'' | Some c \<Rightarrow> on_outside (f c) (de, w))"

definition on_world :: "(('c, 'w) engine_world, 'a) go_m \<Rightarrow> ('c, 'w, 'a) engine_m" where
  "on_world m = (\<lambda>(de, w). case m w of Ret (x, w') \<Rightarrow> Ret (x, (de, w')) | Panic p \<Rightarrow> Panic p)"

definition ensureConnected :: "('c, 'w) outside \<Rightarrow> ('c, 'w, error option) engine_m" where
  "ensureConnected os = (\<lambda>(de, w).
     if de_client de = None
     then (case newClient os (de_config de) (ew_outside w) of
             (Inl e, o') \<Rightarrow> Ret (Some e, (de, w\<lparr>ew_outside := o'\<rparr>))
           | (Inr c, o') \<Rightarrow> Ret (None, (de\<lparr>de_client := Some c\<rparr>, w\<lparr>ew_outside := o'\<rparr>)))
     else Ret (None, (de, w)))"

definition shortContainerID :: "string \<Rightarrow> string go_result" where
  "shortContainerID containerID =
     (if length containerID < 12 then Panic ''slice bounds out of range''
      else Ret (drop (length containerID - 12) containerID))"

definition shortImageID :: "string \<Rightarrow> string go_result" where
  "shortImageID imageID =
     (let chunks = split_on (CHR '':'') imageID;
          s = (if length chunks = 1 then chunks ! 0 else chunks ! 1)
      in if length s < 11 then Panic ''slice bounds out of range'' else Ret (take 11 s))"

definition makeKey :: "string \<Rightarrow> Bundle \<Rightarrow> string" where
  "makeKey pid b = pid @ ''/'' @ Name b @ '':'' @ Version b"

definition makeAuthConfig :: "DockerInfo \<Rightarrow> AuthConfig option" where
  "makeAuthConfig config =
     (if RegistryUser config = [] \<or> RegistryPassword config = [] \<or> RegistryEmail config = [] then None
      else Some \<lparr>ServerAddress = RegistryHost config, auth_Username = RegistryUser config,
                 Password = RegistryPassword config, auth_Email = RegistryEmail config\<rparr>)"

definition attemptAuth :: "('c, 'w) outside \<Rightarrow> ('c, 'w, error option) engine_m" where
  "attemptAuth os =
     go_then get_engine (\<lambda>de.
       if de_auth de = []
       then (case makeAuthConfig (de_config de) of
               None \<Rightarrow> go_return None
             | Some authConfig \<Rightarrow>
                 go_then (with_client (\<lambda>c. RegistryLogin os c authConfig)) (\<lambda>err.
                   case err of
                     Some e \<Rightarrow> go_return (Some e)
                   | None \<Rightarrow>
                       (case EncodeAuth os authConfig of
                          Inl e \<Rightarrow> go_return (Some e)
                        | Inr a \<Rightarrow> (\<lambda>(de', w). Ret (None, (de'\<lparr>de_auth := a\<rparr>, w))))))
       else go_return None)"

definition needsUpdate :: "('c, 'w) outside \<Rightarrow> string \<Rightarrow> string \<Rightarrow> ('c, 'w, bool) engine_m" where
  "needsUpdate os name meta =
     (let fullName = name @ '':'' @ meta
      in if meta \<noteq> ''latest''
         then go_then (with_client (\<lambda>c. ImageInspectWithRaw os c fullName)) (\<lambda>(imageID, err).
                if imageID \<noteq> []
                then go_then get_engine (\<lambda>de.
                       if name \<noteq> driverImage \<and> DevMode (de_relayConfig de)
                       then go_then (go_lift (shortImageID imageID)) (\<lambda>_. go_return True)
                       else go_then (go_lift (shortImageID imageID)) (\<lambda>_. go_return False))
                else go_return True)
         else go_return True)"

definition pullImage :: "('c, 'w) outside \<Rightarrow> string \<Rightarrow> ('c, 'w, error option) engine_m" where
  "pullImage os fullName =
     go_then (ensureConnected os) (\<lambda>err.
       case err of
         Some e \<Rightarrow> go_return (Some e)
       | None \<Rightarrow> go_then get_engine (\<lambda>de. with_client (\<lambda>c. ImagePull os c fullName (de_auth de))))"

definition IDForName :: "('c, 'w) outside \<Rightarrow> string \<Rightarrow> string \<Rightarrow> ('c, 'w, string \<times> error option) engine_m" where
  "IDForName os name meta =
     go_then (ensureConnected os) (\<lambda>err.
       case err of
         Some e \<Rightarrow> go_return ([], Some e)
       | None \<Rightarrow>
           go_then (with_client (\<lambda>c. ImageInspectWithRaw os c (name @ '':'' @ meta))) (\<lambda>(imageID, err').
             go_return (case err' of Some e \<Rightarrow> ([], Some e) | None \<Rightarrow> (imageID, None))))"

definition removeOldImage :: "('c, 'w) outside \<Rightarrow> string \<Rightarrow> string \<Rightarrow> ('c, 'w, unit) engine_m" where
  "removeOldImage os oldID newID =
     (if oldID \<noteq> [] \<and> oldID \<noteq> newID
      then go_then (with_client (\<lambda>c. ImageRemove os c oldID)) (\<lambda>removeErr.
             go_then (go_lift (shortImageID oldID)) (\<lambda>_.
               if removeErr \<noteq> None then go_return ()
               else go_then (go_lift (shortImageID newID)) (\<lambda>_. go_return ())))
      else if oldID \<noteq> [] then go_then (go_lift (shortImageID oldID)) (\<lambda>_. go_return ())
      else go_return ())"

definition docker_IsAvailable :: "('c, 'w) outside \<Rightarrow> string \<Rightarrow> string \<Rightarrow> ('c, 'w, bool \<times> error option) engine_m" where
  "docker_IsAvailable os name meta =
     go_then (ensureConnected os) (\<lambda>err.
       case err of
         Some e \<Rightarrow> go_return (False, Some e)
       | None \<Rightarrow>
           go_then (needsUpdate os name meta) (\<lambda>needed.
             if \<not> needed then go_return (True, None)
             else go_then (if name \<noteq> driverImage then attemptAuth os else go_return None) (\<lambda>err.
               case err of
                 Some e \<Rightarrow> go_return (False, Some e)
               | None \<Rightarrow>
                   go_then (IDForName os name meta) (\<lambda>(beforeID, _).
                     go_then (pullImage os (name @ '':'' @ meta)) (\<lambda>pullErr.
                       case pullErr of
                         Some e \<Rightarrow> go_return (False, Some e)
                       | None \<Rightarrow>
                           go_then (IDForName os name meta) (\<lambda>(afterID, err).
                             case err of
                               Some e \<Rightarrow> go_return (False, Some e)
                             | None \<Rightarrow>
                                 go_then (removeOldImage os beforeID afterID) (\<lambda>_. go_return (True, None))))))))"

definition removeContainer :: "('c, 'w) outside \<Rightarrow> string \<Rightarrow> ('c, 'w, error option) engine_m" where
  "removeContainer os i = with_client (\<lambda>c. ContainerRemove os c i)"

definition createCircuitDriver :: "('c, 'w) outside \<Rightarrow> ('c, 'w, error option) engine_m" where
  "createCircuitDriver os =
     go_then (ensureConnected os) (\<lambda>err.
       case err of
         Some e \<Rightarrow> go_return (Some e)
       | None \<Rightarrow>
           go_then (with_client (\<lambda>c. ContainerRemove os c ''cog-circuit-driver'')) (\<lambda>_.
             go_then get_engine (\<lambda>de.
               go_then (docker_IsAvailable os driverImage (CommandDriverVersion (de_config de))) (\<lambda>(avail, err).
                 case err of
                   Some e \<Rightarrow> go_return (Some e)
                 | None \<Rightarrow>
                     if \<not> avail then go_return (Some errorDriverImageUnavailable)
                     else go_then (with_client (\<lambda>c. ContainerCreate os c
                            \<lparr>cs_Image = driverImage @ '':'' @ CommandDriverVersion (de_config de), cs_Cmd = [''/bin/date''],
                             cs_OpenStdin = False, cs_Privileged = False, cs_VolumesFrom = [], cs_Binds = [],
                             cs_Memory = 4 * megabyte, cs_Labels = [relayCreatedLabel \<mapsto> ''yes'']\<rparr>
                            ''cog-circuit-driver'')) (\<lambda>r.
                       go_return (case r of Inl e \<Rightarrow> Some e | Inr _ \<Rightarrow> None))))))"

definition docker_Init :: "('c, 'w) outside \<Rightarrow> ('c, 'w, error option) engine_m" where
  "docker_Init os = createCircuitDriver os"

definition developerModeRefresh :: "('c, 'w) outside \<Rightarrow> Bundle \<Rightarrow> ('c, 'w, error option) engine_m" where
  "developerModeRefresh os b =
     go_then get_engine (\<lambda>de.
       if DevMode (de_relayConfig de)
       then go_then (ensureConnected os) (\<lambda>err.
              case err of
                Some e \<Rightarrow> go_return (Some e)
              | None \<Rightarrow>
                  (case Docker b of
                     None \<Rightarrow> (\<lambda>_. Panic ''nil docker stanza'')
                   | Some d \<Rightarrow>
                       go_then (attemptAuth os) (\<lambda>err.
                         case err of
                           Some e \<Rightarrow> go_return (Some e)
                         | None \<Rightarrow>
                             go_then (pullImage os (Image d @ '':'' @ Tag d)) (\<lambda>err.
                               case err of
                                 Some e \<Rightarrow> go_return (Some e)
                               | None \<Rightarrow>
                                   go_then (with_client (\<lambda>c. ImageInspectWithRaw os c (Image d @ '':'' @ Tag d))) (\<lambda>(imageID, err).
                                     case err of
                                       Some e \<Rightarrow> go_return (Some e)
                                     | None \<Rightarrow> go_then (go_lift (shortImageID imageID)) (\<lambda>_. go_return None))))))
       else go_return None)"

definition docker_options :: "'c \<Rightarrow> Config \<Rightarrow> Bundle \<Rightarrow> DockerImage \<Rightarrow> DockerInfo \<Rightarrow> 'c CreateEnvironmentOptions" where
  "docker_options conn cfg b d info =
     \<lparr>opt_Kind = DockerKind, opt_Bundle = Name b, opt_Conn = Some conn, opt_Image = Image d, opt_Tag = Tag d,
      opt_Binds = Binds d, opt_DriverInstance = ''cog-circuit-driver'',
      opt_DriverPath = ''/operable/circuit/bin/circuit-driver'',
      opt_Memory = of_int (ContainerMemory info) * megabyte\<rparr>"

definition newEnvironment :: "('c, 'w) outside \<Rightarrow> Bundle \<Rightarrow> ('c, 'w, error + env_id) engine_m" where
  "newEnvironment os b =
     go_then (developerModeRefresh os b) (\<lambda>err.
       case err of
         Some e \<Rightarrow> go_return (Inl e)
       | None \<Rightarrow>
           go_then get_engine (\<lambda>de.
             go_then (on_outside (newClient os (de_config de))) (\<lambda>r.
               case r of
                 Inl e \<Rightarrow> go_return (Inl e)
               | Inr conn \<Rightarrow>
                   (case (Docker b, cfg_Docker (de_relayConfig de)) of
                      (Some d, Some info) \<Rightarrow>
                        on_world (CreateEnvironment os (docker_options conn (de_relayConfig de) b d info))
                    | _ \<Rightarrow> (\<lambda>_. Panic ''nil docker stanza'')))))"

definition docker_NewEnvironment :: "('c, 'w) outside \<Rightarrow> int \<Rightarrow> string \<Rightarrow> Bundle \<Rightarrow> ('c, 'w, error + env_id) engine_m" where
  "docker_NewEnvironment os now pid b =
     (\<lambda>(de, w).
       let (cached, ec) = cache_get (makeKey pid b) now (ew_cache w);
           w' = w\<lparr>ew_cache := ec\<rparr>
       in case cached of
            Some env \<Rightarrow> Ret (Inr env, (de, w'))
          | None \<Rightarrow> newEnvironment os b (de, w'))"

definition docker_ReleaseEnvironment :: "('c, 'w) outside \<Rightarrow> int \<Rightarrow> string \<Rightarrow> Bundle \<Rightarrow> env_id \<Rightarrow> ('c, 'w, unit) engine_m" where
  "docker_ReleaseEnvironment os now pid b env =
     (\<lambda>(de, w).
       let (stored, ec) = cache_put (makeKey pid b) env now (ew_cache w);
           w' = w\<lparr>ew_cache := ec\<rparr>
       in if \<not> stored then go_then (on_world (shutdown_env os env)) (\<lambda>_. go_return ()) (de, w')
          else Ret ((), (de, w')))"

text \<open>The bodies of the two loops of \<^verbatim>\<open>Clean\<close>.\<close>

definition clean_env :: "('c, 'w) outside \<Rightarrow> env_id \<Rightarrow> nat \<Rightarrow> ('c, 'w, nat) engine_m" where
  "clean_env os env count =
     go_then (on_world (shutdown_env os env)) (\<lambda>err. go_return (if err = None then Suc count else count))"

definition clean_container :: "('c, 'w) outside \<Rightarrow> string \<Rightarrow> nat \<Rightarrow> ('c, 'w, nat) engine_m" where
  "clean_container os i count =
     go_then (removeContainer os i) (\<lambda>err.
       if err \<noteq> None then go_then (go_lift (shortContainerID i)) (\<lambda>_. go_return count)
       else go_return (Suc count))"

definition docker_Clean :: "('c, 'w) outside \<Rightarrow> string list \<Rightarrow> int \<Rightarrow> ('c, 'w, nat) engine_m" where
  "docker_Clean os ord now =
     go_then (ensureConnected os) (\<lambda>err.
       case err of
         Some e \<Rightarrow> go_return 0
       | None \<Rightarrow>
           go_then (\<lambda>(de, w). let (old, ec) = getOld ord now (ew_cache w) in Ret (old, (de, w\<lparr>ew_cache := ec\<rparr>))) (\<lambda>old.
             go_then (go_foreach (clean_env os) old 0) (\<lambda>count.
               go_then (with_client (\<lambda>c. ContainerList os c [(''status'', ''exited''), (''label'', relayCreatedLabel @ ''=yes'')])) (\<lambda>r.
                 case r of
                   Inl e \<Rightarrow> go_return 0
                 | Inr containers \<Rightarrow> go_foreach (clean_container os) containers count))))"

section \<open>The native engine\<close>

definition errorDisabled :: error where
  "errorDisabled = ''Native execution engine is disabled.''"

definition native_Init :: "error option" where
  "native_Init = None"

definition native_IsAvailable :: "string \<Rightarrow> string \<Rightarrow> bool \<times> error option" where
  "native_IsAvailable name version = (True, None)"

definition native_NewEnvironment :: "('c, 'w) outside \<Rightarrow> Bundle \<Rightarrow> (('c, 'w) engine_world, error + env_id) go_m" where
  "native_NewEnvironment os b =
     CreateEnvironment os \<lparr>opt_Kind = NativeKind, opt_Bundle = Name b, opt_Conn = None, opt_Image = [], opt_Tag = [],
       opt_Binds = [], opt_DriverInstance = [], opt_DriverPath = [], opt_Memory = 0\<rparr>"

definition native_ReleaseEnvironment :: "('c, 'w) outside \<Rightarrow> env_id \<Rightarrow> (('c, 'w) engine_world, unit) go_m" where
  "native_ReleaseEnvironment os env = go_then (shutdown_env os env) (\<lambda>_. go_return ())"

definition native_Clean :: nat where
  "native_Clean = 0"

section \<open>Choosing an engine\<close>

datatype EngineType = DockerEngineType | NativeEngineType

definition ErrDockerDisabled :: error where
  "ErrDockerDisabled = ''Docker engine is disabled''"

datatype 'c engine = Docker_Eng "'c DockerEngine" | Native_Eng Config

definition NewNativeEngine :: "Config \<Rightarrow> error + 'c engine" where
  "NewNativeEngine relayConfig =
     (if NativeEnabled relayConfig then Inr (Native_Eng relayConfig) else Inl errorDisabled)"

definition GetEngine :: "Config \<Rightarrow> EngineType \<Rightarrow> (error + 'c engine) go_result" where
  "GetEngine relayConfig engineType =
     (if engineType = DockerEngineType
      then if DockerEnabled relayConfig
           then go_bind (NewDockerEngine relayConfig) (\<lambda>de. Ret (Inr (Docker_Eng de)))
           else Ret (Inl ErrDockerDisabled)
      else Ret (NewNativeEngine relayConfig))"

definition EngineForBundle :: "Config \<Rightarrow> Bundle \<Rightarrow> (error + 'c engine) go_result" where
  "EngineForBundle relayConfig b =
     (if IsDocker b then GetEngine relayConfig DockerEngineType else GetEngine relayConfig NativeEngineType)"

text \<open>The methods of the \<^verbatim>\<open>Engine\<close> interface, dispatched on the engine's type.\<close>

fun lift_docker :: "'c engine \<Rightarrow> ('a \<times> 'c DockerEngine \<times> ('c, 'w) engine_world) go_result \<Rightarrow> ('a \<times> 'c engine \<times> ('c, 'w) engine_world) go_result" where
  "lift_docker eng (Ret (x, (de, w))) = Ret (x, (Docker_Eng de, w))"
| "lift_docker eng (Panic p) = Panic p"

fun engine_IsAvailable :: "('c, 'w) outside \<Rightarrow> string \<Rightarrow> string \<Rightarrow> ('c engine \<times> ('c, 'w) engine_world, bool \<times> error option) go_m" where
  "engine_IsAvailable os name meta (Docker_Eng de, w) = lift_docker (Docker_Eng de) (docker_IsAvailable os name meta (de, w))"
| "engine_IsAvailable os name meta (Native_Eng c, w) = Ret (native_IsAvailable name meta, (Native_Eng c, w))"

fun engine_NewEnvironment :: "('c, 'w) outside \<Rightarrow> int \<Rightarrow> string \<Rightarrow> Bundle \<Rightarrow> ('c engine \<times> ('c, 'w) engine_world, error + env_id) go_m" where
  "engine_NewEnvironment os now pid b (Docker_Eng de, w) =
     lift_docker (Docker_Eng de) (docker_NewEnvironment os now pid b (de, w))"
| "engine_NewEnvironment os now pid b (Native_Eng c, w) =
     go_bind (native_NewEnvironment os b w) (\<lambda>(r, w'). Ret (r, (Native_Eng c, w')))"

fun engine_ReleaseEnvironment :: "('c, 'w) outside \<Rightarrow> int \<Rightarrow> string \<Rightarrow> Bundle \<Rightarrow> env_id \<Rightarrow> ('c engine \<times> ('c, 'w) engine_world, unit) go_m" where
  "engine_ReleaseEnvironment os now pid b env (Docker_Eng de, w) =
     lift_docker (Docker_Eng de) (docker_ReleaseEnvironment os now pid b env (de, w))"
| "engine_ReleaseEnvironment os now pid b env (Native_Eng c, w) =
     go_bind (native_ReleaseEnvironment os env w) (\<lambda>(r, w'). Ret (r, (Native_Eng c, w')))"

section \<open>Laws\<close>

text \<open>
  Most of the Docker engine only talks to the daemon: it changes the outside world and the
  engine's own fields, and no environment and no cache entry.
\<close>

definition daemon_only :: "('c, 'w, 'a) engine_m \<Rightarrow> bool" where
  "daemon_only m \<longleftrightarrow>
     (\<forall>de w x de' w'. m (de, w) = Ret (x, (de', w')) \<longrightarrow>
        ew_cache w' = ew_cache w \<and> ew_envs w' = ew_envs w \<and> ew_next w' = ew_next w)"

named_theorems daemon_rules "computations that only talk to the daemon"

lemma daemon_only_then [daemon_rules]:
  assumes "daemon_only m" and "\<And>x. daemon_only (f x)"
  shows "daemon_only (go_then m f)"
  unfolding daemon_only_def
proof (intro allI impI)
  fix de w y de' w'
  assume "go_then m f (de, w) = Ret (y, (de', w'))"
  then obtain x de1 w1 where "m (de, w) = Ret (x, (de1, w1))" "f x (de1, w1) = Ret (y, (de', w'))" by auto
  then show "ew_cache w' = ew_cache w \<and> ew_envs w' = ew_envs w \<and> ew_next w' = ew_next w"
    using assms unfolding daemon_only_def by metis
qed

lemma daemon_only_basic [daemon_rules]:
  "daemon_only (go_return x)" "daemon_only (go_lift r)" "daemon_only get_engine" "daemon_only (on_outside g)"
  "daemon_only (with_client h)" "daemon_only (ensureConnected os)" "daemon_only (\<lambda>s. Panic p)"
  "daemon_only (\<lambda>(de, w). Ret (y, (k de, w)))"
  by (auto simp: daemon_only_def get_engine_def on_outside_def with_client_def ensureConnected_def Let_def
    split: option.splits sum.splits prod.splits if_splits)

lemma daemon_only_if [daemon_rules]: "daemon_only a \<Longrightarrow> daemon_only b \<Longrightarrow> daemon_only (if c then a else b)"
  by simp

lemma daemon_only_option [daemon_rules]:
  "daemon_only a \<Longrightarrow> (\<And>x. daemon_only (b x)) \<Longrightarrow> daemon_only (case o' of None \<Rightarrow> a | Some x \<Rightarrow> b x)"
  by (cases o') simp_all

lemma daemon_only_sum [daemon_rules]:
  "(\<And>x. daemon_only (a x)) \<Longrightarrow> (\<And>x. daemon_only (b x)) \<Longrightarrow> daemon_only (case r of Inl x \<Rightarrow> a x | Inr x \<Rightarrow> b x)"
  by (cases r) simp_all

lemma daemon_only_pair [daemon_rules]: "(\<And>x y. daemon_only (f x y)) \<Longrightarrow> daemon_only (case p of (x, y) \<Rightarrow> f x y)"
  by (cases p) simp

lemma daemon_only_attemptAuth [daemon_rules]: "daemon_only (attemptAuth os)"
  unfolding attemptAuth_def by (intro daemon_rules)

lemma daemon_only_pullImage [daemon_rules]: "daemon_only (pullImage os n)"
  unfolding pullImage_def by (intro daemon_rules)

lemma daemon_only_developerModeRefresh [daemon_rules]: "daemon_only (developerModeRefresh os b)"
  unfolding developerModeRefresh_def by (intro daemon_rules)

lemma daemon_only_foreach [daemon_rules]:
  "(\<And>x acc. daemon_only (f x acc)) \<Longrightarrow> daemon_only (go_foreach f xs acc)"
  by (induction xs arbitrary: acc) (auto intro: daemon_rules)

lemma daemon_only_clean_container [daemon_rules]: "daemon_only (clean_container os i n)"
  unfolding clean_container_def removeContainer_def by (intro daemon_rules)

lemma on_world_Ret_iff [simp]:
  "on_world m (de, w) = Ret (x, (de', w')) \<longleftrightarrow> m w = Ret (x, w') \<and> de' = de"
  by (auto simp: on_world_def split: go_result.splits)

subsection \<open>Leases\<close>

text \<open>
  The invariant of the shared world: identities are bounded by the counter, every cached
  environment is alive, and no environment is cached under two keys. A lease on an environment
  is for a slot, the cache key it goes back to, or none: the environment is alive and can only
  be in the cache under that key, marked as in use.
\<close>

definition world_ok :: "('c, 'w) engine_world \<Rightarrow> bool" where
  "world_ok w \<longleftrightarrow> ids_bounded w \<and>
     (\<forall>k ce. envs (ew_cache w) k = Some ce \<longrightarrow> alive w (ce_env ce)) \<and>
     (\<forall>k1 k2 c1 c2. envs (ew_cache w) k1 = Some c1 \<longrightarrow> envs (ew_cache w) k2 = Some c2 \<longrightarrow>
        ce_env c1 = ce_env c2 \<longrightarrow> k1 = k2)"

definition lease :: "('c, 'w) engine_world \<Rightarrow> string option \<Rightarrow> env_id \<Rightarrow> bool" where
  "lease w slot env \<longleftrightarrow> alive w env \<and>
     (\<forall>k ce. envs (ew_cache w) k = Some ce \<longrightarrow> ce_env ce = env \<longrightarrow> inUse ce \<and> slot = Some k)"

definition keeps_leases :: "('c, 'w) engine_world \<Rightarrow> ('c, 'w) engine_world \<Rightarrow> env_id set \<Rightarrow> bool" where
  "keeps_leases w w' X \<longleftrightarrow> (\<forall>slot env. lease w slot env \<longrightarrow> env \<notin> X \<longrightarrow> lease w' slot env)"

lemma same_envs:
  assumes "ew_cache w' = ew_cache w" and "\<And>i. alive w' i \<longleftrightarrow> alive w i" and "ids_bounded w'"
  shows "world_ok w \<Longrightarrow> world_ok w'" and "keeps_leases w w' X"
  using assms by (auto simp: world_ok_def keeps_leases_def lease_def)

lemma daemon_only_ok:
  assumes "daemon_only m" and "m (de, w) = Ret (x, (de', w'))" and "world_ok w"
  shows "world_ok w'" and "keeps_leases w w' X" and "ew_cache w' = ew_cache w" and "alive w' = alive w"
proof -
  have same: "ew_cache w' = ew_cache w" "ew_envs w' = ew_envs w" "ew_next w' = ew_next w"
    using assms(1,2) by (auto simp: daemon_only_def)
  then have "alive w' = alive w" "ids_bounded w' = ids_bounded w" by (auto simp: alive_def ids_bounded_def fun_eq_iff)
  with same assms(3) show "world_ok w'" "keeps_leases w w' X" "ew_cache w' = ew_cache w" "alive w' = alive w"
    by (auto simp: world_ok_def keeps_leases_def lease_def)
qed

lemma CreateEnvironment_lease:
  assumes "CreateEnvironment os options w = Ret (r, w')" and "world_ok w"
  shows "world_ok w'" and "keeps_leases w w' X"
    and "r = Inr env \<Longrightarrow> lease w' slot env \<and> \<not> lease w slot' env"
proof -
  have b: "ids_bounded w" using assms(2) by (simp add: world_ok_def)
  note new = CreateEnvironment_Ret [OF assms(1) b]
  have fresh: "\<not> alive w (ew_next w)" using alive_bounded [OF b] by blast
  then have uncached: "ce_env ce \<noteq> ew_next w" if "envs (ew_cache w) k = Some ce" for k ce
    using assms(2) that unfolding world_ok_def by metis
  show "world_ok w'" and "keeps_leases w w' X" and "r = Inr env \<Longrightarrow> lease w' slot env \<and> \<not> lease w slot' env"
    using new assms(2) fresh uncached
    by (auto simp: world_ok_def keeps_leases_def lease_def split: sum.splits)
qed

lemma newEnvironment_lease:
  assumes "newEnvironment os b (de, w) = Ret (r, (de', w'))" and "world_ok w"
  shows "world_ok w'" and "keeps_leases w w' X"
    and "r = Inr env \<Longrightarrow> lease w' slot env \<and> \<not> lease w slot' env"
proof -
  from assms(1) obtain err de1 w1 where dev: "developerModeRefresh os b (de, w) = Ret (err, (de1, w1))"
    and rest: "(case err of
         Some e \<Rightarrow> go_return (Inl e)
       | None \<Rightarrow>
           go_then get_engine (\<lambda>de.
             go_then (on_outside (newClient os (de_config de))) (\<lambda>r.
               case r of
                 Inl e \<Rightarrow> go_return (Inl e)
               | Inr conn \<Rightarrow>
                   (case (Docker b, cfg_Docker (de_relayConfig de)) of
                      (Some d, Some info) \<Rightarrow>
                        on_world (CreateEnvironment os (docker_options conn (de_relayConfig de) b d info))
                    | _ \<Rightarrow> (\<lambda>_. Panic ''nil docker stanza''))))) (de1, w1) = Ret (r, (de', w'))"
    by (auto simp: newEnvironment_def)
  note ok1 = daemon_only_ok [OF daemon_only_developerModeRefresh dev assms(2)]
  have lease1: "lease w1 = lease w" using ok1(3,4) by (simp add: lease_def fun_eq_iff)
  have keeps: "keeps_leases w1 w2 X \<Longrightarrow> keeps_leases w w2 X" for w2
    using lease1 by (simp add: keeps_leases_def)
  have sameo: "world_ok (w1\<lparr>ew_outside := o'\<rparr>) \<and> lease (w1\<lparr>ew_outside := o'\<rparr>) = lease w1" for o'
    using ok1(1) by (auto simp: world_ok_def lease_def alive_def ids_bounded_def fun_eq_iff)
  have "world_ok w' \<and> keeps_leases w1 w' X \<and> (r = Inr env \<longrightarrow> lease w' slot env \<and> \<not> lease w1 slot' env)"
  proof (cases err)
    case (Some e)
    with rest ok1(1) show ?thesis by (auto simp: keeps_leases_def)
  next
    case None
    obtain q o' where q: "newClient os (de_config de1) (ew_outside w1) = (q, o')" by fastforce
    let ?w2 = "w1\<lparr>ew_outside := o'\<rparr>"
    show ?thesis
    proof (cases q)
      case (Inl e)
      with rest None q sameo [of o'] show ?thesis
        by (auto simp: get_engine_def on_outside_def keeps_leases_def)
    next
      case (Inr conn)
      with rest None q obtain d info where
        "on_world (CreateEnvironment os (docker_options conn (de_relayConfig de1) b d info)) (de1, ?w2) = Ret (r, (de', w'))"
        by (auto simp: get_engine_def on_outside_def split: option.splits)
      then have "CreateEnvironment os (docker_options conn (de_relayConfig de1) b d info) ?w2 = Ret (r, w')"
        by (auto simp: on_world_def split: go_result.splits)
      from CreateEnvironment_lease [OF this] sameo [of o'] show ?thesis
        by (auto simp: keeps_leases_def)
    qed
  qed
  with keeps lease1 show "world_ok w'" and "keeps_leases w w' X"
    and "r = Inr env \<Longrightarrow> lease w' slot env \<and> \<not> lease w slot' env"
    by auto
qed

lemma cache_alive [simp]: "alive (w\<lparr>ew_cache := ec\<rparr>) i = alive w i"
  by (simp add: alive_def)

lemma cache_bounded [simp]: "ids_bounded (w\<lparr>ew_cache := ec\<rparr>) = ids_bounded w"
  by (simp add: ids_bounded_def)

text \<open>Taking an idle environment out of the cache leases it.\<close>

lemma cache_get_lease:
  assumes "cache_get key now (ew_cache w) = (Some env, ec)" and "world_ok w"
  shows "world_ok (w\<lparr>ew_cache := ec\<rparr>)" and "keeps_leases w (w\<lparr>ew_cache := ec\<rparr>) X"
    and "lease (w\<lparr>ew_cache := ec\<rparr>) (Some key) env \<and> \<not> lease w slot' env"
proof -
  obtain ce where ce: "envs (ew_cache w) key = Some ce" "\<not> inUse ce" "env = ce_env ce"
    "ec = (ew_cache w)\<lparr>envs := (envs (ew_cache w))(key \<mapsto> ce\<lparr>inUse := True, lastUsed := now\<rparr>)\<rparr>"
    using assms(1) by (auto simp: cache_get_def split: option.splits if_splits)
  have inj: "envs (ew_cache w) k = Some c \<Longrightarrow> ce_env c = ce_env ce \<Longrightarrow> k = key" for k c
    using assms(2) ce(1) unfolding world_ok_def by metis
  have "alive w env" using assms(2) ce unfolding world_ok_def by metis
  moreover have upd: "envs ec k = (if k = key then Some (ce\<lparr>inUse := True, lastUsed := now\<rparr>) else envs (ew_cache w) k)" for k
    by (simp add: ce(4))
  have "inUse c \<and> Some key = Some k" if "envs ec k = Some c" "ce_env c = env" for k c
  proof (cases "k = key")
    case True
    with that(1) show ?thesis by (auto simp: upd)
  next
    case False
    then show ?thesis using that inj [of k c] ce(3) by (simp add: upd)
  qed
  moreover have "\<not> lease w slot' env" using ce(1-3) unfolding lease_def by blast
  ultimately show "lease (w\<lparr>ew_cache := ec\<rparr>) (Some key) env \<and> \<not> lease w slot' env"
    by (simp add: lease_def)
  have cached: "\<exists>c'. envs (ew_cache w) k = Some c' \<and> ce_env c' = ce_env c" if "envs ec k = Some c" for k c
    using that ce(1) by (auto simp: upd split: if_splits)
  then show "world_ok (w\<lparr>ew_cache := ec\<rparr>)"
    using assms(2) unfolding world_ok_def by (simp, metis)
  show "keeps_leases w (w\<lparr>ew_cache := ec\<rparr>) X"
    unfolding keeps_leases_def lease_def using ce(1) by (auto simp: upd split: if_splits)
qed

lemma docker_NewEnvironment_lease:
  assumes "docker_NewEnvironment os now pid b (de, w) = Ret (r, (de', w'))" and "world_ok w"
  shows "world_ok w'" and "keeps_leases w w' X"
    and "r = Inr env \<Longrightarrow> lease w' (Some (makeKey pid b)) env \<and> \<not> lease w slot' env"
proof -
  obtain cached ec where get: "cache_get (makeKey pid b) now (ew_cache w) = (cached, ec)" by fastforce
  have "world_ok w' \<and> keeps_leases w w' X \<and>
      (r = Inr env \<longrightarrow> lease w' (Some (makeKey pid b)) env \<and> \<not> lease w slot' env)"
  proof (cases cached)
    case (Some e)
    with assms(1) get have "r = Inr e" "w' = w\<lparr>ew_cache := ec\<rparr>" by (auto simp: docker_NewEnvironment_def)
    with cache_get_lease [of "makeKey pid b" now w e ec] Some get assms(2) show ?thesis by auto
  next
    case None
    with get have "ec = ew_cache w" by (auto simp: cache_get_def split: option.splits if_splits)
    with assms(1) get None have "newEnvironment os b (de, w) = Ret (r, (de', w'))"
      by (simp add: docker_NewEnvironment_def)
    from newEnvironment_lease [OF this assms(2)] show ?thesis by auto
  qed
  then show "world_ok w'" and "keeps_leases w w' X"
    and "r = Inr env \<Longrightarrow> lease w' (Some (makeKey pid b)) env \<and> \<not> lease w slot' env"
    by auto
qed

lemma shutdown_lease:
  assumes "shutdown_env os env w = Ret (err, w')" and "world_ok w"
    and "\<And>k ce. envs (ew_cache w) k = Some ce \<Longrightarrow> ce_env ce \<noteq> env"
  shows "world_ok w'" and "env \<in> X \<Longrightarrow> keeps_leases w w' X"
  using assms(2,3) shutdown_env_Ret [OF assms(1)]
  by (auto simp: world_ok_def keeps_leases_def lease_def)

lemma docker_ReleaseEnvironment_lease:
  assumes "docker_ReleaseEnvironment os now pid b env (de, w) = Ret (u, (de', w'))" and "world_ok w"
    and "lease w (Some (makeKey pid b)) env"
  shows "world_ok w'" and "keeps_leases w w' {env}"
proof -
  obtain stored ec where put: "cache_put (makeKey pid b) env now (ew_cache w) = (stored, ec)" by fastforce
  have "world_ok w' \<and> keeps_leases w w' {env}"
  proof (cases stored)
    case True
    with assms(1) put have w': "w' = w\<lparr>ew_cache := ec\<rparr>" by (auto simp: docker_ReleaseEnvironment_def)
    have "alive w env" "\<And>k ce. envs (ew_cache w) k = Some ce \<Longrightarrow> ce_env ce = env \<Longrightarrow> k = makeKey pid b"
      using assms(3) by (auto simp: lease_def)
    with put True assms(2) w' show ?thesis
      by (fastforce simp: cache_put_def world_ok_def keeps_leases_def lease_def split: option.splits if_splits)
  next
    case False
    then have "ec = ew_cache w" "\<exists>e. envs (ew_cache w) (makeKey pid b) = Some e \<and> ce_env e \<noteq> env"
      using put by (auto simp: cache_put_def split: option.splits if_splits)
    with assms(3) have uncached: "\<And>k ce. envs (ew_cache w) k = Some ce \<Longrightarrow> ce_env ce \<noteq> env"
      by (auto simp: lease_def)
    from False assms(1) put \<open>ec = ew_cache w\<close> obtain err where "shutdown_env os env w = Ret (err, w')"
      by (auto simp: docker_ReleaseEnvironment_def on_world_def split: go_result.splits)
    from shutdown_lease [OF this assms(2) uncached] show ?thesis by auto
  qed
  then show "world_ok w'" and "keeps_leases w w' {env}" by auto
qed

lemma keeps_leases_trans:
  "keeps_leases w w1 X \<Longrightarrow> keeps_leases w1 w2 X \<Longrightarrow> keeps_leases w w2 X"
  by (simp add: keeps_leases_def)

text \<open>The clean-up shuts down environments that have left the cache.\<close>

lemma clean_env_Ret_iff:
  "clean_env os env n (de, w) = Ret (m, (de', w')) \<longleftrightarrow>
     (\<exists>err. shutdown_env os env w = Ret (err, w') \<and> de' = de \<and> m = (if err = None then Suc n else n))"
  by (auto simp: clean_env_def)

lemma clean_env_lease:
  assumes "go_foreach (clean_env os) old n (de, w) = Ret (m, (de', w'))" and "world_ok w"
    and "\<And>k ce. envs (ew_cache w) k = Some ce \<Longrightarrow> ce_env ce \<notin> set old"
  shows "world_ok w' \<and> keeps_leases w w' (set old)"
  using assms
proof (induction old arbitrary: n de w)
  case Nil
  then show ?case by (simp add: keeps_leases_def)
next
  case (Cons env old)
  then obtain err w1 n1 where sd: "shutdown_env os env w = Ret (err, w1)"
    and rest: "go_foreach (clean_env os) old n1 (de, w1) = Ret (m, (de', w'))"
    by (auto simp: clean_env_Ret_iff)
  have un: "\<And>k ce. envs (ew_cache w) k = Some ce \<Longrightarrow> ce_env ce \<noteq> env" using Cons.prems(3) by auto
  have ok1: "world_ok w1" "keeps_leases w w1 (set (env # old))"
    using shutdown_lease [OF sd Cons.prems(2)] un by (blast, auto)
  have "\<And>k ce. envs (ew_cache w1) k = Some ce \<Longrightarrow> ce_env ce \<notin> set old"
    using Cons.prems(3) shutdown_env_Ret(3) [OF sd] by auto
  from Cons.IH [OF rest ok1(1) this] have "world_ok w'" "keeps_leases w1 w' (set (env # old))"
    by (auto simp: keeps_leases_def)
  with ok1(2) show ?case using keeps_leases_trans by blast
qed

lemma getOld_lease:
  assumes "getOld ord now (ew_cache w) = (old, ec)" and "range_order (envs (ew_cache w)) ord" and "world_ok w"
  shows "world_ok (w\<lparr>ew_cache := ec\<rparr>)" and "keeps_leases w (w\<lparr>ew_cache := ec\<rparr>) X"
    and "envs ec k = Some ce \<Longrightarrow> ce_env ce \<notin> set old" and "env \<in> set old \<Longrightarrow> \<not> lease w slot env"
proof -
  have old: "old = old_envs now (envs (ew_cache w)) ord" and ec: "ec = (ew_cache w)\<lparr>envs := sweep now (envs (ew_cache w))\<rparr>"
    using assms(1) getOld_spec [OF assms(2), of now] by simp_all
  have swept: "envs ec k = Some ce \<longleftrightarrow> envs (ew_cache w) k = Some ce \<and> \<not> expired now ce" for k ce
    by (auto simp: ec sweep_def split: option.splits)
  show "world_ok (w\<lparr>ew_cache := ec\<rparr>)" using assms(3) by (simp add: world_ok_def swept) metis
  show "keeps_leases w (w\<lparr>ew_cache := ec\<rparr>) X" by (auto simp: keeps_leases_def lease_def swept)
  have in_old: "env \<in> set old \<Longrightarrow> \<exists>k ce. envs (ew_cache w) k = Some ce \<and> ce_env ce = env \<and> expired now ce" for env
    by (auto simp: old set_old_envs)
  show "ce_env ce \<notin> set old" if c: "envs ec k = Some ce"
  proof
    assume "ce_env ce \<in> set old"
    then obtain k' ce' where "envs (ew_cache w) k' = Some ce'" "ce_env ce' = ce_env ce" "expired now ce'"
      using in_old by blast
    moreover have "envs (ew_cache w) k = Some ce" "\<not> expired now ce" using c by (simp_all add: swept)
    ultimately show False using assms(3) unfolding world_ok_def by (metis option.inject)
  qed
  show "\<not> lease w slot env" if "env \<in> set old"
    using in_old [OF that] by (auto simp: lease_def expired_def)
qed

lemma docker_Clean_lease:
  assumes "docker_Clean os ord now (de, w) = Ret (n, (de', w'))" and "range_order (envs (ew_cache w)) ord" and "world_ok w"
  shows "world_ok w' \<and> keeps_leases w w' {}"
proof -
  obtain err de1 w1 where conn: "ensureConnected os (de, w) = Ret (err, (de1, w1))"
    using assms(1) by (auto simp: docker_Clean_def)
  note ok1 = daemon_only_ok [OF daemon_only_basic(6) conn assms(3)]
  show ?thesis
  proof (cases err)
    case (Some e)
    with assms(1) conn ok1(1,2) show ?thesis by (auto simp: docker_Clean_def)
  next
    case None
    obtain old ec where old: "getOld ord now (ew_cache w1) = (old, ec)" by fastforce
    let ?w2 = "w1\<lparr>ew_cache := ec\<rparr>"
    obtain m de3 w3 where each: "go_foreach (clean_env os) old 0 (de1, ?w2) = Ret (m, (de3, w3))"
      and rest: "go_then (with_client (\<lambda>c. ContainerList os c [(''status'', ''exited''), (''label'', relayCreatedLabel @ ''=yes'')]))
        (\<lambda>r. case r of Inl e \<Rightarrow> go_return 0 | Inr containers \<Rightarrow> go_foreach (clean_container os) containers m) (de3, w3) = Ret (n, (de', w'))"
      using assms(1) conn None old by (auto simp: docker_Clean_def)
    have ord1: "range_order (envs (ew_cache w1)) ord" using assms(2) ok1(3) by simp
    note ok2 = getOld_lease [OF old ord1 ok1(1)]
    have ok3: "world_ok w3" "keeps_leases ?w2 w3 (set old)"
      using clean_env_lease [OF each ok2(1)] ok2(3) by auto
    have "daemon_only (go_then (with_client (\<lambda>c. ContainerList os c [(''status'', ''exited''), (''label'', relayCreatedLabel @ ''=yes'')]))
        (\<lambda>r. case r of Inl e \<Rightarrow> go_return 0 | Inr containers \<Rightarrow> go_foreach (clean_container os) containers m))"
      by (intro daemon_rules)
    note ok4 = daemon_only_ok [OF this rest ok3(1)]
    have "keeps_leases w1 w' (set old)" using ok2(2) ok3(2) ok4(2) keeps_leases_trans by metis
    then have "keeps_leases w1 w' {}" using ok2(4) by (auto simp: keeps_leases_def)
    with ok1(2) ok4(1) show ?thesis using keeps_leases_trans by metis
  qed
qed

section \<open>The contract of an engine\<close>

text \<open>
  The workers of a relay and its clean-up timer run concurrently against the shared world. A
  state of the system is the world and the environments the workers hold, each with the key it
  was acquired for. A worker may also stop without releasing what it holds.
\<close>

inductive engine_step ::
    "('t \<Rightarrow> 'k \<Rightarrow> ('s, error + env_id) go_m) \<Rightarrow> ('t \<Rightarrow> 'k \<Rightarrow> env_id \<Rightarrow> ('s, unit) go_m) \<Rightarrow>
     ('s \<Rightarrow> 's \<Rightarrow> bool) \<Rightarrow> (env_id \<Rightarrow> 's \<Rightarrow> 's \<Rightarrow> bool) \<Rightarrow>
     's \<times> ('k \<times> env_id) list \<Rightarrow> 's \<times> ('k \<times> env_id) list \<Rightarrow> bool"
  for acquire release clean use where
  es_acquire: "acquire t k s = Ret (Inr env, s') \<Longrightarrow> engine_step acquire release clean use (s, held) (s', (k, env) # held)"
| es_refuse: "acquire t k s = Ret (Inl err, s') \<Longrightarrow> engine_step acquire release clean use (s, held) (s', held)"
| es_use: "(k, env) \<in> set held \<Longrightarrow> use env s s' \<Longrightarrow> engine_step acquire release clean use (s, held) (s', held)"
| es_release: "release t k env s = Ret (u, s') \<Longrightarrow>
    engine_step acquire release clean use (s, xs @ (k, env) # ys) (s', xs @ ys)"
| es_abandon: "engine_step acquire release clean use (s, xs @ (k, env) # ys) (s, xs @ ys)"
| es_clean: "clean s s' \<Longrightarrow> engine_step acquire release clean use (s, held) (s', held)"

locale execution_engine =
  fixes acquire :: "'t \<Rightarrow> 'k \<Rightarrow> ('s, error + env_id) go_m"
    and release :: "'t \<Rightarrow> 'k \<Rightarrow> env_id \<Rightarrow> ('s, unit) go_m"
    and clean :: "'s \<Rightarrow> 's \<Rightarrow> bool"
    and use :: "env_id \<Rightarrow> 's \<Rightarrow> 's \<Rightarrow> bool"
    and ok :: "'s \<Rightarrow> bool"
    and leased :: "'s \<Rightarrow> 'k \<Rightarrow> env_id \<Rightarrow> bool"
    and usable :: "'s \<Rightarrow> env_id \<Rightarrow> bool"
  assumes acquire_new: "ok s \<Longrightarrow> acquire t k s = Ret (Inr env, s') \<Longrightarrow> leased s' k env \<and> \<not> leased s k' env"
    and acquire_keeps: "ok s \<Longrightarrow> acquire t k s = Ret (r, s') \<Longrightarrow> ok s' \<and> (leased s k' env' \<longrightarrow> leased s' k' env')"
    and release_keeps: "ok s \<Longrightarrow> leased s k env \<Longrightarrow> release t k env s = Ret (u, s') \<Longrightarrow>
      ok s' \<and> (leased s k' env' \<longrightarrow> env' \<noteq> env \<longrightarrow> leased s' k' env')"
    and clean_keeps: "ok s \<Longrightarrow> clean s s' \<Longrightarrow> ok s' \<and> (leased s k' env' \<longrightarrow> leased s' k' env')"
    and use_keeps: "ok s \<Longrightarrow> use env s s' \<Longrightarrow> ok s' \<and> (leased s k' env' \<longrightarrow> leased s' k' env')"
    and leased_usable: "ok s \<Longrightarrow> leased s k env \<Longrightarrow> usable s env"
begin

definition holders_ok :: "'s \<times> ('k \<times> env_id) list \<Rightarrow> bool" where
  "holders_ok sh \<longleftrightarrow> ok (fst sh) \<and> distinct (map snd (snd sh)) \<and> (\<forall>(k, env) \<in> set (snd sh). leased (fst sh) k env)"

lemma holders_step:
  assumes "engine_step acquire release clean use sh sh'" and "holders_ok sh"
  shows "holders_ok sh'"
  using assms
proof (induction rule: engine_step.induct)
  case (es_acquire t k s env s' held)
  then have ok: "ok s" by (simp add: holders_ok_def)
  have "env \<notin> snd ` set held" using es_acquire.prems acquire_new [OF ok es_acquire.hyps] by (auto simp: holders_ok_def)
  then show ?case
    using es_acquire.prems acquire_new [OF ok es_acquire.hyps] acquire_keeps [OF ok es_acquire.hyps] by (auto simp: holders_ok_def)
next
  case (es_release t k env s u s' xs ys)
  then have "ok s" "leased s k env" by (auto simp: holders_ok_def)
  note keeps = release_keeps [OF this es_release.hyps]
  have "leased s' k' env'" if "(k', env') \<in> set (xs @ ys)" for k' env'
  proof -
    have "env' \<noteq> env" using that es_release.prems by (auto simp: holders_ok_def rev_image_eqI)
    moreover have "leased s k' env'" using that es_release.prems by (auto simp: holders_ok_def)
    ultimately show ?thesis using keeps by blast
  qed
  with keeps es_release.prems show ?case by (auto simp: holders_ok_def)
next
  case (es_refuse t k s err s' held)
  with acquire_keeps [of s t k "Inl err" s'] show ?case by (auto simp: holders_ok_def)
next
  case (es_use k env held s s')
  with use_keeps [of s env s'] show ?case by (auto simp: holders_ok_def)
next
  case (es_clean s s' held)
  with clean_keeps [of s s'] show ?case by (auto simp: holders_ok_def)
qed (auto simp: holders_ok_def)

sublocale held: invariant_system "\<lambda>sh. ok (fst sh) \<and> snd sh = []" "engine_step acquire release clean use" holders_ok
proof unfold_locales
  show "holders_ok sh" if "ok (fst sh) \<and> snd sh = []" for sh using that by (simp add: holders_ok_def)
  show "holders_ok sh'" if "holders_ok sh" "engine_step acquire release clean use sh sh'" for sh sh'
    using that by (rule holders_step [rotated])
qed

lemma held_usable:
  assumes "reachable (\<lambda>sh. ok (fst sh) \<and> snd sh = []) (engine_step acquire release clean use) (s, held)"
  shows "distinct (map snd held) \<and> (\<forall>(k, env) \<in> set held. usable s env)"
  using held.reachable_inv [OF assms] by (auto simp: holders_ok_def intro: leased_usable)

end

section \<open>The engines meet the contract\<close>

definition drop_engine :: "('a \<times> 'e \<times> 's) go_result \<Rightarrow> ('a \<times> 's) go_result" where
  "drop_engine r = (case r of Ret (x, (_, w)) \<Rightarrow> Ret (x, w) | Panic p \<Rightarrow> Panic p)"

lemma drop_engine_Ret [simp]: "drop_engine r = Ret (x, w) \<longleftrightarrow> (\<exists>de. r = Ret (x, (de, w)))"
  by (auto simp: drop_engine_def split: go_result.splits)

text \<open>What a worker does to an environment it holds: store user data or run a command.\<close>

definition env_used :: "('c, 'w) outside \<Rightarrow> env_id \<Rightarrow> ('c, 'w) engine_world \<Rightarrow> ('c, 'w) engine_world \<Rightarrow> bool" where
  "env_used os env w w' \<longleftrightarrow>
     (\<exists>d err. set_user_data env d w = Ret (err, w')) \<or> (\<exists>r x. run_env os env r w = Ret (x, w'))"

lemma env_used_keeps:
  assumes "world_ok w" and "env_used os env w w'"
  shows "world_ok w' \<and> keeps_leases w w' {}"
proof -
  have "same_lives w w'" using assms(2) set_user_data_lives run_env_lives by (auto simp: env_used_def)
  with assms(1) show ?thesis by (auto simp: same_lives_def world_ok_def keeps_leases_def lease_def)
qed

lemma native_release_keeps:
  assumes "native_ReleaseEnvironment os env w = Ret (u, w')" and "world_ok w" and "lease w None env"
  shows "world_ok w' \<and> keeps_leases w w' {env}"
proof -
  obtain err where sd: "shutdown_env os env w = Ret (err, w')"
    using assms(1) by (auto simp: native_ReleaseEnvironment_def)
  have un: "\<And>k ce. envs (ew_cache w) k = Some ce \<Longrightarrow> ce_env ce \<noteq> env" using assms(3) by (auto simp: lease_def)
  show ?thesis using shutdown_lease [OF sd assms(2)] un by blast
qed

interpretation native_engine: execution_engine
  "\<lambda>t b. native_NewEnvironment os b" "\<lambda>t b env. native_ReleaseEnvironment os env" "\<lambda>w w'. w' = w" "env_used os"
  world_ok "\<lambda>w b env. lease w None env" alive
  for os :: "('c, 'w) outside"
proof (unfold_locales, goal_cases)
  case (1 w t b env w' b')
  then show ?case using CreateEnvironment_lease(3) by (metis native_NewEnvironment_def)
next
  case (2 w t b r w' b' env')
  then show ?case
    using CreateEnvironment_lease(1) [of os _ w r w'] CreateEnvironment_lease(2) [of os _ w r w' "{}"]
    by (auto simp: native_NewEnvironment_def keeps_leases_def)
next
  case (3 w b env t u w' b' env')
  then show ?case using native_release_keeps [of os env w u w'] by (auto simp: keeps_leases_def)
next
  case (5 w env w' b' env')
  then show ?case using env_used_keeps [of w os env w'] by (auto simp: keeps_leases_def)
qed (auto simp: lease_def)

text \<open>The Docker engine, created for each operation from the configuration.\<close>

definition new_docker :: "Config \<Rightarrow> DockerInfo \<Rightarrow> 'c DockerEngine" where
  "new_docker cfg info = \<lparr>de_client = None, de_relayConfig = cfg, de_config = info, de_auth = []\<rparr>"

definition docker_cleaned :: "('c, 'w) outside \<Rightarrow> Config \<Rightarrow> DockerInfo \<Rightarrow> ('c, 'w) engine_world \<Rightarrow> ('c, 'w) engine_world \<Rightarrow> bool" where
  "docker_cleaned os cfg info w w' \<longleftrightarrow>
     (\<exists>ord now n. range_order (envs (ew_cache w)) ord \<and> drop_engine (docker_Clean os ord now (new_docker cfg info, w)) = Ret (n, w'))"

lemma docker_cleaned_keeps: "world_ok w \<Longrightarrow> docker_cleaned os cfg info w w' \<Longrightarrow> world_ok w' \<and> keeps_leases w w' {}"
  using docker_Clean_lease by (fastforce simp: docker_cleaned_def)

interpretation docker_engine: execution_engine
  "\<lambda>now (pid, b) w. drop_engine (docker_NewEnvironment os now pid b (new_docker cfg info, w))"
  "\<lambda>now (pid, b) env w. drop_engine (docker_ReleaseEnvironment os now pid b env (new_docker cfg info, w))"
  "docker_cleaned os cfg info" "env_used os" world_ok "\<lambda>w (pid, b) env. lease w (Some (makeKey pid b)) env" alive
  for os :: "('c, 'w) outside" and cfg info
proof (unfold_locales, goal_cases)
  case (1 w now k env w' k')
  then show ?case using docker_NewEnvironment_lease(3) by (cases k; cases k') fastforce
next
  case (2 w now k r w' k' env')
  then show ?case
    using docker_NewEnvironment_lease(1) docker_NewEnvironment_lease(2) [where X = "{}"]
    by (cases k; cases k') (fastforce simp: keeps_leases_def)
next
  case (3 w k env now u w' k' env')
  then show ?case
    using docker_ReleaseEnvironment_lease by (cases k; cases k') (fastforce simp: keeps_leases_def)
next
  case (4 w w' k' env')
  then show ?case using docker_cleaned_keeps [of w os cfg info w'] by (auto simp: keeps_leases_def)
next
  case (5 w env w' k' env')
  then show ?case using env_used_keeps [of w os env w'] by (auto simp: keeps_leases_def)
qed (auto simp: lease_def)

text \<open>
  What the workers really call: the engine the bundle needs is looked up, and its method
  called.
\<close>

definition relay_acquire ::
    "('c, 'w) outside \<Rightarrow> Config \<Rightarrow> int \<Rightarrow> string \<times> Bundle \<Rightarrow> (('c, 'w) engine_world, error + env_id) go_m" where
  "relay_acquire os cfg now = (\<lambda>(pid, b) w.
     case EngineForBundle cfg b of
       Panic p \<Rightarrow> Panic p
     | Ret (Inl e) \<Rightarrow> Ret (Inl e, w)
     | Ret (Inr eng) \<Rightarrow> drop_engine (engine_NewEnvironment os now pid b (eng, w)))"

definition relay_release ::
    "('c, 'w) outside \<Rightarrow> Config \<Rightarrow> int \<Rightarrow> string \<times> Bundle \<Rightarrow> env_id \<Rightarrow> (('c, 'w) engine_world, unit) go_m" where
  "relay_release os cfg now = (\<lambda>(pid, b) env w.
     case EngineForBundle cfg b of
       Panic p \<Rightarrow> Panic p
     | Ret (Inl e) \<Rightarrow> Ret ((), w)
     | Ret (Inr eng) \<Rightarrow> drop_engine (engine_ReleaseEnvironment os now pid b env (eng, w)))"

definition relay_cleaned :: "('c, 'w) outside \<Rightarrow> Config \<Rightarrow> ('c, 'w) engine_world \<Rightarrow> ('c, 'w) engine_world \<Rightarrow> bool" where
  "relay_cleaned os cfg w w' \<longleftrightarrow> (\<exists>info. cfg_Docker cfg = Some info \<and> docker_cleaned os cfg info w w')"

definition bundle_slot :: "string \<times> Bundle \<Rightarrow> string option" where
  "bundle_slot = (\<lambda>(pid, b). if IsDocker b then Some (makeKey pid b) else None)"

lemma lift_docker_Ret [simp]:
  "lift_docker eng r = Ret (x, (e, w)) \<longleftrightarrow> (\<exists>de. e = Docker_Eng de \<and> r = Ret (x, (de, w)))"
  by (cases "(eng, r)" rule: lift_docker.cases) auto

lemma EngineForBundle_cases:
  assumes "EngineForBundle cfg b = Ret (Inr eng)"
  obtains (docker) info where "IsDocker b" "DockerEnabled cfg" "cfg_Docker cfg = Some info" "eng = Docker_Eng (new_docker cfg info)"
    | (native) "\<not> IsDocker b" "NativeEnabled cfg" "eng = Native_Eng cfg"
  using assms
  by (auto simp: EngineForBundle_def GetEngine_def NewDockerEngine_def NewNativeEngine_def new_docker_def
    split: if_splits option.splits)

lemma relay_acquire_lease:
  assumes "relay_acquire os cfg now k w = Ret (r, w')" and "world_ok w"
  shows "world_ok w' \<and> keeps_leases w w' {} \<and> (r = Inr env \<longrightarrow> lease w' (bundle_slot k) env \<and> \<not> lease w slot env)"
proof -
  obtain pid b where k: "k = (pid, b)" by (cases k)
  consider (err) e where "EngineForBundle cfg b = (Ret (Inl e) :: (error + 'a engine) go_result)" "r = Inl e" "w' = w"
    | (eng) eng e' where "EngineForBundle cfg b = Ret (Inr eng)" "engine_NewEnvironment os now pid b (eng, w) = Ret (r, (e', w'))"
    using assms(1) k by (auto simp: relay_acquire_def split: go_result.splits sum.splits)
  then show ?thesis
  proof cases
    case err
    then show ?thesis using assms(2) by (simp add: keeps_leases_def)
  next
    case eng
    from eng(1) show ?thesis
    proof (cases rule: EngineForBundle_cases)
      case (docker info)
      with eng(2) obtain de' where "docker_NewEnvironment os now pid b (new_docker cfg info, w) = Ret (r, (de', w'))" by auto
      note new = docker_NewEnvironment_lease [OF this assms(2)]
      show ?thesis using new(1,2) new(3) [of env slot] docker(1) by (simp add: k bundle_slot_def)
    next
      case native
      with eng(2) obtain opts where "CreateEnvironment os opts w = Ret (r, w')"
        by (auto simp: native_NewEnvironment_def)
      note new = CreateEnvironment_lease [OF this assms(2)]
      show ?thesis using new(1,2) new(3) [of env None slot] native(1) by (simp add: k bundle_slot_def)
    qed
  qed
qed

lemma relay_release_lease:
  assumes "relay_release os cfg now k env w = Ret (u, w')" and "world_ok w" and "lease w (bundle_slot k) env"
  shows "world_ok w' \<and> keeps_leases w w' {env}"
proof -
  obtain pid b where k: "k = (pid, b)" by (cases k)
  consider (err) "w' = w"
    | (eng) eng e' where "EngineForBundle cfg b = Ret (Inr eng)" "engine_ReleaseEnvironment os now pid b env (eng, w) = Ret (u, (e', w'))"
    using assms(1) k by (auto simp: relay_release_def split: go_result.splits sum.splits)
  then show ?thesis
  proof cases
    case err
    then show ?thesis using assms(2) by (simp add: keeps_leases_def)
  next
    case eng
    from eng(1) show ?thesis
    proof (cases rule: EngineForBundle_cases)
      case (docker info)
      with eng(2) obtain de' where "docker_ReleaseEnvironment os now pid b env (new_docker cfg info, w) = Ret (u, (de', w'))" by auto
      with docker_ReleaseEnvironment_lease assms(2,3) docker(1) show ?thesis
        by (fastforce simp: k bundle_slot_def)
    next
      case native
      with eng(2) have "native_ReleaseEnvironment os env w = Ret (u, w')" by auto
      with native_release_keeps assms(2,3) native(1) show ?thesis by (fastforce simp: k bundle_slot_def)
    qed
  qed
qed

interpretation relay_engines: execution_engine
  "relay_acquire os cfg" "relay_release os cfg" "relay_cleaned os cfg" "env_used os"
  world_ok "\<lambda>w k env. lease w (bundle_slot k) env" alive
  for os :: "('c, 'w) outside" and cfg
proof (unfold_locales, goal_cases)
  case (1 w now k env w' k')
  then show ?case using relay_acquire_lease by blast
next
  case (2 w now k r w' k' env')
  then show ?case using relay_acquire_lease [of os cfg now k w r w'] by (auto simp: keeps_leases_def)
next
  case (3 w k env now u w' k' env')
  then show ?case using relay_release_lease [of os cfg now k env w u w'] by (auto simp: keeps_leases_def)
next
  case (4 w w' k' env')
  then show ?case using docker_cleaned_keeps [of w os cfg _ w'] by (auto simp: relay_cleaned_def keeps_leases_def)
next
  case (5 w env w' k' env')
  then show ?case using env_used_keeps [of w os env w'] by (auto simp: keeps_leases_def)
qed (auto simp: lease_def)

end
