(* ===== verification/Engine_Safety.thy ===== *)
theory Engine_Safety
  imports Exec_Engines
begin

text \<open>
  What the engines of \<^verbatim>\<open>Exec_Engines\<close> guarantee: which worker may use which environment,
  when an image is there, which version of the daemon's protocol is spoken, which memory limit
  a container gets and which engine a parsed configuration selects.
\<close>

section \<open>Images\<close>

text \<open>
  What the engine relies on from the daemon: an inspection reports the image a name is tagged
  with, an error when there is none, and changes no tag; removing an image by its identity
  leaves the names of other images alone. \<open>tags\<close> reads the tags of a state of the daemon.
\<close>

definition image_laws :: "('c, 'w) outside \<Rightarrow> ('w \<Rightarrow> string \<Rightarrow> string option) \<Rightarrow> bool" where
  "image_laws os tags \<longleftrightarrow>
     (\<forall>c n w i err w'. ImageInspectWithRaw os c n w = ((i, err), w') \<longrightarrow>
        tags w' = tags w \<and> (case tags w n of Some j \<Rightarrow> i = j \<and> err = None | None \<Rightarrow> i = [] \<and> err \<noteq> None)) \<and>
     (\<forall>c i w n err w'. ImageRemove os c i w = (err, w') \<longrightarrow> tags w n \<noteq> Some i \<longrightarrow> tags w' n = tags w n)"

lemma inspect_law:
  assumes "image_laws os tags" and "ImageInspectWithRaw os c n w = ((i, err), w')"
  shows "tags w' = tags w \<and> (i \<noteq> [] \<or> err = None \<longrightarrow> tags w' n = Some i)"
proof -
  have "tags w' = tags w \<and> (case tags w n of Some j \<Rightarrow> i = j \<and> err = None | None \<Rightarrow> i = [] \<and> err \<noteq> None)"
    using assms unfolding image_laws_def by blast
  then show ?thesis by (cases "tags w n") auto
qed

lemma remove_law:
  "image_laws os tags \<Longrightarrow> ImageRemove os c i w = (err, w') \<Longrightarrow> tags w n \<noteq> Some i \<Longrightarrow> tags w' n = tags w n"
  unfolding image_laws_def by blast

lemma with_client_Ret:
  "with_client f (de, w) = Ret (x, (de', w')) \<longleftrightarrow>
     (\<exists>c o'. de_client de = Some c \<and> f c (ew_outside w) = (x, o') \<and> de' = de \<and> w' = w\<lparr>ew_outside := o'\<rparr>)"
  by (auto simp: with_client_def on_outside_def split: option.splits prod.splits)

lemma get_engine_Ret [simp]: "get_engine (de, w) = Ret (x, (de', w')) \<longleftrightarrow> x = de \<and> de' = de \<and> w' = w"
  by (auto simp: get_engine_def)

lemma needsUpdate_False:
  assumes "image_laws os tags" and "needsUpdate os name meta (de, w) = Ret (False, (de', w'))"
  shows "tags (ew_outside w') (name @ '':'' @ meta) \<noteq> None"
proof -
  from assms(2) obtain c i err where "ImageInspectWithRaw os c (name @ '':'' @ meta) (ew_outside w) = ((i, err), ew_outside w')"
    and "i \<noteq> []"
    by (auto simp: needsUpdate_def with_client_Ret split: if_splits)
  with inspect_law [OF assms(1)] show ?thesis by fastforce
qed

lemma IDForName_found:
  assumes "image_laws os tags" and "IDForName os name meta (de, w) = Ret ((i, None), (de', w'))"
  shows "tags (ew_outside w') (name @ '':'' @ meta) = Some i"
proof -
  from assms(2) obtain c w1 where "ImageInspectWithRaw os c (name @ '':'' @ meta) w1 = ((i, None), ew_outside w')"
    by (auto simp: IDForName_def with_client_Ret split: option.splits)
  with inspect_law [OF assms(1)] show ?thesis by fastforce
qed

lemma removeOldImage_tagged:
  assumes "image_laws os tags" and "removeOldImage os old new (de, w) = Ret (u, (de', w'))"
    and "tags (ew_outside w) n = Some new"
  shows "tags (ew_outside w') n = Some new"
  using assms(2,3)
  by (auto simp: removeOldImage_def with_client_Ret dest: remove_law [OF assms(1), where n = n] split: if_splits)

section \<open>Properties\<close>

text \<open>
  A daemon for the witnesses: it has one image, \<^verbatim>\<open>a:1\<close>, every pull succeeds and every
  container starts.
\<close>

definition sample_outside :: "(unit, unit) outside" where
  "sample_outside = \<lparr>Getenv = (\<lambda>_. []), DefaultVersion = ''1.26'', NewEnvClient = (\<lambda>w. (Inr (), w)),
     NewClient = (\<lambda>_ _ w. (Inr (), w)), Ping = (\<lambda>_ w. (Inr ''1.26'', w)), ClientVersion = (\<lambda>_. ''1.26''),
     UpdateClientVersion = (\<lambda>_ c. c),
     ImageInspectWithRaw = (\<lambda>_ n w. (if n = ''a:1'' then (''0123456789ab'', None) else ([], Some ''no such image''), w)),
     ImagePull = (\<lambda>_ _ _ w. (None, w)), ImageRemove = (\<lambda>_ _ w. (None, w)), ContainerCreate = (\<lambda>_ _ _ w. (Inr ''cid'', w)),
     ContainerStart = (\<lambda>_ _ w. (None, w)), ContainerRemove = (\<lambda>_ _ w. (None, w)), ContainerList = (\<lambda>_ _ w. (Inr [], w)),
     RegistryLogin = (\<lambda>_ _ w. (None, w)), EncodeAuth = (\<lambda>_. Inr ''auth''),
     DriverRun = (\<lambda>_ _ w. (EmptyExecResult\<lparr>Success := Some True\<rparr>, w))\<rparr>"

lemma sample_image_laws:
  "image_laws sample_outside (\<lambda>_ n. if n = ''a:1'' then Some ''0123456789ab'' else None)"
  by (auto simp: image_laws_def sample_outside_def)

definition fresh_world :: "(unit, unit) engine_world" where
  "fresh_world = \<lparr>ew_cache = newEnvCache, ew_envs = Map.empty, ew_next = 0, ew_outside = ()\<rparr>"

text \<open>
  C24: an image that the engine calls available is there. Whatever path the check takes (the
  image exists locally, or it is pulled, and the image it replaces is removed), the answer
  \<open>True\<close> means that afterwards the daemon resolves the image's name; and the answer is
  \<open>True\<close> exactly when no error is reported.
\<close>

theorem docker_IsAvailable_sound:
  assumes "image_laws os tags" and "docker_IsAvailable os name meta (de, w) = Ret ((avail, err), (de', w'))"
  shows "(avail \<longleftrightarrow> err = None) \<and> (avail \<longrightarrow> tags (ew_outside w') (name @ '':'' @ meta) \<noteq> None)"
proof -
  obtain needed de1 w1 de2 w2 where up: "err = None \<Longrightarrow> needsUpdate os name meta (de1, w1) = Ret (needed, (de2, w2))"
    and rest: "(\<exists>e. avail = False \<and> err = Some e) \<or> (\<not> needed \<and> avail \<and> err = None \<and> w' = w2) \<or>
      (avail \<and> err = None \<and> (\<exists>i b de3 w3 de4 w4 u. IDForName os name meta (de3, w3) = Ret ((i, None), (de4, w4)) \<and>
        removeOldImage os b i (de4, w4) = Ret (u, (de', w'))))"
    using assms(2) by (auto simp: docker_IsAvailable_def split: option.splits if_splits) blast+
  show ?thesis
    using rest
  proof (elim disjE)
    assume "\<not> needed \<and> avail \<and> err = None \<and> w' = w2"
    then show ?thesis using up needsUpdate_False [OF assms(1)] by auto
  next
    assume "avail \<and> err = None \<and> (\<exists>i b de3 w3 de4 w4 u. IDForName os name meta (de3, w3) = Ret ((i, None), (de4, w4)) \<and>
        removeOldImage os b i (de4, w4) = Ret (u, (de', w')))"
    then show ?thesis using IDForName_found [OF assms(1)] removeOldImage_tagged [OF assms(1)] by fastforce
  qed auto
qed

theorem docker_IsAvailable_sound_witness:
  "(\<lambda>n. if n = ''a:1'' then Some ''0123456789ab'' else None) (''a'' @ '':'' @ ''1'') \<noteq> None \<and>
   docker_IsAvailable sample_outside ''a'' ''1'' (new_docker zero_config zero_docker, fresh_world) =
     Ret ((True, None), (new_docker zero_config zero_docker\<lparr>de_client := Some ()\<rparr>, fresh_world))"
proof -
  let ?tags = "\<lambda>w n. if n = ''a:1'' then Some ''0123456789ab'' else None"
  have ver: "version_LessThan ''1.26'' ''1.26'' = False" by simp
  have short: "shortImageID ''0123456789ab'' = Ret ''0123456789a''" by (simp add: shortImageID_def)
  have run: "docker_IsAvailable sample_outside ''a'' ''1'' (new_docker zero_config zero_docker, fresh_world) =
     Ret ((True, None), (new_docker zero_config zero_docker\<lparr>de_client := Some ()\<rparr>, fresh_world))"
    by (simp add: docker_IsAvailable_def ensureConnected_def new_docker_def newClient_def sample_outside_def
      zero_docker_def needsUpdate_def with_client_def on_outside_def get_engine_def driverImage_def go_then_def
      go_lift_def short zero_config_def fresh_world_def)
  from docker_IsAvailable_sound [OF sample_image_laws run] run show ?thesis by simp
qed

text \<open>
  C1: one worker per environment, and never a dead one. In every state that any interleaving
  of workers (acquiring an environment for a bundle, storing data in it, running commands in
  it, releasing it, or giving up without releasing it) and clean-ups can reach, no environment
  is held by two workers and every environment that is held is alive: the native and the Docker
  engine together, with any configuration and any behaviour of the Docker daemon.
\<close>

theorem environments_exclusive_and_alive:
  assumes "reachable (\<lambda>sh. world_ok (fst sh) \<and> snd sh = [])
      (engine_step (relay_acquire os cfg) (relay_release os cfg) (relay_cleaned os cfg) (env_used os)) (w, held)"
  shows "distinct (map snd held) \<and> (\<forall>(k, env) \<in> set held. alive w env)"
  using assms by (rule relay_engines.held_usable)

definition native_config :: Config where
  "native_config = zero_config\<lparr>ParsedEnginesEnabled := [''native'']\<rparr>"

definition native_bundle :: Bundle where
  "native_bundle = \<lparr>BundleVersion = 3, Name = ''b'', Version = ''1.0.0'', Permissions = [], Docker = None,
     Commands = Map.empty, Templates = Map.empty, available = True\<rparr>"

lemma relay_acquire_native:
  "\<exists>w'. relay_acquire os native_config now (pid, native_bundle) w = Ret (Inr (ew_next w), w')"
  by (simp add: relay_acquire_def EngineForBundle_def IsDocker_def native_bundle_def GetEngine_def NewNativeEngine_def
    NativeEnabled_def native_config_def NativeEngine_def native_NewEnvironment_def CreateEnvironment_def native_init_def
    alloc_env_def Let_def)

theorem environments_exclusive_and_alive_witness:
  "\<exists>w. relay_acquire sample_outside native_config 0 (''p'', native_bundle) fresh_world = Ret (Inr 0, w) \<and> alive w 0"
proof -
  let ?step = "engine_step (relay_acquire sample_outside native_config) (relay_release sample_outside native_config)
      (relay_cleaned sample_outside native_config) (env_used sample_outside)"
  obtain w where w: "relay_acquire sample_outside native_config 0 (''p'', native_bundle) fresh_world = Ret (Inr 0, w)"
    using relay_acquire_native [of sample_outside 0 "''p''" fresh_world] by (auto simp: fresh_world_def)
  have "world_ok fresh_world" by (simp add: fresh_world_def world_ok_def ids_bounded_def newEnvCache_def)
  then have "reachable (\<lambda>sh. world_ok (fst sh) \<and> snd sh = []) ?step (fresh_world, [])" by (intro reachable_init) simp
  moreover have "?step (fresh_world, []) (w, [((''p'', native_bundle), 0)])"
    by (rule es_acquire [where t = 0 and acquire = "relay_acquire sample_outside native_config"]) (rule w)
  ultimately have "reachable (\<lambda>sh. world_ok (fst sh) \<and> snd sh = []) ?step (w, [((''p'', native_bundle), 0)])"
    by (rule reachable_step)
  from environments_exclusive_and_alive [OF this] w show ?thesis by auto
qed

text \<open>
  The negotiated protocol version. A connection that the daemon answers on never speaks a
  newer version than the daemon's, which is taken to be 1.24 when the daemon does not say.
\<close>

theorem newClient_version:
  assumes "\<And>v c. ClientVersion os (UpdateClientVersion os v c) = v"
    and "\<And>c w. \<exists>w'. Ping os c w = (Inr served, w')"
    and "newClient os info w = (Inr c, w')"
  shows "\<not> version_LessThan (if served = [] then ''1.24'' else served) (ClientVersion os c)"
proof -
  obtain c1 w1 where "c = (if version_LessThan (if served = [] then ''1.24'' else served) (ClientVersion os c1)
      then UpdateClientVersion os (if served = [] then ''1.24'' else served) c1 else c1)"
    using assms(3) by (auto simp: newClient_def Let_def split: prod.splits sum.splits)
       (metis assms(2) prod.inject sum.inject(2) sum.distinct(1))+
  then show ?thesis using assms(1) by simp
qed

text \<open>A client is its version; the daemon serves version 1.24.\<close>

definition old_daemon :: "(string, unit) outside" where
  "old_daemon = \<lparr>Getenv = (\<lambda>_. []), DefaultVersion = ''1.26'', NewEnvClient = (\<lambda>w. (Inr ''1.26'', w)),
     NewClient = (\<lambda>_ v w. (Inr v, w)), Ping = (\<lambda>_ w. (Inr [], w)), ClientVersion = (\<lambda>c. c),
     UpdateClientVersion = (\<lambda>v _. v), ImageInspectWithRaw = (\<lambda>_ _ w. (([], Some ''e''), w)),
     ImagePull = (\<lambda>_ _ _ w. (None, w)), ImageRemove = (\<lambda>_ _ w. (None, w)), ContainerCreate = (\<lambda>_ _ _ w. (Inr [], w)),
     ContainerStart = (\<lambda>_ _ w. (None, w)), ContainerRemove = (\<lambda>_ _ w. (None, w)), ContainerList = (\<lambda>_ _ w. (Inr [], w)),
     RegistryLogin = (\<lambda>_ _ w. (None, w)), EncodeAuth = (\<lambda>_. Inr []), DriverRun = (\<lambda>_ _ w. (EmptyExecResult, w))\<rparr>"

theorem newClient_version_witness:
  "newClient old_daemon zero_docker () = (Inr ''1.24'', ()) \<and> \<not> version_LessThan ''1.24'' ''1.24''"
proof -
  have "version_LessThan ''1.24'' ''1.26''"
    by (simp add: version_LessThan_def version_compare_def atoi_def parse_int64_def digit_value_def)
  then have run: "newClient old_daemon zero_docker () = (Inr ''1.24'', ())"
    by (simp add: newClient_def old_daemon_def zero_docker_def)
  have "\<not> version_LessThan (if [] = ([] :: string) then ''1.24'' else []) (ClientVersion old_daemon ''1.24'')"
    by (rule newClient_version [where served = "[]", OF _ _ run]) (simp_all add: old_daemon_def)
  with run show ?thesis by (simp add: old_daemon_def)
qed

text \<open>
  C35: the memory limit of a container. The engine turns the configured megabytes into bytes
  and the environment multiplies by a megabyte again, so a limit of \<open>m\<close> megabytes becomes
  \<open>m\<close> times 2 to the 40 bytes, and any multiple of 2 to the 24 megabytes becomes 0, which
  Docker reads as no limit.
\<close>

theorem docker_memory_limit:
  "(0 \<le> ContainerMemory info \<and> ContainerMemory info < 2 ^ 24 \<longrightarrow>
      uint (cs_Memory (docker_spec (docker_options conn cfg b d info))) = ContainerMemory info * 2 ^ 40) \<and>
   (2 ^ 24 dvd ContainerMemory info \<longrightarrow> cs_Memory (docker_spec (docker_options conn cfg b d info)) = 0)"
proof -
  let ?m = "ContainerMemory info"
  have mem: "cs_Memory (docker_spec (docker_options conn cfg b d info)) = word_of_int (?m * 2 ^ 40)"
    by (simp add: docker_spec_def docker_options_def megabyte_def)
  have "uint (word_of_int (?m * 2 ^ 40) :: 64 word) = (?m * 2 ^ 40) mod 2 ^ 64"
    by (subst uint_word_of_int) simp
  moreover have "?m * 2 ^ 40 mod 2 ^ 64 = ?m * 2 ^ 40" if "0 \<le> ?m" "?m < 2 ^ 24"
    using that by (intro mod_pos_pos_trivial) auto
  moreover have "(?m * 2 ^ 40) mod 2 ^ 64 = 0" if "2 ^ 24 dvd ?m"
  proof -
    have "(2 :: int) ^ 24 * 2 ^ 40 dvd ?m * 2 ^ 40" using that by (rule mult_dvd_mono) simp
    then show ?thesis by (simp add: dvd_eq_mod_eq_0)
  qed
  ultimately show ?thesis unfolding mem by (metis uint_0_iff)
qed

theorem docker_memory_limit_witness:
  "uint (cs_Memory (docker_spec (docker_options () zero_config native_bundle \<lparr>Image = ''a'', Tag = ''1'', Binds = []\<rparr>
     (zero_docker\<lparr>ContainerMemory := 16\<rparr>)))) = 16 * 2 ^ 40"
  using docker_memory_limit [of "zero_docker\<lparr>ContainerMemory := 16\<rparr>" "()" zero_config native_bundle
    "\<lparr>Image = ''a'', Tag = ''1'', Binds = []\<rparr>"] by simp

text \<open>
  C27: a parsed configuration selects engines without a panic. For a configuration that the
  parser returned and the verification accepted, looking up the engine of a bundle gives the
  engine of the bundle's kind exactly when that kind is among the enabled engines, and the
  error that names the disabled kind otherwise.
\<close>

theorem parsed_config_selects_engine:
  assumes "RawConfig_Parse yaml getenv validate validateDocker tag rc = Ret (Some c, err)" and "Verify c = Inr c'"
  shows "EngineForBundle c' b =
    (if IsDocker b
     then if ''docker'' \<in> set (ParsedEnginesEnabled c)
          then Ret (Inr (Docker_Eng (new_docker c' (the (cfg_Docker c)))))
          else Ret (Inl ''Docker engine is disabled'')
     else if ''native'' \<in> set (ParsedEnginesEnabled c) then Ret (Inr (Native_Eng c'))
          else Ret (Inl ''Native execution engine is disabled.''))"
proof -
  have "\<exists>d. cfg_Docker c = Some d"
    using assms(1)
    by (auto simp: RawConfig_Parse_def populate_def parseEngines_def Let_def split: sum.splits if_splits option.splits)
  moreover have "cfg_Docker c' = cfg_Docker c" "ParsedEnginesEnabled c' = ParsedEnginesEnabled c"
    using assms(2) by (auto simp: Verify_def split: if_splits)
  ultimately show ?thesis
    by (auto simp: EngineForBundle_def GetEngine_def NewDockerEngine_def NewNativeEngine_def new_docker_def
      DockerEnabled_def NativeEnabled_def DockerEngine_def NativeEngine_def ErrDockerDisabled_def errorDisabled_def)
qed

theorem parsed_config_selects_engine_witness:
  "\<exists>c c'. RawConfig_Parse (\<lambda>_. Inr (zero_config\<lparr>cfg_Version := RelayConfigVersion, DynamicConfigRoot := ''/d''\<rparr>))
       empty_environment (\<lambda>_. None) (\<lambda>_ _. None) ''0.13'' ''x'' = Ret (Some c, None) \<and> Verify c = Inr c' \<and>
     EngineForBundle c' native_bundle = Ret (Inr (Native_Eng c'))"
proof -
  let ?c0 = "zero_config\<lparr>cfg_Version := RelayConfigVersion, DynamicConfigRoot := ''/d''\<rparr>"
  obtain c1 where c1: "populate empty_environment ?c0 = Ret c1" using populate_start by blast
  have "EnginesEnabled c1 = ''docker,native'' \<and> DynamicConfigRoot c1 = ''/d'' \<and>
      ParsedEnginesEnabled c1 = parseEngines_loop (split_on (CHR '','') ''docker,native'') []"
    using c1 by (elim populateE) (simp add: fill_config pick_def empty_environment_def zero_config_def)
  moreover have "parseEngines_loop (split_on (CHR '','') ''docker,native'') [] = [''docker'', ''native'']" by code_simp
  moreover obtain d where "cfg_Docker c1 = Some d" using c1 by (auto simp: populate_def parseEngines_def)
  ultimately obtain c where c: "RawConfig_Parse (\<lambda>_. Inr ?c0) empty_environment (\<lambda>_. None) (\<lambda>_ _. None) ''0.13'' ''x'' = Ret (Some c, None)"
    and c2: "DynamicConfigRoot c = ''/d''" "ParsedEnginesEnabled c = [''docker'', ''native'']"
    using c1 by (auto simp: RawConfig_Parse_def IsEmpty_def Let_def)
  then obtain c' where c': "Verify c = Inr c'" by (cases "ManagedDynamicConfig c") (auto simp: Verify_def DockerEnabled_def DockerEngine_def)
  from parsed_config_selects_engine [OF c c', of native_bundle] c c' c2(2) show ?thesis
    by (auto simp: IsDocker_def native_bundle_def)
qed

end
