(* ===== verification/Exec_Worker.thy ===== *)
theory Exec_Worker
  imports Engine_Safety Bundle_Catalog
begin

text \<open>
  The execution workers, \<^verbatim>\<open>relay/worker/execution.go\<close> and \<^verbatim>\<open>relay/util/json.go\<close>. A worker
  takes invocations off a queue and decodes each with one JSON decoder that it keeps for its
  whole life; \<open>executeCommand\<close> finds the bundle and its engine, acquires an environment, runs
  the command, releases the environment, parses the output and publishes the response.
\<close>

section \<open>The decoder\<close>

text \<open>
  \<^verbatim>\<open>json.Decoder\<close>: an error in the text of a value, the end of the input included, is kept
  and returned by every later call; a value of the wrong shape is an error of this call only.
  What the decoder has read beyond a value stays in its buffer. \<open>scan\<close> reads the first value of
  a text: it gives the sticky error, or the decoded request (or the error of its shape) and
  what is left in the buffer.
\<close>

record decoder =
  dec_err :: "error option"
  dec_buf :: string

definition NewJSONDecoder :: decoder where
  "NewJSONDecoder = \<lparr>dec_err = None, dec_buf = []\<rparr>"

type_synonym 'a scanner = "string \<Rightarrow> error + (error + 'a) \<times> string"

definition Decode :: "'a scanner \<Rightarrow> string \<Rightarrow> decoder \<Rightarrow> (error + 'a) \<times> decoder" where
  "Decode scan input d =
     (case dec_err d of
        Some e \<Rightarrow> (Inl e, d)
      | None \<Rightarrow>
          (case scan (dec_buf d @ input) of
             Inl e \<Rightarrow> (Inl e, d\<lparr>dec_err := Some e\<rparr>)
           | Inr (r, rest) \<Rightarrow> (r, d\<lparr>dec_buf := rest\<rparr>)))"

section \<open>Executing a command\<close>

record CommandInvocation =
  ci_RelayConfig :: Config
  ci_Engines :: Config
  Topic :: string
  Payload :: string
  Shutdown :: bool

text \<open>
  What an execution reads: the scanner of requests, the encoders of the pipeline environment
  and of responses, the sources of the command's environment, the order of the matchers, the
  JSON decoder of command output, and the two readings of the clock.
\<close>

record exec_inputs =
  in_scan :: "ExecutionRequest scanner"
  in_marshal :: "go_value \<Rightarrow> string"
  in_marshal_response :: "ExecutionResponse \<Rightarrow> string"
  in_world :: env_world
  in_matchers :: "nat \<Rightarrow> outputMatcher list"
  in_decode :: "string \<Rightarrow> error + go_value"
  in_acquired :: int
  in_released :: int

record ('c, 'w) worker_world =
  ww_engines :: "('c, 'w) engine_world"
  ww_catalog :: Catalog
  ww_published :: "(string \<times> string) list"

definition setError :: "ExecutionResponse \<Rightarrow> error \<Rightarrow> ExecutionResponse" where
  "setError resp err = resp\<lparr>Status := ''error'', StatusMessage := err\<rparr>"

definition dynamic_config_key :: string where
  "dynamic_config_key = ''dynamic-config''"

text \<open>The flag kept in the environment's user data; the type assertion panics on anything but a bool.\<close>

definition dynamic_flag :: "(string \<rightharpoonup> go_value) \<Rightarrow> bool go_result" where
  "dynamic_flag userData =
     (case userData dynamic_config_key of
        None \<Rightarrow> Ret True
      | Some (GBool b) \<Rightarrow> Ret b
      | Some _ \<Rightarrow> Panic ''interface conversion'')"

text \<open>The part between acquiring the environment and having a response.\<close>

definition run_in_environment ::
    "('c, 'w) outside \<Rightarrow> exec_inputs \<Rightarrow> CommandInvocation \<Rightarrow> ExecutionRequest \<Rightarrow> Bundle \<Rightarrow> 'c engine \<Rightarrow> env_id \<Rightarrow>
     (('c, 'w) engine_world, ExecutionResponse) go_m" where
  "run_in_environment os ins invoke request b eng env =
     go_then (get_user_data env) (\<lambda>data.
       let userData = (case data of Inr (Some d) \<Rightarrow> d | _ \<Rightarrow> Map.empty)
       in go_then (go_lift (dynamic_flag userData)) (\<lambda>hasDynamicConfig.
            go_then (go_lift (ToCircuitRequest (in_marshal ins) (in_world ins) request b (ci_RelayConfig invoke) hasDynamicConfig)) (\<lambda>r.
              case r of
                Inl err \<Rightarrow> go_return (setError empty_response err)
              | Inr (circuitRequest, foundDynamicConfig) \<Rightarrow>
                  go_then (if \<not> foundDynamicConfig
                           then go_then (set_user_data env (userData(dynamic_config_key \<mapsto> GBool False))) (\<lambda>_. go_return ())
                           else go_return ()) (\<lambda>_.
                    go_then (run_env os env circuitRequest) (\<lambda>(result, err).
                      go_then (\<lambda>w. drop_engine (engine_ReleaseEnvironment os (in_released ins) (PipelineID request) b env (eng, w))) (\<lambda>_.
                        go_return (fst (Output_Parse (in_matchers ins) (in_decode ins) result request err))))))))"

definition respond ::
    "('c, 'w) outside \<Rightarrow> exec_inputs \<Rightarrow> CommandInvocation \<Rightarrow> ExecutionRequest \<Rightarrow> Catalog \<Rightarrow>
     (('c, 'w) engine_world, ExecutionResponse) go_m" where
  "respond os ins invoke request catalog =
     (case Find (BundleName request) catalog of
        None \<Rightarrow> go_return (empty_response\<lparr>Status := ''error'',
                  StatusMessage := ''Unknown command bundle '' @ BundleName request\<rparr>)
      | Some b \<Rightarrow>
          go_then (go_lift (EngineForBundle (ci_Engines invoke) b)) (\<lambda>e.
            case e of
              Inl err \<Rightarrow> go_return (setError empty_response err)
            | Inr eng \<Rightarrow>
                (\<lambda>w. case engine_NewEnvironment os (in_acquired ins) (PipelineID request) b (eng, w) of
                   Panic p \<Rightarrow> Panic p
                 | Ret (r, (eng', w')) \<Rightarrow>
                     (case r of
                        Inl err \<Rightarrow> Ret (setError empty_response err, w')
                      | Inr env \<Rightarrow> run_in_environment os ins invoke request b eng' env w'))))"

definition executeCommand ::
    "('c, 'w) outside \<Rightarrow> exec_inputs \<Rightarrow> CommandInvocation \<Rightarrow> decoder \<times> ('c, 'w) worker_world \<Rightarrow>
     (decoder \<times> ('c, 'w) worker_world) go_result" where
  "executeCommand os ins invoke = (\<lambda>(d, ww).
     case Decode (in_scan ins) (Payload invoke) d of
       (Inl err, d') \<Rightarrow> Ret (d', ww)
     | (Inr raw, d') \<Rightarrow>
         go_bind (Parse raw) (\<lambda>request.
           go_bind (respond os ins invoke request (ww_catalog ww) (ww_engines ww)) (\<lambda>(response, w').
             Ret (d', ww\<lparr>ww_engines := w',
               ww_published := ww_published ww @ [(ReplyTo request, in_marshal_response ins response)]\<rparr>))))"

section \<open>The worker loop\<close>

text \<open>
  What is taken off the queue: something that is not a context, or a context with or without
  an invocation. The decoder is made for the first invocation; later ones only replace the text
  it reads from.
\<close>

datatype queued =
    Not_Context
  | Context "CommandInvocation option"

fun ExecutionWorker_step ::
    "('c, 'w) outside \<Rightarrow> exec_inputs \<Rightarrow> queued \<Rightarrow> decoder option \<times> ('c, 'w) worker_world \<Rightarrow>
     (decoder option \<times> ('c, 'w) worker_world) go_result" where
  "ExecutionWorker_step os ins Not_Context st = Ret st"
| "ExecutionWorker_step os ins (Context None) st = Panic ''interface conversion''"
| "ExecutionWorker_step os ins (Context (Some invoke)) (d, ww) =
     go_bind (executeCommand os ins invoke (case d of None \<Rightarrow> NewJSONDecoder | Some d \<Rightarrow> d, ww))
       (\<lambda>(d', ww'). Ret (Some d', ww'))"

text \<open>The loop over the items that arrive, each with what its execution reads.\<close>

fun ExecutionWorker ::
    "('c, 'w) outside \<Rightarrow> (queued \<times> exec_inputs) list \<Rightarrow> decoder option \<times> ('c, 'w) worker_world \<Rightarrow>
     (decoder option \<times> ('c, 'w) worker_world) go_result" where
  "ExecutionWorker os [] st = Ret st"
| "ExecutionWorker os ((q, ins) # qs) st = go_bind (ExecutionWorker_step os ins q st) (ExecutionWorker os qs)"

section \<open>Laws\<close>

lemma executeCommand_Ret:
  "executeCommand os ins invoke (d, ww) = Ret (d', ww') \<longleftrightarrow>
     (\<exists>err. Decode (in_scan ins) (Payload invoke) d = (Inl err, d') \<and> ww' = ww) \<or>
     (\<exists>raw request response w'. Decode (in_scan ins) (Payload invoke) d = (Inr raw, d') \<and> Parse raw = Ret request \<and>
        respond os ins invoke request (ww_catalog ww) (ww_engines ww) = Ret (response, w') \<and>
        ww' = ww\<lparr>ww_engines := w',
          ww_published := ww_published ww @ [(ReplyTo request, in_marshal_response ins response)]\<rparr>)"
  by (auto simp: executeCommand_def split: prod.splits sum.splits)

lemma Parse_ReplyTo: "Parse er = Ret er' \<Longrightarrow> ReplyTo er' = ReplyTo er"
  by (auto simp: Parse_def Let_def split: if_splits)

subsection \<open>What an execution does to the leases\<close>

fun engine_slot :: "'c engine \<Rightarrow> string \<Rightarrow> Bundle \<Rightarrow> string option" where
  "engine_slot (Docker_Eng de) pid b = Some (makeKey pid b)"
| "engine_slot (Native_Eng c) pid b = None"

lemma engine_New_lease:
  assumes "engine_NewEnvironment os now pid b (eng, w) = Ret (r, (eng', w'))" and "world_ok w"
  shows "world_ok w' \<and> keeps_leases w w' {} \<and> engine_slot eng' pid b = engine_slot eng pid b \<and>
    (r = Inr env \<longrightarrow> lease w' (engine_slot eng' pid b) env \<and> \<not> lease w slot env)"
proof (cases eng)
  case (Docker_Eng de)
  with assms(1) obtain de' where "eng' = Docker_Eng de'" "docker_NewEnvironment os now pid b (de, w) = Ret (r, (de', w'))" by auto
  with docker_NewEnvironment_lease(1) docker_NewEnvironment_lease(2) [where X = "{}"] docker_NewEnvironment_lease(3) assms(2) Docker_Eng
  show ?thesis by (metis engine_slot.simps(1))
next
  case (Native_Eng c)
  with assms(1) obtain opts where "eng' = Native_Eng c" "CreateEnvironment os opts w = Ret (r, w')"
    by (auto simp: native_NewEnvironment_def)
  with CreateEnvironment_lease(1) CreateEnvironment_lease(2) [where X = "{}"] CreateEnvironment_lease(3) assms(2) Native_Eng
  show ?thesis by (metis engine_slot.simps(2))
qed

lemma engine_Release_lease:
  assumes "engine_ReleaseEnvironment os now pid b env (eng, w) = Ret (u, (eng', w'))" and "world_ok w"
    and "lease w (engine_slot eng pid b) env"
  shows "world_ok w' \<and> keeps_leases w w' {env}"
proof (cases eng)
  case (Docker_Eng de)
  with assms show ?thesis
    using docker_ReleaseEnvironment_lease by (metis engine_ReleaseEnvironment.simps(1) engine_slot.simps(1) lift_docker_Ret)
next
  case (Native_Eng c)
  with assms have "native_ReleaseEnvironment os env w = Ret (u, w')" by auto
  with native_release_keeps assms(2,3) Native_Eng show ?thesis by (metis engine_slot.simps(2))
qed

lemma set_user_data_keeps:
  "set_user_data env d w = Ret (err, w') \<Longrightarrow> world_ok w \<Longrightarrow> world_ok w' \<and> keeps_leases w w' {}"
  using env_used_keeps [of w _ env w'] by (auto simp: env_used_def)

lemma run_env_keeps:
  "run_env os env r w = Ret (x, w') \<Longrightarrow> world_ok w \<Longrightarrow> world_ok w' \<and> keeps_leases w w' {}"
  by (rule env_used_keeps [of w os env w']) (unfold env_used_def, blast+)

text \<open>The three ways \<open>run_in_environment\<close> can go.\<close>

lemma run_in_environment_cases:
  assumes "run_in_environment os ins invoke request b eng env w = Ret (resp, w')"
  obtains (refused) hasDyn err where
      "ToCircuitRequest (in_marshal ins) (in_world ins) request b (ci_RelayConfig invoke) hasDyn = Ret (Inl err)"
      "resp = setError empty_response err" "w' = w"
    | (ran) w1 cr result err w2 eng' u where "w1 = w \<or> (\<exists>d e. set_user_data env d w = Ret (e, w1))"
      "run_env os env cr w1 = Ret ((result, err), w2)"
      "engine_ReleaseEnvironment os (in_released ins) (PipelineID request) b env (eng, w2) = Ret (u, (eng', w'))"
      "resp = fst (Output_Parse (in_matchers ins) (in_decode ins) result request err)"
      "\<exists>hasDyn found. ToCircuitRequest (in_marshal ins) (in_world ins) request b (ci_RelayConfig invoke) hasDyn = Ret (Inr (cr, found))"
proof -
  have get: "get_user_data env w = Ret (data, w1) \<Longrightarrow> w1 = w" for data w1
    by (auto simp: get_user_data_def split: option.splits)
  obtain U hasDyn r where flag: "ToCircuitRequest (in_marshal ins) (in_world ins) request b (ci_RelayConfig invoke) hasDyn = Ret r"
    and rest: "(case r of
                Inl err \<Rightarrow> go_return (setError empty_response err)
              | Inr (circuitRequest, foundDynamicConfig) \<Rightarrow>
                  go_then (if \<not> foundDynamicConfig
                           then go_then (set_user_data env (U(dynamic_config_key \<mapsto> GBool False))) (\<lambda>_. go_return ())
                           else go_return ()) (\<lambda>_.
                    go_then (run_env os env circuitRequest) (\<lambda>(result, err).
                      go_then (\<lambda>w. drop_engine (engine_ReleaseEnvironment os (in_released ins) (PipelineID request) b env (eng, w))) (\<lambda>_.
                        go_return (fst (Output_Parse (in_matchers ins) (in_decode ins) result request err)))))) w = Ret (resp, w')"
    using assms get unfolding run_in_environment_def Let_def by (simp only: go_then_Ret_iff go_lift_Ret_iff) blast
  show thesis
  proof (cases r)
    case (Inl err)
    with flag rest show thesis by (intro refused) auto
  next
    case (Inr p)
    obtain cr found where p: "p = (cr, found)" by (cases p)
    from rest Inr p obtain w1 result err w2 u eng' where "w1 = w \<or> (\<exists>d e. set_user_data env d w = Ret (e, w1))"
      "run_env os env cr w1 = Ret ((result, err), w2)"
      "engine_ReleaseEnvironment os (in_released ins) (PipelineID request) b env (eng, w2) = Ret (u, (eng', w'))"
      "resp = fst (Output_Parse (in_matchers ins) (in_decode ins) result request err)"
      by (cases found; clarsimp) (blast | metis)+
    then show thesis using flag Inr p by (intro ran) auto
  qed
qed

lemma respond_cases:
  assumes "respond os ins invoke request catalog w = Ret (resp, w')"
  obtains (same) "w' = w"
    | (failed) b eng eng' err where
      "engine_NewEnvironment os (in_acquired ins) (PipelineID request) b (eng, w) = Ret (Inl err, (eng', w'))"
    | (env) b eng eng' env w1 where "Find (BundleName request) catalog = Some b"
      "EngineForBundle (ci_Engines invoke) b = Ret (Inr eng)"
      "engine_NewEnvironment os (in_acquired ins) (PipelineID request) b (eng, w) = Ret (Inr env, (eng', w1))"
      "run_in_environment os ins invoke request b eng' env w1 = Ret (resp, w')"
proof (cases "Find (BundleName request) catalog")
  case None
  with assms show thesis by (intro same) (simp add: respond_def)
next
  case (Some b)
  with assms obtain e :: "error + 'a engine" where e: "EngineForBundle (ci_Engines invoke) b = Ret e"
    by (auto simp: respond_def)
  show thesis
  proof (cases e)
    case (Inl err)
    with assms Some e show thesis by (intro same) (simp add: respond_def)
  next
    case (Inr eng)
    have run: "(case engine_NewEnvironment os (in_acquired ins) (PipelineID request) b (eng, w) of
                   Panic p \<Rightarrow> Panic p
                 | Ret (r, (eng', w')) \<Rightarrow>
                     (case r of
                        Inl err \<Rightarrow> Ret (setError empty_response err, w')
                      | Inr env \<Rightarrow> run_in_environment os ins invoke request b eng' env w')) = Ret (resp, w')"
      using assms Some e Inr by (simp add: respond_def)
    then obtain r eng' w1 where new: "engine_NewEnvironment os (in_acquired ins) (PipelineID request) b (eng, w) = Ret (r, (eng', w1))"
      by (auto split: go_result.splits)
    show thesis
      using run new Some e Inr failed env by (cases r) auto
  qed
qed

lemma respond_keeps:
  assumes "respond os ins invoke request catalog w = Ret (resp, w')" and "world_ok w"
  shows "world_ok w' \<and> keeps_leases w w' {}"
  using assms(1)
proof (cases rule: respond_cases)
  case same
  then show ?thesis using assms(2) by (simp add: keeps_leases_def)
next
  case failed
  then show ?thesis using engine_New_lease [OF _ assms(2)] by blast
next
  case (env b eng eng' env w1)
  note new = engine_New_lease [OF env(3) assms(2)]
  then have ok1: "world_ok w1" "keeps_leases w w1 {}" "lease w1 (engine_slot eng' (PipelineID request) b) env"
    and unleased: "\<And>slot. \<not> lease w slot env" by blast+
  have "world_ok w' \<and> keeps_leases w1 w' {env}"
    using env(4)
  proof (cases rule: run_in_environment_cases)
    case refused
    then show ?thesis using ok1(1) by (simp add: keeps_leases_def)
  next
    case (ran w2 cr result err w3 eng2 u)
    have ok2: "world_ok w2 \<and> keeps_leases w1 w2 {}"
      using ran(1) ok1(1) set_user_data_keeps [of env _ w1] by (auto simp: keeps_leases_def)
    then have ok3: "world_ok w3 \<and> keeps_leases w2 w3 {}" using run_env_keeps [OF ran(2)] by blast
    then have "lease w3 (engine_slot eng' (PipelineID request) b) env" using ok1(3) ok2 by (simp add: keeps_leases_def)
    with engine_Release_lease [OF ran(3)] ok3 have "world_ok w' \<and> keeps_leases w3 w' {env}" by blast
    with ok2 ok3 show ?thesis by (simp add: keeps_leases_def)
  qed
  with ok1(2) unleased show ?thesis unfolding keeps_leases_def by (metis empty_iff singletonD)
qed

lemma engine_Release_unleased:
  assumes "engine_ReleaseEnvironment os now pid b env (eng, w) = Ret (u, (eng', w'))"
  shows "\<not> lease w' slot env"
proof (cases eng)
  case (Native_Eng c)
  with assms obtain err where "shutdown_env os env w = Ret (err, w')" by (auto simp: native_ReleaseEnvironment_def)
  then show ?thesis by (simp add: lease_def shutdown_env_Ret(1))
next
  case (Docker_Eng de)
  with assms obtain de' where rel: "docker_ReleaseEnvironment os now pid b env (de, w) = Ret (u, (de', w'))" by auto
  obtain stored ec where put: "cache_put (makeKey pid b) env now (ew_cache w) = (stored, ec)" by fastforce
  show ?thesis
  proof (cases stored)
    case True
    with rel put have "w' = w\<lparr>ew_cache := ec\<rparr>" by (auto simp: docker_ReleaseEnvironment_def)
    moreover have "\<exists>ce. envs ec (makeKey pid b) = Some ce \<and> ce_env ce = env \<and> \<not> inUse ce"
      using put True by (auto simp: cache_put_def split: option.splits if_splits)
    ultimately show ?thesis by (auto simp: lease_def)
  next
    case False
    with rel put obtain err w1 where "shutdown_env os env w1 = Ret (err, w')"
      by (auto simp: docker_ReleaseEnvironment_def)
    then show ?thesis by (simp add: lease_def shutdown_env_Ret(1))
  qed
qed

lemma ToCircuitRequest_Inl_iff:
  assumes "ToCircuitRequest marshal w er b c dyn = Ret r"
  shows "(\<exists>err. r = Inl err) \<longleftrightarrow> (\<nexists>cmd. Commands b (CommandName er) = Some (Some cmd))"
  using assms by (auto simp: ToCircuitRequest_def Let_def split: option.splits)

section \<open>Properties\<close>

text \<open>
  A relay for the witnesses: one native bundle without commands, and a payload that decodes to
  the sample request unless it is empty.
\<close>

definition sample_inputs :: exec_inputs where
  "sample_inputs = \<lparr>in_scan = (\<lambda>s. if s = [] then Inl ''EOF'' else Inr (Inr sample_request, [])), in_marshal = (\<lambda>_. []),
     in_marshal_response = StatusMessage, in_world = sample_world, in_matchers = (\<lambda>_. matchers), in_decode = (\<lambda>_. Inl []),
     in_acquired = 0, in_released = 1\<rparr>"

definition sample_invocation :: CommandInvocation where
  "sample_invocation = \<lparr>ci_RelayConfig = native_config, ci_Engines = native_config, Topic = ''t'', Payload = ''x'', Shutdown = False\<rparr>"

definition sample_relay :: "(unit, unit) worker_world" where
  "sample_relay = \<lparr>ww_engines = fresh_world, ww_catalog = NewCatalog\<lparr>bundles := [''b'' \<mapsto> native_bundle]\<rparr>, ww_published = []\<rparr>"

definition sample_parsed :: ExecutionRequest where
  "sample_parsed = sample_request\<lparr>bundleName := ''b'', commandName := ''c:d'', pipelineID := ''p1''\<rparr>"

definition native_env :: "unit environment" where
  "native_env = \<lparr>e_Kind = NativeKind, e_Bundle = ''b'', e_Conn = None, e_Image = [], e_Tag = [], e_containerID = [],
     e_userData = None, e_isDead = False\<rparr>"

definition one_env_world :: "(unit, unit) engine_world" where
  "one_env_world = fresh_world\<lparr>ew_envs := [0 \<mapsto> native_env], ew_next := 1\<rparr>"

lemma sample_engine: "EngineForBundle native_config native_bundle = Ret (Inr (Native_Eng native_config))"
  by (simp add: EngineForBundle_def IsDocker_def native_bundle_def GetEngine_def NewNativeEngine_def
    NativeEnabled_def native_config_def NativeEngine_def)

lemma sample_new: "native_NewEnvironment os native_bundle fresh_world = Ret (Inr 0, one_env_world)"
  by (simp add: native_NewEnvironment_def CreateEnvironment_def native_init_def alloc_env_def one_env_world_def
    native_env_def fresh_world_def native_bundle_def)

lemma sample_execution:
  "executeCommand sample_outside sample_inputs sample_invocation (NewJSONDecoder, sample_relay) =
     Ret (NewJSONDecoder, sample_relay\<lparr>ww_engines := one_env_world,
       ww_published := [(''/bot/pipelines/p1/reply'', ''Command not found'')]\<rparr>)"
proof -
  have "get_user_data 0 one_env_world = Ret (Inr None, one_env_world)"
    by (simp add: get_user_data_def env_GetUserData_def one_env_world_def native_env_def)
  moreover have "ToCircuitRequest m ww sample_parsed native_bundle c dyn = Ret (Inl ''Command not found'')" for m ww c dyn
    by (simp add: ToCircuitRequest_def native_bundle_def errorCommandNotFound_def)
  ultimately have "run_in_environment sample_outside sample_inputs sample_invocation sample_parsed native_bundle
      (Native_Eng native_config) 0 one_env_world = Ret (setError empty_response ''Command not found'', one_env_world)"
    by (simp add: run_in_environment_def Let_def dynamic_flag_def go_then_def go_lift_def)
  then have "respond sample_outside sample_inputs sample_invocation sample_parsed (ww_catalog sample_relay) (ww_engines sample_relay) =
      Ret (setError empty_response ''Command not found'', one_env_world)"
    by (simp add: respond_def sample_relay_def Find_def BundleName_def sample_parsed_def sample_engine
      go_then_def go_lift_def sample_new) (simp add: sample_invocation_def sample_engine sample_new)
  then show ?thesis
    by (simp add: executeCommand_def Decode_def NewJSONDecoder_def sample_inputs_def sample_invocation_def
      Parse_sample_request sample_parsed_def setError_def)
      (simp add: sample_relay_def sample_request_def)
qed

lemma sample_relay_ok: "world_ok (ww_engines sample_relay)"
  by (simp add: sample_relay_def fresh_world_def world_ok_def ids_bounded_def newEnvCache_def)

text \<open>
  A worker leaves the other workers' environments alone. Executing any payload, whatever
  the outcome, keeps the invariant of the shared world (bounded identities, live cached
  environments, one key per environment) and every lease that was held before.
\<close>

theorem executeCommand_keeps_leases:
  assumes "executeCommand os ins invoke (d, ww) = Ret (d', ww')" and "world_ok (ww_engines ww)"
    and "lease (ww_engines ww) slot env"
  shows "world_ok (ww_engines ww') \<and> lease (ww_engines ww') slot env"
proof -
  consider "ww' = ww"
    | request response w' where "respond os ins invoke request (ww_catalog ww) (ww_engines ww) = Ret (response, w')" "ww_engines ww' = w'"
    using assms(1) by (auto simp: executeCommand_Ret)
  then show ?thesis
  proof cases
    case 2
    with respond_keeps [OF 2(1) assms(2)] assms(3) show ?thesis by (simp add: keeps_leases_def)
  qed (use assms(2,3) in simp)
qed

theorem executeCommand_keeps_leases_witness:
  "world_ok (ww_engines (sample_relay\<lparr>ww_engines := one_env_world\<rparr>)) \<and>
   lease (ww_engines (sample_relay\<lparr>ww_engines := one_env_world\<rparr>)) None 0"
proof (rule executeCommand_keeps_leases)
  let ?ww = "sample_relay\<lparr>ww_engines := one_env_world\<rparr>"
  show "executeCommand sample_outside sample_inputs (sample_invocation\<lparr>Payload := []\<rparr>) (NewJSONDecoder, ?ww) =
      Ret (NewJSONDecoder\<lparr>dec_err := Some ''EOF''\<rparr>, ?ww)"
    by (simp add: executeCommand_def Decode_def NewJSONDecoder_def sample_inputs_def)
  show "world_ok (ww_engines ?ww)" "lease (ww_engines ?ww) None 0"
    by (simp_all add: one_env_world_def fresh_world_def world_ok_def ids_bounded_def newEnvCache_def lease_def alive_def native_env_def)
qed

text \<open>
  Exactly one answer per request. When a payload decodes to a request and the execution
  returns, one message is published, to the request's reply topic, and nothing published
  before is lost; when the payload does not decode, nothing is published and neither the
  environments nor the catalog change.
\<close>

theorem executeCommand_answers_once:
  assumes "executeCommand os ins invoke (d, ww) = Ret (d', ww')"
  shows "case fst (Decode (in_scan ins) (Payload invoke) d) of
      Inr raw \<Rightarrow> \<exists>msg. ww_published ww' = ww_published ww @ [(ReplyTo raw, msg)] \<and> ww_catalog ww' = ww_catalog ww
    | Inl err \<Rightarrow> ww' = ww"
  using assms by (auto simp: executeCommand_Ret Parse_ReplyTo)

theorem executeCommand_answers_once_witness:
  "\<exists>msg. ww_published (sample_relay\<lparr>ww_engines := one_env_world,
       ww_published := [(''/bot/pipelines/p1/reply'', ''Command not found'')]\<rparr>) = [(''/bot/pipelines/p1/reply'', msg)]"
  using executeCommand_answers_once [OF sample_execution]
  by (simp add: Decode_def NewJSONDecoder_def sample_inputs_def sample_invocation_def)

text \<open>
  C40: one malformed payload stops a worker for good. After a decoding error in the text of a
  payload the decoder keeps the error, and whatever invocations the worker takes off the queue
  afterwards, it publishes nothing and changes nothing.
\<close>

theorem malformed_payload_stops_worker:
  assumes "in_scan ins (dec_buf d @ Payload invoke) = Inl e" and "dec_err d = None"
    and "\<forall>q \<in> set qs. fst q \<noteq> Context None"
  shows "\<exists>d'. executeCommand os ins invoke (d, ww) = Ret (d', ww) \<and>
    ExecutionWorker os qs (Some d', ww) = Ret (Some d', ww)"
proof -
  let ?d = "d\<lparr>dec_err := Some e\<rparr>"
  have "executeCommand os ins invoke (d, ww) = Ret (?d, ww)"
    using assms(1,2) by (simp add: executeCommand_def Decode_def)
  moreover have "ExecutionWorker_step os ins q (Some ?d, ww) = Ret (Some ?d, ww)" if q: "q \<noteq> Context None" for ins q
  proof (cases q)
    case (Context x)
    then obtain i where "q = Context (Some i)" using q by (cases x) auto
    then show ?thesis by (simp add: executeCommand_def Decode_def)
  qed simp
  then have "ExecutionWorker os qs (Some ?d, ww) = Ret (Some ?d, ww)"
    using assms(3) by (induction qs) auto
  ultimately show ?thesis by blast
qed

theorem malformed_payload_stops_worker_witness:
  "\<exists>d'. executeCommand sample_outside sample_inputs (sample_invocation\<lparr>Payload := []\<rparr>) (NewJSONDecoder, sample_relay) = Ret (d', sample_relay) \<and>
     ExecutionWorker sample_outside [(Context (Some sample_invocation), sample_inputs)] (Some d', sample_relay) = Ret (Some d', sample_relay)"
  by (rule malformed_payload_stops_worker) (simp_all add: NewJSONDecoder_def sample_inputs_def)

text \<open>
  C13: who gives an environment back. After an execution that acquired an environment, the
  environment is free again (back in the cache or shut down) exactly when the bundle has the
  requested command; for an unknown command the worker is done and the environment stays
  leased, so it is never reused, cleaned or shut down.
\<close>

theorem environment_returned_iff_command_known:
  assumes "executeCommand os ins invoke (d, ww) = Ret (d', ww')" and "world_ok (ww_engines ww)"
    and "fst (Decode (in_scan ins) (Payload invoke) d) = Inr raw" and "Parse raw = Ret request"
    and "Find (BundleName request) (ww_catalog ww) = Some b" and "EngineForBundle (ci_Engines invoke) b = Ret (Inr eng)"
    and "engine_NewEnvironment os (in_acquired ins) (PipelineID request) b (eng, ww_engines ww) = Ret (Inr env, (eng', w1))"
  shows "(\<exists>slot. lease (ww_engines ww') slot env) \<longleftrightarrow> (\<nexists>cmd. Commands b (CommandName request) = Some (Some cmd))"
proof -
  obtain resp where resp: "respond os ins invoke request (ww_catalog ww) (ww_engines ww) = Ret (resp, ww_engines ww')"
    using assms(1,3,4) by (auto simp: executeCommand_Ret)
  then have run: "run_in_environment os ins invoke request b eng' env w1 = Ret (resp, ww_engines ww')"
    using assms(5-7) by (simp add: respond_def go_then_def go_lift_def)
  have leased: "lease w1 (engine_slot eng' (PipelineID request) b) env"
    using engine_New_lease [OF assms(7,2)] by blast
  from run show ?thesis
  proof (cases rule: run_in_environment_cases)
    case (refused hasDyn err)
    then show ?thesis using ToCircuitRequest_Inl_iff [OF refused(1)] leased by auto
  next
    case (ran w2 cr result err w3 eng2 u)
    then obtain hasDyn found where
      "ToCircuitRequest (in_marshal ins) (in_world ins) request b (ci_RelayConfig invoke) hasDyn = Ret (Inr (cr, found))" by blast
    from ToCircuitRequest_Inl_iff [OF this] engine_Release_unleased [OF ran(3)] show ?thesis by simp
  qed
qed

theorem environment_returned_iff_command_known_witness:
  "\<exists>slot. lease one_env_world slot 0"
proof -
  have "(\<exists>slot. lease (ww_engines (sample_relay\<lparr>ww_engines := one_env_world,
       ww_published := [(''/bot/pipelines/p1/reply'', ''Command not found'')]\<rparr>)) slot 0) \<longleftrightarrow>
     (\<nexists>cmd. Commands native_bundle (CommandName sample_parsed) = Some (Some cmd))"
  proof (rule environment_returned_iff_command_known [OF sample_execution sample_relay_ok])
    show "fst (Decode (in_scan sample_inputs) (Payload sample_invocation) NewJSONDecoder) = Inr sample_request"
      by (simp add: Decode_def NewJSONDecoder_def sample_inputs_def sample_invocation_def)
    show "Parse sample_request = Ret sample_parsed" by (simp add: Parse_sample_request sample_parsed_def)
    show "Find (BundleName sample_parsed) (ww_catalog sample_relay) = Some native_bundle"
      by (simp add: Find_def BundleName_def sample_parsed_def sample_relay_def)
    show "EngineForBundle (ci_Engines sample_invocation) native_bundle = Ret (Inr (Native_Eng native_config))"
      by (simp add: sample_invocation_def sample_engine)
    show "engine_NewEnvironment sample_outside (in_acquired sample_inputs) (PipelineID sample_parsed) native_bundle
        (Native_Eng native_config, ww_engines sample_relay) = Ret (Inr 0, (Native_Eng native_config, one_env_world))"
      by (simp add: sample_relay_def sample_new)
  qed
  then show ?thesis by (simp add: native_bundle_def)
qed

end
