(* ===== verification/Cog_Relay.thy ===== *)
theory Cog_Relay
  imports Announcer Exec_Worker Dynamic_Updater
begin

text \<open>
  The relay itself, \<^verbatim>\<open>relay/relay.go\<close>: it connects to the bus, subscribes to its topics, takes
  bundle lists into the catalog, checks the bundles' availability with the engines, queues
  command invocations for the workers, and runs its timers. It composes the components of the
  other theories: the catalog, the announcer (which shares the catalog), the dynamic
  configuration updater, the engines and the bus.
\<close>

section \<open>The model\<close>

text \<open>
  How a call of one of the relay's handlers ends: it is done, it is still waiting (for room in
  a channel, or in a loop that retries a connection), or it has ended the process by a panic
  or \<^verbatim>\<open>log.Fatalf\<close>.
\<close>

datatype 'a outcome = Done 'a | Blocked 'a | Died string

fun out_bind :: "'a outcome \<Rightarrow> ('a \<Rightarrow> 'a outcome) \<Rightarrow> 'a outcome" where
  "out_bind (Done x) f = f x"
| "out_bind (Blocked x) f = Blocked x"
| "out_bind (Died p) f = Died p"

fun out_of :: "'a go_result \<Rightarrow> 'a outcome" where
  "out_of (Ret x) = Done x"
| "out_of (Panic p) = Died p"

definition infoTopic :: string where
  "infoTopic = ''bot/relays/info''"

definition directiveTopic :: "string \<Rightarrow> string" where
  "directiveTopic relayID = ''bot/relays/'' @ relayID @ ''/directives''"

definition commandTopic :: "string \<Rightarrow> string" where
  "commandTopic relayID = ''/bot/commands/'' @ relayID @ ''/#''"

text \<open>
  The relay's state. A timer made by \<^verbatim>\<open>time.AfterFunc\<close> has a number; \<open>r_timers\<close> are the
  timers that will fire, with the function they call. \<open>r_subs\<close> are the topics subscribed to on
  the current connection, \<open>r_sent\<close> what was published, \<open>r_workers\<close> the number of workers.
\<close>

datatype relay_timer = BundleRefresh | DockerCleanup

record ('c, 'w) cogRelay =
  r_config :: Config
  r_connOpts :: "ConnectionOptions option"
  r_conn :: "MQTTConnection option"
  r_queue :: "CommandInvocation list"
  r_dockerEngine :: "'c engine option"
  r_catalog :: Catalog
  r_announcer :: "relayAnnouncer option"
  r_dynConfigUpdater :: "DynamicConfigUpdater option"
  directivesReplyTo :: string
  r_bundleTimer :: "nat option"
  r_cleanTimer :: "nat option"
  r_timers :: "nat \<rightharpoonup> relay_timer"
  r_nextTimer :: nat
  r_workers :: nat
  r_subs :: "string list"
  r_sent :: "(string \<times> string) list"
  r_world :: "('c, 'w) engine_world"

text \<open>
  What the relay reads: the bus, the duration parser, the JSON encoders and decoders, the order
  in which a catalog's map is visited, and when the updater's connect handler is called.
\<close>

record relay_env =
  re_bus :: bus_env
  re_parseDuration :: "string \<Rightarrow> error + int"
  re_marshal_list :: "ListBundlesMessage \<Rightarrow> string"
  re_marshal_ann :: "Announcement \<Rightarrow> string"
  re_marshal_get :: "GetDynamicConfigs \<Rightarrow> string"
  re_unmarshalAny :: "string \<Rightarrow> error + (string \<rightharpoonup> go_value)"
  re_unmarshalList :: "string \<Rightarrow> error + ListBundlesResponseEnvelope"
  re_order :: "Catalog \<Rightarrow> string list"
  re_sched :: callback_time

definition NewRelay :: "Config \<Rightarrow> 'w \<Rightarrow> ('c, 'w) cogRelay outcome" where
  "NewRelay config w =
     (if MaxConcurrent config < 0 then Died ''makechan: size out of range''
      else Done \<lparr>r_config = config, r_connOpts = None, r_conn = None, r_queue = [], r_dockerEngine = None,
        r_catalog = NewCatalog, r_announcer = None, r_dynConfigUpdater = None, directivesReplyTo = directiveTopic (ID config),
        r_bundleTimer = None, r_cleanTimer = None, r_timers = Map.empty, r_nextTimer = 0, r_workers = 0, r_subs = [],
        r_sent = [], r_world = \<lparr>ew_cache = newEnvCache, ew_envs = Map.empty, ew_next = 0, ew_outside = w\<rparr>\<rparr>)"

text \<open>The catalog is one object, which the announcer has a pointer to.\<close>

definition set_catalog :: "Catalog \<Rightarrow> ('c, 'w) cogRelay \<Rightarrow> ('c, 'w) cogRelay" where
  "set_catalog bc r = r\<lparr>r_catalog := bc, r_announcer := map_option (\<lambda>ra. ra\<lparr>catalog := bc\<rparr>) (r_announcer r)\<rparr>"

definition after_func :: "relay_timer \<Rightarrow> ('c, 'w) cogRelay \<Rightarrow> nat \<times> ('c, 'w) cogRelay" where
  "after_func f r = (r_nextTimer r, r\<lparr>r_timers := (r_timers r)(r_nextTimer r \<mapsto> f), r_nextTimer := Suc (r_nextTimer r)\<rparr>)"

definition stop_timer :: "nat \<Rightarrow> ('c, 'w) cogRelay \<Rightarrow> ('c, 'w) cogRelay" where
  "stop_timer t r = r\<lparr>r_timers := map_delete t (r_timers r)\<rparr>"

definition makeConnOpts :: "Config \<Rightarrow> ConnectionOptions go_result" where
  "makeConnOpts config =
     (case Cog config of
        None \<Rightarrow> Panic ''nil Cog''
      | Some cog \<Rightarrow> Ret \<lparr>Userid = ID config, co_Password = Token cog, co_Host = Host cog, co_Port = Port cog,
          co_SSLEnabled = SSLEnabled cog, co_SSLCertPath = SSLCertPath cog, EventsHandler = False,
          AutoReconnect = False, OnDisconnect = None\<rparr>)"

definition fixBundleVersion :: "string \<Rightarrow> string" where
  "fixBundleVersion version = (if length (split_on (CHR ''.'') version) = 2 then version @ ''.0'' else version)"

definition newWill :: "relay_env \<Rightarrow> string \<Rightarrow> string \<Rightarrow> string" where
  "newWill re relayID replyTo = re_marshal_ann re (NewOfflineAnnouncement relayID replyTo)"

definition requestBundles :: "relay_env \<Rightarrow> ('c, 'w) cogRelay \<Rightarrow> (error option \<times> ('c, 'w) cogRelay) go_result" where
  "requestBundles re r =
     (let raw = re_marshal_list re \<lparr>lb_RelayID = ID (r_config r), lb_ReplyTo = directivesReplyTo r\<rparr>
      in if r_conn r = None then Panic ''nil connection''
         else case bus_Publish (re_bus re) infoTopic raw of
           Some err \<Rightarrow> Ret (Some err, r)
         | None \<Rightarrow> Ret (None, r\<lparr>r_sent := r_sent r @ [(infoTopic, raw)]\<rparr>))"

definition start_bundle_timer :: "relay_env \<Rightarrow> ('c, 'w) cogRelay \<Rightarrow> ('c, 'w) cogRelay outcome" where
  "start_bundle_timer re r =
     (case RefreshDuration (re_parseDuration re) (r_config r) of
        Panic p \<Rightarrow> Died p
      | Ret d \<Rightarrow> let (t, r') = after_func BundleRefresh r in Done (r'\<lparr>r_bundleTimer := Some t\<rparr>))"

definition scheduledBundleRefresh :: "relay_env \<Rightarrow> ('c, 'w) cogRelay \<Rightarrow> ('c, 'w) cogRelay outcome" where
  "scheduledBundleRefresh re r =
     (case requestBundles re r of
        Panic p \<Rightarrow> Died p
      | Ret (None, r') \<Rightarrow> Done r'
      | Ret (Some err, r') \<Rightarrow> start_bundle_timer re r')"

text \<open>Two more methods of the \<^verbatim>\<open>Engine\<close> interface.\<close>

fun engine_Init :: "('c, 'w) outside \<Rightarrow> 'c engine \<times> ('c, 'w) engine_world \<Rightarrow> (error option \<times> 'c engine \<times> ('c, 'w) engine_world) go_result" where
  "engine_Init os (Docker_Eng de, w) = lift_docker (Docker_Eng de) (docker_Init os (de, w))"
| "engine_Init os (Native_Eng c, w) = Ret (native_Init, (Native_Eng c, w))"

fun engine_Clean :: "('c, 'w) outside \<Rightarrow> string list \<Rightarrow> int \<Rightarrow> 'c engine \<times> ('c, 'w) engine_world \<Rightarrow> (nat \<times> 'c engine \<times> ('c, 'w) engine_world) go_result" where
  "engine_Clean os ord now (Docker_Eng de, w) = lift_docker (Docker_Eng de) (docker_Clean os ord now (de, w))"
| "engine_Clean os ord now (Native_Eng c, w) = Ret (native_Clean, (Native_Eng c, w))"

definition start_clean_timer :: "relay_env \<Rightarrow> ('c, 'w) cogRelay \<Rightarrow> ('c, 'w) cogRelay outcome" where
  "start_clean_timer re r =
     (case cfg_Docker (r_config r) of
        None \<Rightarrow> Died ''nil docker configuration''
      | Some di \<Rightarrow>
          (case CleanDuration (re_parseDuration re) di of
             Panic p \<Rightarrow> Died p
           | Ret d \<Rightarrow> let (t, r') = after_func DockerCleanup r in Done (r'\<lparr>r_cleanTimer := Some t\<rparr>)))"

definition scheduledDockerCleanup ::
    "('c, 'w) outside \<Rightarrow> relay_env \<Rightarrow> string list \<Rightarrow> int \<Rightarrow> ('c, 'w) cogRelay \<Rightarrow> ('c, 'w) cogRelay outcome" where
  "scheduledDockerCleanup os re ord now r =
     (case r_dockerEngine r of
        None \<Rightarrow> Died ''nil engine''
      | Some eng \<Rightarrow>
          (case engine_Clean os ord now (eng, r_world r) of
             Panic p \<Rightarrow> Died p
           | Ret (cleaned, (eng', w')) \<Rightarrow>
               start_clean_timer re (r\<lparr>r_dockerEngine := Some eng', r_world := w'\<rparr>)))"

section \<open>The catalog\<close>

text \<open>
  The loop of \<open>refreshBundles\<close>. The engine for a native bundle is used without a look at the
  error that came with it: when there is none, the call goes to a nil interface.
\<close>

fun refresh_loop ::
    "('c, 'w) outside \<Rightarrow> Config \<Rightarrow> string list \<Rightarrow> 'c engine option \<Rightarrow> Catalog \<times> ('c, 'w) engine_world \<Rightarrow>
     (Catalog \<times> ('c, 'w) engine_world) go_result" where
  "refresh_loop os config [] dockerEngine (bc, w) = Ret (bc, w)"
| "refresh_loop os config (name # names) dockerEngine (bc, w) =
     (case Find name bc of
        None \<Rightarrow> refresh_loop os config names dockerEngine (bc, w)
      | Some b \<Rightarrow>
          if NeedsRefresh b
          then (case Docker b of
                  Some d \<Rightarrow>
                    if \<not> DockerEnabled config
                    then refresh_loop os config names dockerEngine (set_available name False bc, w)
                    else (case dockerEngine of
                            None \<Rightarrow> Panic ''nil engine''
                          | Some eng \<Rightarrow>
                              (case engine_IsAvailable os (Image d) (Tag d) (eng, w) of
                                 Panic p \<Rightarrow> Panic p
                               | Ret ((avail, err), (eng', w')) \<Rightarrow>
                                   refresh_loop os config names (Some eng') (set_available name avail bc, w')))
                | None \<Rightarrow>
                    (case EngineForBundle config b of
                       Panic p \<Rightarrow> Panic p
                     | Ret (Inl err) \<Rightarrow> Panic ''nil engine''
                     | Ret (Inr eng) \<Rightarrow>
                         (case engine_IsAvailable os (Name b) (Version b) (eng, w) of
                            Panic p \<Rightarrow> Panic p
                          | Ret ((avail, err), (eng', w')) \<Rightarrow>
                              refresh_loop os config names dockerEngine (set_available name avail bc, w'))))
          else refresh_loop os config names dockerEngine (bc, w))"

definition refreshBundles ::
    "('c, 'w) outside \<Rightarrow> relay_env \<Rightarrow> ('c, 'w) cogRelay \<Rightarrow> (error option \<times> ('c, 'w) cogRelay) go_result" where
  "refreshBundles os re r =
     (case (if DockerEnabled (r_config r) then go_bind (GetEngine (r_config r) DockerEngineType) (\<lambda>e. Ret (map_sum id Some e))
            else Ret (Inr None)) of
        Panic p \<Rightarrow> Panic p
      | Ret (Inl err) \<Rightarrow> Ret (Some err, r)
      | Ret (Inr dockerEngine) \<Rightarrow>
          (case refresh_loop os (r_config r) (BundleNames (re_order re (r_catalog r)) (r_catalog r)) dockerEngine
                  (r_catalog r, r_world r) of
             Panic p \<Rightarrow> Panic p
           | Ret (bc, w) \<Rightarrow> Ret (None, set_catalog bc (r\<lparr>r_world := w\<rparr>))))"

definition send_announcement :: "('c, 'w) cogRelay \<Rightarrow> ('c, 'w) cogRelay outcome" where
  "send_announcement r =
     (case r_announcer r of
        None \<Rightarrow> Died ''nil announcer''
      | Some ra \<Rightarrow>
          (case SendAnnouncement ra of
             None \<Rightarrow> Blocked r
           | Some ra' \<Rightarrow> Done (r\<lparr>r_announcer := Some ra'\<rparr>)))"

fun fixed_bundles :: "BundleSpec list \<Rightarrow> Bundle list" where
  "fixed_bundles [] = []"
| "fixed_bundles (b # bs) =
     (ConfigFile b)\<lparr>Version := fixBundleVersion (Version (ConfigFile b))\<rparr> # fixed_bundles bs"

definition updateCatalog ::
    "('c, 'w) outside \<Rightarrow> relay_env \<Rightarrow> ListBundlesResponseEnvelope \<Rightarrow> ('c, 'w) cogRelay \<Rightarrow> ('c, 'w) cogRelay outcome" where
  "updateCatalog os re envelope r =
     (let r1 = set_catalog (fst (Replace (re_order re (r_catalog r)) (fixed_bundles (resp_Bundles envelope)) (r_catalog r))) r
      in out_bind
           (if IsChanged (r_catalog r1)
            then (case refreshBundles os re r1 of
                    Panic p \<Rightarrow> Died p
                  | Ret (Some err, r2) \<Rightarrow> Done r2
                  | Ret (None, r2) \<Rightarrow> send_announcement r2)
            else Done r1)
           (start_bundle_timer re))"

section \<open>The subscription handlers\<close>

definition handleDirective ::
    "('c, 'w) outside \<Rightarrow> relay_env \<Rightarrow> string \<Rightarrow> string \<Rightarrow> ('c, 'w) cogRelay \<Rightarrow> ('c, 'w) cogRelay outcome" where
  "handleDirective os re topic message r =
     (case ParseUntypedDirective (re_unmarshalAny re) (re_unmarshalList re) message of
        Inl err \<Rightarrow> Done r
      | Inr tm \<Rightarrow> updateCatalog os re tm r)"

text \<open>The queue holds as many invocations as there are workers; a send on a full queue waits.\<close>

definition handleCommand :: "string \<Rightarrow> string \<Rightarrow> ('c, 'w) cogRelay \<Rightarrow> ('c, 'w) cogRelay outcome" where
  "handleCommand topic message r =
     (let invoke = \<lparr>ci_RelayConfig = r_config r, ci_Engines = r_config r, Topic = topic, Payload = message, Shutdown = False\<rparr>
      in if length (r_queue r) < nat (MaxConcurrent (r_config r))
         then Done (r\<lparr>r_queue := r_queue r @ [invoke]\<rparr>) else Blocked r)"

definition relay_subscribe :: "relay_env \<Rightarrow> string \<Rightarrow> ('c, 'w) cogRelay \<Rightarrow> error option \<times> ('c, 'w) cogRelay" where
  "relay_subscribe re topic r =
     (case be_subscribe (re_bus re) topic of
        Some err \<Rightarrow> (Some err, r)
      | None \<Rightarrow> (None, r\<lparr>r_subs := r_subs r @ [topic]\<rparr>))"

definition setSubscriptions :: "relay_env \<Rightarrow> ('c, 'w) cogRelay \<Rightarrow> error option \<times> ('c, 'w) cogRelay" where
  "setSubscriptions re r =
     (case relay_subscribe re (directiveTopic (ID (r_config r))) r of
        (Some err, r1) \<Rightarrow> (Some err, r1)
      | (None, r1) \<Rightarrow> relay_subscribe re (commandTopic (ID (r_config r))) r1)"

text \<open>The first connection starts the announcer and, when it is enabled, the updater.\<close>

definition start_updater :: "relay_env \<Rightarrow> ('c, 'w) cogRelay \<Rightarrow> ('c, 'w) cogRelay outcome" where
  "start_updater re r =
     (case makeConnOpts (r_config r) of
        Panic p \<Rightarrow> Died p
      | Ret opts \<Rightarrow>
          (case ManagedDynamicConfigRefreshDuration (re_parseDuration re) (r_config r) of
             Panic p \<Rightarrow> Died p
           | Ret d \<Rightarrow>
               let dcu = NewDynamicConfigUpdater (ID (r_config r)) opts (DynamicConfigRoot (r_config r)) d
               in case dcu_Run (re_bus re) (re_marshal_get re) (re_sched re) dcu of
                    None \<Rightarrow> Blocked (r\<lparr>r_dynConfigUpdater := Some dcu\<rparr>)
                  | Some (Panic p) \<Rightarrow> Died p
                  | Some (Ret (Some err, dcu', msgs)) \<Rightarrow> Died err
                  | Some (Ret (None, dcu', msgs)) \<Rightarrow>
                      Done (r\<lparr>r_dynConfigUpdater := Some dcu', r_sent := r_sent r @ msgs\<rparr>)))"

definition start_announcer :: "relay_env \<Rightarrow> ('c, 'w) cogRelay \<Rightarrow> ('c, 'w) cogRelay outcome" where
  "start_announcer re r =
     (let ra = NewAnnouncer (ID (r_config r)) (r_catalog r)
      in case Run (be_subscribe (re_bus re)) ra of
           Inl err \<Rightarrow> Died err
         | Inr ra' \<Rightarrow>
             let r1 = r\<lparr>r_announcer := Some ra', r_subs := r_subs r @ [receiptTopic ra']\<rparr>
             in if ManagedDynamicConfig (r_config r1) then start_updater re r1 else Done r1)"

definition handleBusEvents ::
    "relay_env \<Rightarrow> MQTTConnection \<Rightarrow> Event \<Rightarrow> ('c, 'w) cogRelay \<Rightarrow> ('c, 'w) cogRelay outcome" where
  "handleBusEvents re conn event r =
     (if event = ConnectedEvent
      then let r0 = r\<lparr>r_conn := Some conn, r_subs := []\<rparr>
           in out_bind
                (case r_announcer r0 of
                   None \<Rightarrow> start_announcer re r0
                 | Some ra \<Rightarrow>
                     (case SetSubscriptions (be_subscribe (re_bus re)) ra of
                        Some err \<Rightarrow> Died err
                      | None \<Rightarrow> send_announcement (r0\<lparr>r_subs := r_subs r0 @ [receiptTopic ra]\<rparr>)))
                (\<lambda>r1. case setSubscriptions re r1 of
                   (Some err, r2) \<Rightarrow> Died err
                 | (None, r2) \<Rightarrow>
                     if Len (r_catalog r2) > 0 then Done (set_catalog (Reconnected (r_catalog r2)) r2)
                     else (case requestBundles re r2 of
                             Panic p \<Rightarrow> Died p
                           | Ret (err, r3) \<Rightarrow> Done r3))
      else Done r)"

section \<open>Start and stop\<close>

fun handle_events :: "relay_env \<Rightarrow> MQTTConnection \<Rightarrow> Event list \<Rightarrow> ('c, 'w) cogRelay \<Rightarrow> ('c, 'w) cogRelay outcome" where
  "handle_events re conn [] r = Done r"
| "handle_events re conn (e # es) r = out_bind (handleBusEvents re conn e r) (handle_events re conn es)"

text \<open>The part of \<^verbatim>\<open>Start\<close> that initialises Docker, and the options of the relay's connection.\<close>

definition start_docker :: "('c, 'w) outside \<Rightarrow> ('c, 'w) cogRelay \<Rightarrow> (error option \<times> ('c, 'w) cogRelay) go_result" where
  "start_docker os r =
     (if DockerEnabled (r_config r)
      then (case GetEngine (r_config r) DockerEngineType of
              Panic p \<Rightarrow> Panic p
            | Ret (Inl err) \<Rightarrow> Ret (Some err, r)
            | Ret (Inr eng) \<Rightarrow>
                (case engine_Init os (eng, r_world r) of
                   Panic p \<Rightarrow> Panic p
                 | Ret (Some err, (eng', w')) \<Rightarrow> Ret (Some err, r\<lparr>r_world := w'\<rparr>)
                 | Ret (None, (eng', w')) \<Rightarrow> Ret (None, r\<lparr>r_world := w', r_dockerEngine := Some eng'\<rparr>)))
      else Ret (None, r))"

definition announcer_options :: "relay_env \<Rightarrow> Config \<Rightarrow> ConnectionOptions go_result" where
  "announcer_options re config =
     go_bind (makeConnOpts config) (\<lambda>opts.
       Ret (opts\<lparr>Userid := ID config @ ''/announcer'', EventsHandler := True,
         OnDisconnect := Some \<lparr>dm_Topic = ''bot/relays/discover'',
           dm_Body = newWill re (ID config) (''bot/relays/'' @ ID config @ ''/announcer'')\<rparr>\<rparr>))"

definition Start :: "('c, 'w) outside \<Rightarrow> relay_env \<Rightarrow> ('c, 'w) cogRelay \<Rightarrow> error option \<times> ('c, 'w) cogRelay outcome" where
  "Start os re r =
     (case start_docker os r of
        Panic p \<Rightarrow> (None, Died p)
      | Ret (Some err, r1) \<Rightarrow> (Some err, Done r1)
      | Ret (None, r1) \<Rightarrow>
          (case announcer_options re (r_config r1) of
             Panic p \<Rightarrow> (None, Died p)
           | Ret opts \<Rightarrow>
               let r2 = r1\<lparr>r_connOpts := Some opts, r_workers := nat (MaxConcurrent (r_config r1))\<rparr>
               in case bus_Connect (re_bus re) opts of
                    None \<Rightarrow> (None, Blocked r2)
                  | Some (Panic p) \<Rightarrow> (None, Died p)
                  | Some (Ret (Some err, conn, slept, events)) \<Rightarrow> (Some err, Done r2)
                  | Some (Ret (None, conn, slept, events)) \<Rightarrow>
                      (None, out_bind (handle_events re conn events r2)
                         (\<lambda>r3. out_bind (if DockerEnabled (r_config r3) then start_clean_timer re r3 else Done r3)
                            (\<lambda>r4. case RefreshDuration (re_parseDuration re) (r_config r4) of
                               Panic p \<Rightarrow> Died p
                             | Ret d \<Rightarrow> Done r4)))))"

text \<open>
  \<^verbatim>\<open>Stop\<close>. The send to the updater's channel meets the goroutine that waits for it, or waits
  for ever when the updater has not finished its start.
\<close>

definition stop_timers :: "('c, 'w) cogRelay \<Rightarrow> ('c, 'w) cogRelay outcome" where
  "stop_timers r =
     (case r_bundleTimer r of
        None \<Rightarrow> Done r
      | Some t \<Rightarrow>
          let r1 = stop_timer t r
          in if DockerEnabled (r_config r1)
             then (case r_cleanTimer r1 of None \<Rightarrow> Died ''nil timer'' | Some u \<Rightarrow> Done (stop_timer u r1))
             else Done r1)"

definition Stop :: "('c, 'w) cogRelay \<Rightarrow> ('c, 'w) cogRelay outcome" where
  "Stop r =
     out_bind (stop_timers r) (\<lambda>r1.
       out_bind (case r_announcer r1 of
                   None \<Rightarrow> Done r1
                 | Some ra \<Rightarrow> (case Halt ra of None \<Rightarrow> Blocked r1 | Some ra' \<Rightarrow> Done (r1\<lparr>r_announcer := Some ra'\<rparr>)))
         (\<lambda>r2. case r_dynConfigUpdater r2 of
            None \<Rightarrow> Done r2
          | Some dcu \<Rightarrow>
              if refreshTimer dcu = None then Blocked r2
              else (case dcu_wait dcu of Panic p \<Rightarrow> Died p | Ret dcu' \<Rightarrow> Done (r2\<lparr>r_dynConfigUpdater := Some dcu'\<rparr>))))"

end
