(* ===== verification/Relay_System.thy ===== *)
theory Relay_System
  imports Cog_Relay "HOL-Library.List_Lexorder" "HOL-Library.Char_ord"
begin

text \<open>
  The relay as a system: its handlers, timers, workers and the announcer as steps of one state,
  the invariant of that state, and the properties of the handlers of \<^verbatim>\<open>Cog_Relay\<close>.
\<close>

section \<open>Steps\<close>

text \<open>The state a handler call leads to, unless it ends the process.\<close>

fun out_state :: "'a outcome \<Rightarrow> 'a option" where
  "out_state (Done x) = Some x"
| "out_state (Blocked x) = Some x"
| "out_state (Died p) = None"

definition env_ok :: "relay_env \<Rightarrow> bool" where
  "env_ok re \<longleftrightarrow> (\<forall>bc. finite (dom (bundles bc)) \<longrightarrow> range_order (bundles bc) (re_order re bc))"

definition worker_view :: "('c, 'w) cogRelay \<Rightarrow> ('c, 'w) worker_world" where
  "worker_view r = \<lparr>ww_engines = r_world r, ww_catalog = r_catalog r, ww_published = r_sent r\<rparr>"

text \<open>
  What the relay's own goroutines do: the three stages of \<^verbatim>\<open>Start\<close> around its connection (the
  initialisation of Docker, the options and workers, the clean-up timer), the handlers of the
  connection's events, directives and commands, the timers, the announcer and \<^verbatim>\<open>Stop\<close>.
\<close>

inductive handler_step :: "('c, 'w) outside \<Rightarrow> ('c, 'w) cogRelay \<Rightarrow> ('c, 'w) cogRelay \<Rightarrow> bool" for os where
  hs_docker: "start_docker os r = Ret (err, r') \<Longrightarrow> handler_step os r r'"
| hs_options: "announcer_options re (r_config r) = Ret opts \<Longrightarrow>
     handler_step os r (r\<lparr>r_connOpts := Some opts, r_workers := nat (MaxConcurrent (r_config r))\<rparr>)"
| hs_clean_timer: "DockerEnabled (r_config r) \<Longrightarrow> out_state (start_clean_timer re r) = Some r' \<Longrightarrow> handler_step os r r'"
| hs_event: "env_ok re \<Longrightarrow> out_state (handleBusEvents re conn event r) = Some r' \<Longrightarrow> handler_step os r r'"
| hs_directive: "env_ok re \<Longrightarrow> directiveTopic (ID (r_config r)) \<in> set (r_subs r) \<Longrightarrow>
     out_state (handleDirective os re topic message r) = Some r' \<Longrightarrow> handler_step os r r'"
| hs_command: "commandTopic (ID (r_config r)) \<in> set (r_subs r) \<Longrightarrow>
     out_state (handleCommand topic message r) = Some r' \<Longrightarrow> handler_step os r r'"
| hs_refresh: "env_ok re \<Longrightarrow> r_timers r t = Some BundleRefresh \<Longrightarrow>
     out_state (scheduledBundleRefresh re (stop_timer t r)) = Some r' \<Longrightarrow> handler_step os r r'"
| hs_clean: "r_timers r t = Some DockerCleanup \<Longrightarrow> range_order (envs (ew_cache (r_world r))) ord \<Longrightarrow>
     out_state (scheduledDockerCleanup os re ord now (stop_timer t r)) = Some r' \<Longrightarrow> handler_step os r r'"
| hs_announcer: "r_announcer r = Some ra \<Longrightarrow> announcer_step (Ret ra) (Ret ra') \<Longrightarrow>
     bundles (catalog ra') = bundles (catalog ra) \<Longrightarrow>
     handler_step os r (r\<lparr>r_announcer := Some ra', r_catalog := catalog ra'\<rparr>)"
| hs_stop: "out_state (Stop r) = Some r' \<Longrightarrow> handler_step os r r'"

text \<open>
  The relay with its workers, each of which executes one invocation in one step. (In
  \<^verbatim>\<open>Relay_Workers\<close> the workers' steps are taken apart.)
\<close>

inductive relay_step :: "('c, 'w) outside \<Rightarrow> ('c, 'w) cogRelay \<Rightarrow> ('c, 'w) cogRelay \<Rightarrow> bool" for os where
  rs_handler: "handler_step os r r' \<Longrightarrow> relay_step os r r'"
| rs_worker: "r_queue r = invoke # q \<Longrightarrow> executeCommand os ins invoke (d, worker_view r) = Ret (d', ww) \<Longrightarrow>
     relay_step os r (r\<lparr>r_queue := q, r_world := ww_engines ww, r_sent := ww_published ww\<rparr>)"

lemmas rs_event = rs_handler [OF hs_event] and rs_announcer = rs_handler [OF hs_announcer]

text \<open>A relay is made by \<^verbatim>\<open>NewRelay\<close>; the rest of its life comes as steps.\<close>

definition relay_init :: "('c, 'w) cogRelay \<Rightarrow> bool" where
  "relay_init r \<longleftrightarrow> (\<exists>config w. NewRelay config w = Done r)"

definition relay_ok :: "('c, 'w) cogRelay \<Rightarrow> bool" where
  "relay_ok r \<longleftrightarrow>
     catalog_ok (r_catalog r) \<and>
     (r_announcer r = None \<longrightarrow> r_catalog r = NewCatalog \<and> r_subs r = []) \<and>
     (\<forall>ra. r_announcer r = Some ra \<longrightarrow> catalog ra = r_catalog r \<and> announcer_reachable (Ret ra)) \<and>
     length (r_queue r) \<le> nat (MaxConcurrent (r_config r)) \<and>
     directivesReplyTo r = directiveTopic (ID (r_config r)) \<and>
     world_ok (r_world r) \<and>
     (\<forall>t \<in> dom (r_timers r). t < r_nextTimer r)"

section \<open>Laws\<close>

lemma out_state_bind:
  "out_state (out_bind m f) = Some y \<longleftrightarrow> m = Blocked y \<or> (\<exists>x. m = Done x \<and> out_state (f x) = Some y)"
  by (cases m) auto

lemma NewRelay_ok: "relay_init r \<Longrightarrow> relay_ok r"
  by (auto simp: relay_init_def relay_ok_def NewRelay_def NewCatalog_ok world_ok_def ids_bounded_def newEnvCache_def split: if_splits)

lemma catalog_ops_ok: "catalog_op\<^sup>*\<^sup>* bc bc' \<Longrightarrow> catalog_ok bc \<Longrightarrow> catalog_ok bc'"
  by (rule catalog_sys.steps_inv)

lemma announcer_catalog:
  "catalog_op\<^sup>*\<^sup>* bc bc' \<Longrightarrow> announcer_reachable (Ret ra) \<Longrightarrow> catalog ra = bc \<Longrightarrow> announcer_reachable (Ret (ra\<lparr>catalog := bc'\<rparr>))"
proof (induction rule: rtranclp_induct)
  case base
  then have eq: "ra\<lparr>catalog := bc\<rparr> = ra" by (cases ra) simp
  show ?case unfolding eq by (rule base(1))
next
  case (step y z)
  then have "announcer_step (Ret (ra\<lparr>catalog := y\<rparr>)) (Ret (ra\<lparr>catalog := y\<rparr>\<lparr>catalog := z\<rparr>))"
    by (intro step_catalog) simp
  with step show ?case by (auto intro: reachable_step)
qed

lemma relay_ok_catalog:
  assumes "relay_ok r" and "r_announcer r \<noteq> None" and "catalog_op\<^sup>*\<^sup>* (r_catalog r) bc"
  shows "relay_ok (set_catalog bc r)"
  using assms announcer_catalog [OF assms(3)] catalog_ops_ok [OF assms(3)]
  by (auto simp: relay_ok_def set_catalog_def)

lemma relay_ok_world: "relay_ok r \<Longrightarrow> world_ok w \<Longrightarrow> relay_ok (r\<lparr>r_world := w\<rparr>)"
  by (simp add: relay_ok_def)

lemma relay_ok_frame [simp]:
  "relay_ok (r\<lparr>r_conn := c\<rparr>) = relay_ok r" "relay_ok (r\<lparr>r_sent := s\<rparr>) = relay_ok r"
  "relay_ok (r\<lparr>r_dynConfigUpdater := u\<rparr>) = relay_ok r" "relay_ok (r\<lparr>r_bundleTimer := t\<rparr>) = relay_ok r"
  "relay_ok (r\<lparr>r_cleanTimer := t\<rparr>) = relay_ok r" "relay_ok (r\<lparr>r_dockerEngine := e\<rparr>) = relay_ok r"
  by (simp_all add: relay_ok_def)

lemma relay_ok_timers:
  "relay_ok r \<Longrightarrow> relay_ok (snd (after_func f r))" "relay_ok r \<Longrightarrow> relay_ok (stop_timer t r)"
  by (auto simp: relay_ok_def after_func_def stop_timer_def less_Suc_eq)

lemma start_bundle_timer_ok: "relay_ok r \<Longrightarrow> out_state (start_bundle_timer re r) = Some r' \<Longrightarrow> relay_ok r'"
  using relay_ok_timers(1) [of r BundleRefresh]
  by (auto simp: start_bundle_timer_def after_func_def Let_def split: go_result.splits)

lemma start_clean_timer_ok: "relay_ok r \<Longrightarrow> out_state (start_clean_timer re r) = Some r' \<Longrightarrow> relay_ok r'"
  using relay_ok_timers(1) [of r DockerCleanup]
  by (auto simp: start_clean_timer_def after_func_def Let_def split: go_result.splits option.splits)

lemma requestBundles_ok: "relay_ok r \<Longrightarrow> requestBundles re r = Ret (err, r') \<Longrightarrow> relay_ok r'"
  by (auto simp: requestBundles_def Let_def split: if_splits option.splits)

lemma send_announcement_ok:
  assumes "relay_ok r" and "out_state (send_announcement r) = Some r'"
  shows "relay_ok r' \<and> r_announcer r' \<noteq> None"
proof -
  from assms(2) obtain ra where ra: "r_announcer r = Some ra"
    "r' = r \<or> (\<exists>ra'. SendAnnouncement ra = Some ra' \<and> r' = r\<lparr>r_announcer := Some ra'\<rparr>)"
    by (auto simp: send_announcement_def split: option.splits)
  have "announcer_reachable (Ret ra') \<and> catalog ra' = catalog ra"
    if "SendAnnouncement ra = Some ra'" "announcer_reachable (Ret ra)" for ra'
    using that step_control [of AnnounceCommand ra ra'] reachable_step
    by (auto simp: SendAnnouncement_def send_control_def split: if_splits)
  with ra assms(1) show ?thesis by (auto simp: relay_ok_def)
qed

subsection \<open>Refreshing the availability\<close>

lemma daemon_only_IsAvailable: "daemon_only (docker_IsAvailable os n m)"
  unfolding docker_IsAvailable_def needsUpdate_def IDForName_def removeOldImage_def Let_def
  by (intro daemon_rules)

lemma engine_IsAvailable_world:
  assumes "engine_IsAvailable os n m (eng, w) = Ret (x, (eng', w'))" and "world_ok w"
  shows "world_ok w' \<and> keeps_leases w w' {}"
proof (cases eng)
  case (Docker_Eng de)
  with assms(1) obtain de' where "docker_IsAvailable os n m (de, w) = Ret (x, (de', w'))" by auto
  from daemon_only_ok(1,2) [OF daemon_only_IsAvailable this assms(2)] show ?thesis by blast
qed (use assms in \<open>simp add: keeps_leases_def\<close>)

text \<open>What one turn of the loop does to the catalog.\<close>

definition refreshed :: "Config \<Rightarrow> string \<Rightarrow> Catalog \<Rightarrow> Catalog \<Rightarrow> bool" where
  "refreshed config name bc bc' \<longleftrightarrow>
     (case Find name bc of
        None \<Rightarrow> bc' = bc
      | Some b \<Rightarrow>
          if NeedsRefresh b
          then \<exists>a. bc' = set_available name a bc \<and> (Docker b = None \<longrightarrow> a \<and> NativeEnabled config) \<and>
                 (Docker b \<noteq> None \<longrightarrow> \<not> DockerEnabled config \<longrightarrow> \<not> a)
          else bc' = bc)"

lemma native_IsAvailable_Ret:
  "EngineForBundle config b = Ret (Inr eng) \<Longrightarrow> Docker b = None \<Longrightarrow> engine_IsAvailable os n m (eng, w) = Ret ((a, err), x) \<Longrightarrow>
   a \<and> NativeEnabled config"
  by (auto simp: EngineForBundle_def IsDocker_def GetEngine_def NewNativeEngine_def native_IsAvailable_def split: if_splits)

lemma refresh_loop_step:
  assumes "refresh_loop os config (name # names) eng (bc, w) = Ret res" and "world_ok w"
  obtains eng1 bc1 w1 where "refreshed config name bc bc1" "world_ok w1" "refresh_loop os config names eng1 (bc1, w1) = Ret res"
    "keeps_leases w w1 {}"
proof (cases "\<exists>b. Find name bc = Some b \<and> NeedsRefresh b")
  case False
  with assms that [of bc w eng] show thesis by (auto simp: refreshed_def keeps_leases_def split: option.splits if_splits)
next
  case True
  then obtain b where b: "Find name bc = Some b" "NeedsRefresh b" by blast
  show thesis
  proof (cases "Docker b")
    case None
    with assms(1) b obtain e a err e1 w1 where e: "EngineForBundle config b = Ret (Inr e)"
      "engine_IsAvailable os (Name b) (Version b) (e, w) = Ret ((a, err), (e1, w1))"
      "refresh_loop os config names eng (set_available name a bc, w1) = Ret res"
      by (auto split: go_result.splits sum.splits)
    note a = native_IsAvailable_Ret [OF e(1) None e(2)]
    with e(3) b None engine_IsAvailable_world [OF e(2) assms(2)] show thesis
      by (intro that [of "set_available name a bc" w1 eng]) (auto simp: refreshed_def)
  next
    case (Some d)
    show thesis
    proof (cases "DockerEnabled config")
      case False
      with assms b Some show thesis by (intro that [of "set_available name False bc" w eng]) (auto simp: refreshed_def keeps_leases_def)
    next
      case True
      with assms(1) b Some obtain e a err e1 w1 where "engine_IsAvailable os (Image d) (Tag d) (e, w) = Ret ((a, err), (e1, w1))"
        "refresh_loop os config names (Some e1) (set_available name a bc, w1) = Ret res"
        by (auto split: go_result.splits option.splits)
      with b Some True engine_IsAvailable_world [OF _ assms(2)] show thesis
        by (intro that [of "set_available name a bc" w1 "Some e1"]) (auto simp: refreshed_def)
    qed
  qed
qed

lemma refreshed_op: "refreshed config name bc bc' \<Longrightarrow> catalog_op\<^sup>*\<^sup>* bc bc'"
  by (auto simp: refreshed_def split: option.splits if_splits intro: op_available)

lemma refresh_loop_ops:
  "refresh_loop os config names eng (bc, w) = Ret (bc', w') \<Longrightarrow> world_ok w \<Longrightarrow>
   catalog_op\<^sup>*\<^sup>* bc bc' \<and> world_ok w' \<and> keeps_leases w w' {}"
proof (induction names arbitrary: eng bc w)
  case Nil
  then show ?case by (simp add: keeps_leases_def)
next
  case (Cons name names)
  from Cons.prems obtain eng1 bc1 w1 where step: "refreshed config name bc bc1" "world_ok w1"
    "refresh_loop os config names eng1 (bc1, w1) = Ret (bc', w')" "keeps_leases w w1 {}" by (rule refresh_loop_step)
  from Cons.IH [OF step(3,2)] have "catalog_op\<^sup>*\<^sup>* bc1 bc'" "world_ok w'" "keeps_leases w1 w' {}" by simp_all
  with refreshed_op [OF step(1)] keeps_leases_trans [OF step(4)] show ?case by (meson rtranclp_trans)
qed

text \<open>
  What the whole loop does: it changes nothing but the availability of the bundles it was
  given that need a refresh.
\<close>

definition availability :: "Config \<Rightarrow> Bundle \<Rightarrow> Bundle \<Rightarrow> bool" where
  "availability config b b' \<longleftrightarrow>
     (if NeedsRefresh b
      then \<exists>a. b' = SetAvailable a b \<and> (Docker b = None \<longrightarrow> a \<and> NativeEnabled config) \<and>
             (Docker b \<noteq> None \<longrightarrow> \<not> DockerEnabled config \<longrightarrow> \<not> a)
      else b' = b)"

lemma refreshed_bundle:
  assumes "refreshed config name bc bc'"
  shows "k \<noteq> name \<Longrightarrow> bundles bc' k = bundles bc k"
    and "bundles bc name = Some b \<Longrightarrow> \<exists>b'. bundles bc' name = Some b' \<and> availability config b b'"
    and "bundles bc name = None \<Longrightarrow> bundles bc' name = None"
  using assms
  by (auto simp: refreshed_def set_available_def Find_def availability_def split: option.splits if_splits)

lemma refresh_loop_bundles:
  "refresh_loop os config names eng (bc, w) = Ret (bc', w') \<Longrightarrow> world_ok w \<Longrightarrow> distinct names \<Longrightarrow>
   (k \<notin> set names \<longrightarrow> bundles bc' k = bundles bc k) \<and>
   (k \<in> set names \<longrightarrow>
     (case bundles bc k of None \<Rightarrow> bundles bc' k = None | Some b \<Rightarrow> \<exists>b'. bundles bc' k = Some b' \<and> availability config b b')) \<and>
   epoch bc' = epoch bc \<and> lastAcked bc' = lastAcked bc"
proof (induction names arbitrary: eng bc w)
  case Nil
  then show ?case by simp
next
  case (Cons name names)
  from Cons.prems(1,2) obtain eng1 bc1 w1 where r: "refreshed config name bc bc1" and "world_ok w1"
    "refresh_loop os config names eng1 (bc1, w1) = Ret (bc', w')" by (rule refresh_loop_step)
  with Cons.IH Cons.prems(3) have IH: "(k \<notin> set names \<longrightarrow> bundles bc' k = bundles bc1 k) \<and>
     (k \<in> set names \<longrightarrow> (case bundles bc1 k of None \<Rightarrow> bundles bc' k = None | Some b \<Rightarrow> \<exists>b'. bundles bc' k = Some b' \<and> availability config b b')) \<and>
     epoch bc' = epoch bc1 \<and> lastAcked bc' = lastAcked bc1" by simp
  have e: "epoch bc1 = epoch bc \<and> lastAcked bc1 = lastAcked bc"
    using r by (auto simp: refreshed_def set_available_def split: option.splits if_splits)
  show ?case
  proof (cases "k = name")
    case True
    with Cons.prems(3) IH e refreshed_bundle(2,3) [OF r] show ?thesis by (auto split: option.splits)
  next
    case False
    with IH e refreshed_bundle(1) [OF r] show ?thesis by simp
  qed
qed

subsection \<open>The handlers keep the invariant\<close>

lemma GetEngine_docker: "DockerEnabled config \<Longrightarrow> GetEngine config DockerEngineType \<noteq> Ret (Inl e)"
  by (cases "NewDockerEngine config") (auto simp: GetEngine_def)

lemma refreshBundles_cases:
  fixes os :: "('c, 'w) outside"
  assumes "refreshBundles os re r = Ret (err, r')"
  obtains eng bc w where "err = None" "r' = set_catalog bc (r\<lparr>r_world := w\<rparr>)"
    "refresh_loop os (r_config r) (BundleNames (re_order re (r_catalog r)) (r_catalog r)) eng (r_catalog r, r_world r) = Ret (bc, w)"
proof -
  let ?e = "if DockerEnabled (r_config r) then go_bind (GetEngine (r_config r) DockerEngineType) (\<lambda>e :: error + 'c engine. Ret (map_sum id Some e)) else Ret (Inr None)"
  let ?loop = "\<lambda>eng. refresh_loop os (r_config r) (BundleNames (re_order re (r_catalog r)) (r_catalog r)) eng (r_catalog r, r_world r)"
  show thesis
  proof (cases ?e)
    case (Panic p)
    with assms show ?thesis by (simp add: refreshBundles_def)
  next
    case (Ret x)
    show ?thesis
    proof (cases x)
      case (Inl e)
      then show ?thesis
        using Ret GetEngine_docker [of "r_config r"]
        by (cases "GetEngine (r_config r) DockerEngineType :: (error + 'c engine) go_result") (auto split: if_splits sum.splits simp: map_sum_def)
    next
      case (Inr eng)
      with Ret assms that [of _ _ eng] show ?thesis
        by (cases "?loop eng") (auto simp: refreshBundles_def)
    qed
  qed
qed

lemma refreshBundles_ok:
  assumes "relay_ok r" and "r_announcer r \<noteq> None" and "refreshBundles os re r = Ret (err, r')"
  shows "relay_ok r' \<and> r_announcer r' \<noteq> None"
proof -
  have "world_ok (r_world r)" using assms(1) by (simp add: relay_ok_def)
  then have "relay_ok (set_catalog bc (r\<lparr>r_world := w\<rparr>)) \<and> r_announcer (set_catalog bc (r\<lparr>r_world := w\<rparr>)) \<noteq> None"
    if "refresh_loop os (r_config r) names eng (r_catalog r, r_world r) = Ret (bc, w)" for names eng bc w
    using refresh_loop_ops [OF that] assms(1,2) relay_ok_catalog [of "r\<lparr>r_world := w\<rparr>" bc] relay_ok_world [of r w]
    by (auto simp: set_catalog_def)
  with assms show ?thesis by (elim refreshBundles_cases) simp_all
qed

lemma Replace_op:
  assumes "env_ok re" and "catalog_ok bc"
  shows "catalog_op\<^sup>*\<^sup>* bc (fst (Replace (re_order re bc) bs bc))"
  using assms by (intro r_into_rtranclp op_replace) (simp add: env_ok_def catalog_ok_def)

lemma updateCatalog_ok:
  assumes "relay_ok r" and "r_announcer r \<noteq> None" and "env_ok re" and "out_state (updateCatalog os re envelope r) = Some r'"
  shows "relay_ok r'"
proof -
  let ?r1 = "set_catalog (fst (Replace (re_order re (r_catalog r)) (fixed_bundles (resp_Bundles envelope)) (r_catalog r))) r"
  have r1: "relay_ok ?r1" "r_announcer ?r1 \<noteq> None"
    using relay_ok_catalog [OF assms(1,2) Replace_op [OF assms(3)]] assms(1,2) by (simp_all add: relay_ok_def [of r] set_catalog_def)
  have ok: "relay_ok x" if "refreshBundles os re ?r1 = Ret (None, r2)" "out_state (send_announcement r2) = Some x" for r2 x
    using refreshBundles_ok [OF r1 that(1)] send_announcement_ok that(2) by blast
  let ?m = "if IsChanged (r_catalog ?r1)
     then (case refreshBundles os re ?r1 of Panic p \<Rightarrow> Died p | Ret (Some err, r2) \<Rightarrow> Done r2 | Ret (None, r2) \<Rightarrow> send_announcement r2)
     else Done ?r1"
  have m: "relay_ok x" if "out_state ?m = Some x" for x
  proof (cases "refreshBundles os re ?r1")
    case (Ret y)
    obtain err r2 where y: "y = (err, r2)" by fastforce
    show ?thesis
      using that r1(1) Ret y refreshBundles_ok [OF r1, of os re err r2] ok [of r2]
      by (cases err) (simp_all split: if_splits)
  qed (use that r1(1) in \<open>simp split: if_splits\<close>)
  have "updateCatalog os re envelope r = out_bind ?m (start_bundle_timer re)" by (simp only: updateCatalog_def Let_def)
  with assms(4) consider "?m = Blocked r'" | x where "?m = Done x" "out_state (start_bundle_timer re x) = Some r'"
    by (auto simp only: out_state_bind)
  then show ?thesis
  proof cases
    case 1
    then show ?thesis using m [of r'] by (simp only: out_state.simps)
  next
    case 2
    then show ?thesis using m [of x] start_bundle_timer_ok [of x] by (simp only: out_state.simps)
  qed
qed

lemma handleDirective_ok:
  "relay_ok r \<Longrightarrow> r_announcer r \<noteq> None \<Longrightarrow> env_ok re \<Longrightarrow> out_state (handleDirective os re topic message r) = Some r' \<Longrightarrow> relay_ok r'"
  by (auto simp: handleDirective_def intro: updateCatalog_ok split: sum.splits)

lemma relay_ok_subs [simp]: "r_announcer r \<noteq> None \<Longrightarrow> relay_ok (r\<lparr>r_subs := x\<rparr>) = relay_ok r"
  by (auto simp: relay_ok_def)

lemma setSubscriptions_ok:
  "relay_ok r \<Longrightarrow> r_announcer r \<noteq> None \<Longrightarrow> setSubscriptions re r = (err, r') \<Longrightarrow> relay_ok r' \<and> r_announcer r' \<noteq> None"
  by (auto simp: setSubscriptions_def relay_subscribe_def split: option.splits)

lemma start_updater_ok:
  "relay_ok r \<Longrightarrow> out_state (start_updater re r) = Some r' \<Longrightarrow> relay_ok r' \<and> r_announcer r' = r_announcer r"
  by (auto simp: start_updater_def Let_def split: option.splits go_result.splits)

lemma start_announcer_ok:
  assumes "relay_ok r" and "r_announcer r = None" and "out_state (start_announcer re r) = Some r'"
  shows "relay_ok r' \<and> r_announcer r' \<noteq> None"
proof -
  let ?ra = "(NewAnnouncer (ID (r_config r)) (r_catalog r))\<lparr>state := WaitingState, loopPC := LoopTest\<rparr>"
  let ?r1 = "r\<lparr>r_announcer := Some ?ra, r_subs := r_subs r @ [receiptTopic ?ra]\<rparr>"
  have "r_catalog r = NewCatalog" using assms(1,2) by (simp add: relay_ok_def)
  then have "announcer_init (Ret ?ra)" by (auto simp: announcer_init_def)
  then have "relay_ok ?r1" using assms(1) by (auto simp: relay_ok_def NewAnnouncer_def intro: reachable_init)
  moreover from assms(3) have "r' = ?r1 \<or> out_state (start_updater re ?r1) = Some r'"
    by (auto simp: start_announcer_def Run_def Let_def split: sum.splits option.splits if_splits)
  ultimately show ?thesis using start_updater_ok [of ?r1 re r'] by auto
qed

lemma handleBusEvents_ok:
  assumes "relay_ok r" and "out_state (handleBusEvents re conn event r) = Some r'"
  shows "relay_ok r'"
proof -
  let ?r0 = "r\<lparr>r_conn := Some conn, r_subs := []\<rparr>"
  have r0: "relay_ok ?r0" using assms(1) by (auto simp: relay_ok_def)
  let ?m = "case r_announcer ?r0 of None \<Rightarrow> start_announcer re ?r0
     | Some ra \<Rightarrow> (case SetSubscriptions (be_subscribe (re_bus re)) ra of
          Some err \<Rightarrow> Died err
        | None \<Rightarrow> send_announcement (?r0\<lparr>r_subs := r_subs ?r0 @ [receiptTopic ra]\<rparr>))"
  have m: "relay_ok x \<and> r_announcer x \<noteq> None" if "out_state ?m = Some x" for x
  proof (cases "r_announcer r")
    case None
    with that show ?thesis using start_announcer_ok [OF r0, of re x] by simp
  next
    case (Some ra)
    with that r0 show ?thesis using send_announcement_ok [of "?r0\<lparr>r_subs := r_subs ?r0 @ [receiptTopic ra]\<rparr>" x]
      by (simp split: option.splits)
  qed
  let ?f = "\<lambda>r1. case setSubscriptions re r1 of (Some err, r2) \<Rightarrow> Died err
     | (None, r2) \<Rightarrow> if Len (r_catalog r2) > 0 then Done (set_catalog (Reconnected (r_catalog r2)) r2)
         else (case requestBundles re r2 of Panic p \<Rightarrow> Died p | Ret (err, r3) \<Rightarrow> Done r3)"
  have f: "relay_ok y" if "relay_ok x" "r_announcer x \<noteq> None" "out_state (?f x) = Some y" for x y
  proof -
    from that(3) obtain r2 where r2: "setSubscriptions re x = (None, r2)"
      "y = set_catalog (Reconnected (r_catalog r2)) r2 \<or> (\<exists>err. requestBundles re r2 = Ret (err, y))"
      by (auto split: prod.splits option.splits if_splits go_result.splits)
    note ok2 = setSubscriptions_ok [OF that(1,2) r2(1)]
    have "catalog_op\<^sup>*\<^sup>* (r_catalog r2) (Reconnected (r_catalog r2))" by (rule r_into_rtranclp) (rule op_reconnected)
    with ok2 relay_ok_catalog [of r2] requestBundles_ok [of r2] r2(2) show ?thesis by blast
  qed
  have "handleBusEvents re conn event r = out_bind ?m ?f" by (cases event) (simp add: handleBusEvents_def Let_def)
  with assms(2) consider "?m = Blocked r'" | x where "?m = Done x" "out_state (?f x) = Some r'"
    by (auto simp only: out_state_bind)
  then show ?thesis
  proof cases
    case 1
    then show ?thesis using m [of r'] by (simp only: out_state.simps)
  next
    case 2
    have "relay_ok x \<and> r_announcer x \<noteq> None" by (rule m) (simp only: 2(1) out_state.simps)
    with f [OF _ _ 2(2)] show ?thesis by blast
  qed
qed

lemma engine_Init_world:
  assumes "engine_Init os (eng, w) = Ret (err, (eng', w'))" and "world_ok w"
  shows "world_ok w'" and "keeps_leases w w' X"
proof -
  have only: "daemon_only (docker_Init os)"
    unfolding docker_Init_def createCircuitDriver_def by (intro daemon_rules daemon_only_IsAvailable)
  have "world_ok w' \<and> keeps_leases w w' X"
  proof (cases eng)
    case (Docker_Eng de)
    with assms(1) obtain de' where "docker_Init os (de, w) = Ret (err, (de', w'))" by auto
    from daemon_only_ok(1,2) [OF only this assms(2)] show ?thesis by blast
  qed (use assms in \<open>simp add: keeps_leases_def\<close>)
  then show "world_ok w'" and "keeps_leases w w' X" by simp_all
qed

lemma engine_Clean_world:
  assumes "engine_Clean os ord now (eng, w) = Ret (n, (eng', w'))" and "range_order (envs (ew_cache w)) ord" and "world_ok w"
  shows "world_ok w' \<and> keeps_leases w w' {}"
proof (cases eng)
  case (Docker_Eng de)
  with assms(1) obtain de' where "docker_Clean os ord now (de, w) = Ret (n, (de', w'))" by auto
  from docker_Clean_lease [OF this assms(2,3)] show ?thesis .
qed (use assms in \<open>simp add: keeps_leases_def\<close>)

lemma start_docker_cases:
  assumes "start_docker os r = Ret (err, r')"
  obtains "r' = r" | eng eng' w where "engine_Init os (eng, r_world r) = Ret (err, (eng', w))" "r' = r\<lparr>r_world := w\<rparr>"
    | eng eng' w where "engine_Init os (eng, r_world r) = Ret (err, (eng', w))" "r' = r\<lparr>r_world := w, r_dockerEngine := Some eng'\<rparr>"
proof (cases "r' = r")
  case False
  with assms obtain eng where "(case engine_Init os (eng, r_world r) of
      Panic p \<Rightarrow> Panic p
    | Ret (Some err, (eng', w')) \<Rightarrow> Ret (Some err, r\<lparr>r_world := w'\<rparr>)
    | Ret (None, (eng', w')) \<Rightarrow> Ret (None, r\<lparr>r_world := w', r_dockerEngine := Some eng'\<rparr>)) = Ret (err, r')"
    by (auto simp: start_docker_def split: if_split_asm go_result.split_asm sum.split_asm)
  moreover then obtain e eng' w' where "engine_Init os (eng, r_world r) = Ret (e, (eng', w'))"
    by (cases "engine_Init os (eng, r_world r)") auto
  ultimately show thesis using that(2,3) by (cases e) auto
qed

lemma scheduledDockerCleanup_cases:
  assumes "out_state (scheduledDockerCleanup os re ord now r) = Some r'"
  obtains eng n eng' w' where "engine_Clean os ord now (eng, r_world r) = Ret (n, (eng', w'))"
    "out_state (start_clean_timer re (r\<lparr>r_dockerEngine := Some eng', r_world := w'\<rparr>)) = Some r'"
  using assms by (auto simp: scheduledDockerCleanup_def split: option.splits go_result.splits)

lemma stop_timers_ok:
  "relay_ok r \<Longrightarrow> out_state (stop_timers r) = Some r' \<Longrightarrow> relay_ok r' \<and> r_world r' = r_world r \<and> r_config r' = r_config r"
  using relay_ok_timers(2)
  by (auto simp: stop_timers_def Let_def split: option.splits if_splits) (simp_all add: stop_timer_def)

lemma halt_ok:
  assumes "relay_ok r" and "r_announcer r = Some ra" and "Halt ra = Some ra'"
  shows "relay_ok (r\<lparr>r_announcer := Some ra'\<rparr>)"
proof -
  have "announcer_reachable (Ret ra')" "catalog ra' = catalog ra"
    using assms step_control [of StopCommand ra ra'] reachable_step
    by (auto simp: Halt_def send_control_def relay_ok_def split: if_splits)
  with assms(1,2) show ?thesis by (auto simp: relay_ok_def)
qed

lemma Stop_ok:
  assumes "relay_ok r" and "out_state (Stop r) = Some r'"
  shows "relay_ok r' \<and> r_world r' = r_world r \<and> r_config r' = r_config r"
proof -
  let ?halt = "\<lambda>r1. case r_announcer r1 of None \<Rightarrow> Done r1
     | Some ra \<Rightarrow> (case Halt ra of None \<Rightarrow> Blocked r1 | Some ra' \<Rightarrow> Done (r1\<lparr>r_announcer := Some ra'\<rparr>))"
  have halt: "relay_ok y \<and> r_world y = r_world x \<and> r_config y = r_config x" if "relay_ok x" "out_state (?halt x) = Some y" for x y
    using that halt_ok by (auto split: option.splits)
  have wait: "relay_ok y \<and> r_world y = r_world x \<and> r_config y = r_config x" if "relay_ok x"
    "out_state (case r_dynConfigUpdater x of None \<Rightarrow> Done x
      | Some dcu \<Rightarrow> if refreshTimer dcu = None then Blocked x
          else (case dcu_wait dcu of Panic p \<Rightarrow> Died p | Ret dcu' \<Rightarrow> Done (x\<lparr>r_dynConfigUpdater := Some dcu'\<rparr>))) = Some y" for x y
    using that by (auto split: option.splits if_splits go_result.splits)
  from assms(2) consider "stop_timers r = Blocked r'" | x where "stop_timers r = Done x" "?halt x = Blocked r'"
    | x y where "stop_timers r = Done x" "?halt x = Done y"
      "out_state (case r_dynConfigUpdater y of None \<Rightarrow> Done y
      | Some dcu \<Rightarrow> if refreshTimer dcu = None then Blocked y
          else (case dcu_wait dcu of Panic p \<Rightarrow> Died p | Ret dcu' \<Rightarrow> Done (y\<lparr>r_dynConfigUpdater := Some dcu'\<rparr>))) = Some r'"
    unfolding Stop_def by (auto simp only: out_state_bind)
  then show ?thesis
  proof cases
    case 1
    then show ?thesis using stop_timers_ok [OF assms(1), of r'] by (simp only: out_state.simps)
  next
    case (2 x)
    have "relay_ok x \<and> r_world x = r_world r \<and> r_config x = r_config r" using stop_timers_ok [OF assms(1), of x] by (simp only: 2(1) out_state.simps)
    moreover have "out_state (?halt x) = Some r'" by (simp only: 2(2) out_state.simps)
    ultimately show ?thesis using halt [of x r'] by simp
  next
    case (3 x y)
    have "relay_ok x \<and> r_world x = r_world r \<and> r_config x = r_config r" using stop_timers_ok [OF assms(1), of x] by (simp only: 3(1) out_state.simps)
    moreover have "out_state (?halt x) = Some y" by (simp only: 3(2) out_state.simps)
    ultimately show ?thesis using halt [of x y] wait [OF _ 3(3)] by simp
  qed
qed

lemma handler_step_ok: "handler_step os r r' \<Longrightarrow> relay_ok r \<Longrightarrow> relay_ok r'"
proof (induction rule: handler_step.induct)
  case (hs_docker r err r')
  then have "world_ok (r_world r)" by (simp add: relay_ok_def)
  note init = engine_Init_world [OF _ this, of os]
  from hs_docker(1) show ?case
  proof (cases rule: start_docker_cases)
    case 1
    with hs_docker(2) show ?thesis by simp
  next
    case 2
    with init relay_ok_world [OF hs_docker(2)] show ?thesis by blast
  next
    case 3
    with init relay_ok_world [OF hs_docker(2)] show ?thesis by simp
  qed
next
  case (hs_options re r opts)
  then show ?case by (simp add: relay_ok_def)
next
  case (hs_clean_timer r re r')
  then show ?case using start_clean_timer_ok by blast
next
  case (hs_event re conn event r r')
  then show ?case using handleBusEvents_ok by blast
next
  case (hs_directive re r topic message r')
  then have "r_announcer r \<noteq> None" by (auto simp: relay_ok_def)
  with hs_directive show ?case using handleDirective_ok by blast
next
  case (hs_command r topic message r')
  then show ?case by (auto simp: handleCommand_def relay_ok_def Let_def split: if_splits)
next
  case (hs_refresh re r t r')
  have ok: "relay_ok (stop_timer t r)" using hs_refresh relay_ok_timers(2) by blast
  from hs_refresh(3) obtain err r1 where "requestBundles re (stop_timer t r) = Ret (err, r1)"
    "r' = r1 \<or> out_state (start_bundle_timer re r1) = Some r'"
    by (auto simp: scheduledBundleRefresh_def split: go_result.splits option.splits)
  with requestBundles_ok [OF ok] start_bundle_timer_ok show ?case by blast
next
  case (hs_clean r t ord re now r')
  have ok: "relay_ok (stop_timer t r)" using hs_clean relay_ok_timers(2) by blast
  have w: "r_world (stop_timer t r) = r_world r" "world_ok (r_world r)" using hs_clean by (simp_all add: stop_timer_def relay_ok_def)
  from hs_clean(3) obtain eng n eng' w' where run: "engine_Clean os ord now (eng, r_world r) = Ret (n, (eng', w'))"
    "out_state (start_clean_timer re ((stop_timer t r)\<lparr>r_dockerEngine := Some eng', r_world := w'\<rparr>)) = Some r'"
    by (rule scheduledDockerCleanup_cases) (simp add: w)
  have "relay_ok ((stop_timer t r)\<lparr>r_dockerEngine := Some eng', r_world := w'\<rparr>)"
    using relay_ok_world [of "(stop_timer t r)\<lparr>r_dockerEngine := Some eng'\<rparr>" w'] ok
      engine_Clean_world [OF run(1) hs_clean(2) w(2)] by simp
  with run(2) show ?case using start_clean_timer_ok by blast
next
  case (hs_announcer r ra ra')
  then have "announcer_reachable (Ret ra')" by (auto simp: relay_ok_def intro: reachable_step)
  with hs_announcer show ?case by (auto simp: relay_ok_def catalog_ok_def)
next
  case (hs_stop r r')
  then show ?case using Stop_ok by blast
qed

lemma relay_step_ok: "relay_step os r r' \<Longrightarrow> relay_ok r \<Longrightarrow> relay_ok r'"
proof (induction rule: relay_step.induct)
  case (rs_handler r r')
  then show ?case by (rule handler_step_ok)
next
  case (rs_worker r invoke q ins d d' ww)
  have "world_ok (ww_engines ww)"
    using rs_worker(2,3) respond_keeps unfolding executeCommand_Ret by (fastforce simp: worker_view_def relay_ok_def)
  with rs_worker show ?case by (auto simp: relay_ok_def)
qed

interpretation relay_sys: invariant_system relay_init "relay_step os" relay_ok for os
  by unfold_locales (auto intro: NewRelay_ok relay_step_ok)

section \<open>Properties\<close>

subsection \<open>What an update of the catalog does\<close>

text \<open>The catalog after an update, in terms of what \<^verbatim>\<open>Replace\<close> made of the old one.\<close>

lemma set_catalog_fields [simp]:
  "r_catalog (set_catalog bc r) = bc" "r_config (set_catalog bc r) = r_config r" "r_world (set_catalog bc r) = r_world r"
  "r_timers (set_catalog bc r) = r_timers r" "r_announcer (set_catalog bc r) = map_option (\<lambda>ra. ra\<lparr>catalog := bc\<rparr>) (r_announcer r)"
  by (simp_all add: set_catalog_def)

lemma BundleNames_order:
  "env_ok re \<Longrightarrow> catalog_ok bc \<Longrightarrow> set (BundleNames (re_order re bc) bc) = dom (bundles bc) \<and> distinct (BundleNames (re_order re bc) bc)"
  using range_order_set range_order_distinct unfolding env_ok_def catalog_ok_def BundleNames_filter by fastforce

lemma refreshBundles_bundles:
  assumes "refreshBundles os re r = Ret (err, r')" and "env_ok re" and "catalog_ok (r_catalog r)" and "world_ok (r_world r)"
  shows "r_config r' = r_config r \<and>
    (case bundles (r_catalog r) n of
       None \<Rightarrow> bundles (r_catalog r') n = None
     | Some b \<Rightarrow> \<exists>b'. bundles (r_catalog r') n = Some b' \<and> availability (r_config r) b b')"
proof -
  from assms(1) obtain eng bc w where r': "r' = set_catalog bc (r\<lparr>r_world := w\<rparr>)" and
    loop: "refresh_loop os (r_config r) (BundleNames (re_order re (r_catalog r)) (r_catalog r)) eng (r_catalog r, r_world r) = Ret (bc, w)"
    by (rule refreshBundles_cases)
  note names = BundleNames_order [OF assms(2,3)]
  from refresh_loop_bundles [OF loop assms(4), of n] names r' show ?thesis
    by (cases "n \<in> dom (bundles (r_catalog r))") auto
qed

lemma send_announcement_frame:
  "out_state (send_announcement r) = Some r' \<Longrightarrow> r_catalog r' = r_catalog r \<and> r_config r' = r_config r \<and> r_world r' = r_world r"
  by (auto simp: send_announcement_def split: option.splits)

lemma start_bundle_timer_frame:
  "out_state (start_bundle_timer re r) = Some r' \<Longrightarrow> r_catalog r' = r_catalog r \<and> r_config r' = r_config r \<and> r_world r' = r_world r"
  by (auto simp: start_bundle_timer_def after_func_def Let_def split: go_result.splits)

lemma updateCatalog_state:
  assumes "out_state (updateCatalog os re envelope r) = Some r'"
    and "r1 = set_catalog (fst (Replace (re_order re (r_catalog r)) (fixed_bundles (resp_Bundles envelope)) (r_catalog r))) r"
  shows "if IsChanged (r_catalog r1) then \<exists>err r2. refreshBundles os re r1 = Ret (err, r2) \<and> r_catalog r' = r_catalog r2 \<and> r_world r' = r_world r2 \<and> r_config r' = r_config r2
    else r_catalog r' = r_catalog r1 \<and> r_world r' = r_world r1 \<and> r_config r' = r_config r1"
proof (cases "IsChanged (r_catalog r1)")
  case True
  let ?m = "case refreshBundles os re r1 of Panic p \<Rightarrow> Died p | Ret (Some err, r2) \<Rightarrow> Done r2 | Ret (None, r2) \<Rightarrow> send_announcement r2"
  from assms True have "out_state (out_bind ?m (start_bundle_timer re)) = Some r'" by (simp add: updateCatalog_def Let_def)
  then obtain x where x: "out_state ?m = Some x" "r_catalog r' = r_catalog x" "r_world r' = r_world x" "r_config r' = r_config x"
    unfolding out_state_bind using start_bundle_timer_frame by fastforce
  from x(1) obtain err r2 where "refreshBundles os re r1 = Ret (err, r2)" "x = r2 \<or> out_state (send_announcement r2) = Some x"
    by (auto split: go_result.splits option.splits)
  with x(2-4) True send_announcement_frame show ?thesis by fastforce
next
  case False
  with assms have "out_state (start_bundle_timer re r1) = Some r'" by (simp add: updateCatalog_def Let_def)
  from start_bundle_timer_frame [OF this] False show ?thesis by simp
qed

lemma start_updater_frame: "out_state (start_updater re r) = Some r' \<Longrightarrow> r_config r' = r_config r \<and> r_world r' = r_world r"
  by (auto simp: start_updater_def Let_def split: option.splits go_result.splits)

lemma start_announcer_frame: "out_state (start_announcer re r) = Some r' \<Longrightarrow> r_config r' = r_config r \<and> r_world r' = r_world r"
  by (auto simp: start_announcer_def Let_def dest: start_updater_frame split: sum.splits if_splits)

lemma setSubscriptions_frame: "setSubscriptions re r = (err, r') \<Longrightarrow> r_config r' = r_config r \<and> r_world r' = r_world r"
  by (auto simp: setSubscriptions_def relay_subscribe_def split: option.splits)

lemma requestBundles_frame: "requestBundles re r = Ret (err, r') \<Longrightarrow> r_config r' = r_config r \<and> r_world r' = r_world r"
  by (auto simp: requestBundles_def Let_def split: if_splits option.splits)

lemma handleBusEvents_frame:
  assumes "out_state (handleBusEvents re conn event r) = Some r'"
  shows "r_config r' = r_config r \<and> r_world r' = r_world r"
proof -
  let ?r0 = "r\<lparr>r_conn := Some conn, r_subs := []\<rparr>"
  let ?m = "case r_announcer ?r0 of None \<Rightarrow> start_announcer re ?r0
     | Some ra \<Rightarrow> (case SetSubscriptions (be_subscribe (re_bus re)) ra of
          Some err \<Rightarrow> Died err
        | None \<Rightarrow> send_announcement (?r0\<lparr>r_subs := r_subs ?r0 @ [receiptTopic ra]\<rparr>))"
  let ?f = "\<lambda>r1. case setSubscriptions re r1 of (Some err, r2) \<Rightarrow> Died err
     | (None, r2) \<Rightarrow> if Len (r_catalog r2) > 0 then Done (set_catalog (Reconnected (r_catalog r2)) r2)
         else (case requestBundles re r2 of Panic p \<Rightarrow> Died p | Ret (err, r3) \<Rightarrow> Done r3)"
  have m: "r_config x = r_config r \<and> r_world x = r_world r" if "out_state ?m = Some x" for x
    using that start_announcer_frame [of re ?r0 x] send_announcement_frame
    by (fastforce split: option.splits)
  have f: "r_config y = r_config x \<and> r_world y = r_world x" if "out_state (?f x) = Some y" for x y
    using that
    by (auto dest!: setSubscriptions_frame requestBundles_frame split: prod.splits option.splits if_splits go_result.splits)
  have "handleBusEvents re conn event r = out_bind ?m ?f" by (cases event) (simp add: handleBusEvents_def Let_def)
  with assms consider "?m = Blocked r'" | x where "?m = Done x" "out_state (?f x) = Some r'"
    by (auto simp only: out_state_bind)
  then show ?thesis
  proof cases
    case 1
    then show ?thesis using m [of r'] by (simp only: out_state.simps)
  next
    case 2
    have "r_config x = r_config r \<and> r_world x = r_world r" by (rule m) (simp only: 2(1) out_state.simps)
    with f [OF 2(2)] show ?thesis by simp
  qed
qed

lemma start_clean_timer_frame:
  "out_state (start_clean_timer re r) = Some r' \<Longrightarrow> r_config r' = r_config r \<and> r_world r' = r_world r"
  by (auto simp: start_clean_timer_def after_func_def Let_def split: option.splits go_result.splits)

text \<open>No handler, timer or clean-up takes an environment away from the worker that uses it.\<close>

lemma keeps_leases_refl [simp]: "keeps_leases w w X"
  by (simp add: keeps_leases_def)

lemma refreshBundles_keeps:
  assumes "refreshBundles os re r = Ret (err, r')" and "world_ok (r_world r)"
  shows "r_config r' = r_config r \<and> keeps_leases (r_world r) (r_world r') {}"
  using assms(1) by (elim refreshBundles_cases) (use refresh_loop_ops [OF _ assms(2)] in simp)

lemma updateCatalog_keeps:
  assumes "out_state (updateCatalog os re envelope r) = Some r'" and "world_ok (r_world r)"
  shows "r_config r' = r_config r \<and> keeps_leases (r_world r) (r_world r') {}"
proof -
  let ?r1 = "set_catalog (fst (Replace (re_order re (r_catalog r)) (fixed_bundles (resp_Bundles envelope)) (r_catalog r))) r"
  from updateCatalog_state [OF assms(1) refl] consider "r_world r' = r_world ?r1" "r_config r' = r_config ?r1"
    | err r2 where "refreshBundles os re ?r1 = Ret (err, r2)" "r_world r' = r_world r2" "r_config r' = r_config r2"
    by (auto split: if_splits)
  then show ?thesis using refreshBundles_keeps [of os re ?r1] assms(2) by cases auto
qed

lemma handler_step_frame:
  "handler_step os r r' \<Longrightarrow> relay_ok r \<Longrightarrow> r_config r' = r_config r \<and> keeps_leases (r_world r) (r_world r') {}"
proof (induction rule: handler_step.induct)
  case (hs_docker r err r')
  then have "world_ok (r_world r)" by (simp add: relay_ok_def)
  note init = engine_Init_world(2) [OF _ this, of os]
  from hs_docker(1) show ?case by (cases rule: start_docker_cases) (use init in simp_all)
next
  case (hs_clean_timer r re r')
  then show ?case using start_clean_timer_frame by fastforce
next
  case (hs_event re conn event r r')
  then show ?case using handleBusEvents_frame by fastforce
next
  case (hs_directive re r topic message r')
  have "world_ok (r_world r)" using hs_directive(4) by (simp add: relay_ok_def)
  with hs_directive(3) show ?case using updateCatalog_keeps [of os re _ r r']
    by (auto simp: handleDirective_def split: sum.splits)
next
  case (hs_command r topic message r')
  then show ?case by (auto simp: handleCommand_def Let_def split: if_splits)
next
  case (hs_refresh re r t r')
  from hs_refresh(3) obtain err r1 where "requestBundles re (stop_timer t r) = Ret (err, r1)"
    "r' = r1 \<or> out_state (start_bundle_timer re r1) = Some r'"
    by (auto simp: scheduledBundleRefresh_def split: go_result.splits option.splits)
  then have "r_world r' = r_world r1 \<and> r_config r' = r_config r1"
    "r_world r1 = r_world (stop_timer t r) \<and> r_config r1 = r_config (stop_timer t r)"
    using start_bundle_timer_frame [of re r1 r'] requestBundles_frame by blast+
  then show ?case by (simp add: stop_timer_def)
next
  case (hs_clean r t ord re now r')
  have w: "r_world (stop_timer t r) = r_world r" "r_config (stop_timer t r) = r_config r" "world_ok (r_world r)"
    using hs_clean by (simp_all add: stop_timer_def relay_ok_def)
  from hs_clean(3) obtain eng n eng' w' where run: "engine_Clean os ord now (eng, r_world r) = Ret (n, (eng', w'))"
    "out_state (start_clean_timer re ((stop_timer t r)\<lparr>r_dockerEngine := Some eng', r_world := w'\<rparr>)) = Some r'"
    by (rule scheduledDockerCleanup_cases) (simp add: w)
  with start_clean_timer_frame [OF run(2)] engine_Clean_world [OF run(1) hs_clean(2) w(3)] w(2) show ?case by simp
next
  case (hs_stop r r')
  from Stop_ok [OF hs_stop(2,1)] show ?case by simp
qed simp_all

lemmas handler_step_keeps = handler_step_frame [THEN conjunct1] handler_step_frame [THEN conjunct2]

lemma updateCatalog_bundles:
  assumes "out_state (updateCatalog os re envelope r) = Some r'" and "env_ok re" and "relay_ok r"
    and "bc1 = fst (Replace (re_order re (r_catalog r)) (fixed_bundles (resp_Bundles envelope)) (r_catalog r))"
  shows "case bundles bc1 n of
       None \<Rightarrow> bundles (r_catalog r') n = None
     | Some b \<Rightarrow> \<exists>b'. bundles (r_catalog r') n = Some b' \<and> (if IsChanged bc1 then availability (r_config r) b b' else b' = b)"
proof -
  let ?r1 = "set_catalog bc1 r"
  have ok1: "catalog_ok bc1" "world_ok (r_world ?r1)"
    using catalog_ops_ok [OF Replace_op [OF assms(2)]] assms(3,4) by (auto simp: relay_ok_def)
  have "?r1 = set_catalog (fst (Replace (re_order re (r_catalog r)) (fixed_bundles (resp_Bundles envelope)) (r_catalog r))) r"
    using assms(4) by simp
  note st = updateCatalog_state [OF assms(1) this]
  show ?thesis
  proof (cases "IsChanged bc1")
    case True
    with st obtain err r2 where r2: "refreshBundles os re ?r1 = Ret (err, r2)" "r_catalog r' = r_catalog r2" by auto
    from refreshBundles_bundles [OF r2(1) assms(2), of n] ok1 r2(2) True show ?thesis by (simp split: option.splits)
  next
    case False
    with st show ?thesis by (simp split: option.splits)
  qed
qed

lemma fixed_bundles_names: "map Name (fixed_bundles bs) = map (Name \<circ> ConfigFile) bs"
  by (induction bs) simp_all

lemma fixed_bundles_versions:
  "versions_of (fixed_bundles bs) n =
     (case find (\<lambda>b. Name (ConfigFile b) = n) bs of None \<Rightarrow> None | Some b \<Rightarrow> Some (fixBundleVersion (Version (ConfigFile b))))"
  by (induction bs) (auto simp: versions_of_def)

subsection \<open>Samples\<close>

definition sample_config :: Config where
  "sample_config = native_config\<lparr>ID := ''r1'', MaxConcurrent := 2,
     Cog := Some \<lparr>Host = ''cog'', Port = 1883, Token = ''t'', SSLEnabled = False, SSLCertPath = [], RefreshInterval = ''1m''\<rparr>\<rparr>"

text \<open>The catalog's map is visited in the order of the names.\<close>

definition sample_env :: relay_env where
  "sample_env = \<lparr>re_bus = sample_bus, re_parseDuration = \<lambda>_. Inr 60, re_marshal_list = lb_ReplyTo, re_marshal_ann = ann_RelayID,
     re_marshal_get = gdc_ReplyTo, re_unmarshalAny = \<lambda>_. Inl ''malformed'', re_unmarshalList = \<lambda>_. Inl ''malformed'',
     re_order = \<lambda>bc. sorted_list_of_set (dom (bundles bc)), re_sched = Before_Refresh\<rparr>"

lemma sample_env_ok: "env_ok sample_env"
  by (simp add: env_ok_def sample_env_def range_order_def)

text \<open>A new relay, and one that has handled the event of its first connection.\<close>

definition new_relay :: "Config \<Rightarrow> (unit, unit) cogRelay" where
  "new_relay config =
     \<lparr>r_config = config, r_connOpts = None, r_conn = None, r_queue = [], r_dockerEngine = None,
      r_catalog = NewCatalog, r_announcer = None, r_dynConfigUpdater = None, directivesReplyTo = directiveTopic (ID config),
      r_bundleTimer = None, r_cleanTimer = None, r_timers = Map.empty, r_nextTimer = 0, r_workers = 0, r_subs = [],
      r_sent = [], r_world = fresh_world\<rparr>"

definition online_relay :: "Config \<Rightarrow> (unit, unit) cogRelay" where
  "online_relay config = (new_relay config)\<lparr>r_conn := Some new_connection,
     r_announcer := Some ((NewAnnouncer (ID config) NewCatalog)\<lparr>state := WaitingState, loopPC := LoopTest\<rparr>),
     r_subs := [''bot/relays/'' @ ID config @ ''/announcer'', directiveTopic (ID config), commandTopic (ID config)],
     r_sent := [(infoTopic, directiveTopic (ID config))]\<rparr>"

lemma new_relay_init: "MaxConcurrent config \<ge> 0 \<Longrightarrow> relay_init (new_relay config)"
  by (auto simp: relay_init_def NewRelay_def new_relay_def fresh_world_def intro!: exI [of _ config])

lemma online_event:
  assumes "\<not> ManagedDynamicConfig config"
  shows "handleBusEvents sample_env new_connection ConnectedEvent (new_relay config) = Done (online_relay config)"
  using assms
  by (simp add: handleBusEvents_def start_announcer_def Run_def SetSubscriptions_def setSubscriptions_def relay_subscribe_def
    requestBundles_def bus_Publish_def Publish_def online_relay_def new_relay_def NewAnnouncer_def Len_def map_len_def
    NewCatalog_def sample_env_def sample_bus_def Let_def)

lemma online_reachable:
  assumes "\<not> ManagedDynamicConfig config" and "MaxConcurrent config \<ge> 0"
  shows "reachable relay_init (relay_step os) (online_relay config)"
proof (rule reachable_step)
  show "reachable relay_init (relay_step os) (new_relay config)" by (rule reachable_init) (rule new_relay_init [OF assms(2)])
  show "relay_step os (new_relay config) (online_relay config)"
    by (rule rs_event [OF sample_env_ok, where conn = new_connection and event = ConnectedEvent]) (simp add: online_event [OF assms(1)])
qed

lemma online_ok: "\<not> ManagedDynamicConfig config \<Longrightarrow> MaxConcurrent config \<ge> 0 \<Longrightarrow> relay_ok (online_relay config)"
  by (rule relay_sys.reachable_inv [OF online_reachable])

definition two_part_bundle :: Bundle where
  "two_part_bundle = sample_bundle ''foo'' ''1.2''"

lemma sample_config_simps [simp]:
  "\<not> ManagedDynamicConfig sample_config" "MaxConcurrent sample_config = 2" "NativeEnabled sample_config" "\<not> DockerEnabled sample_config"
  "Cog sample_config \<noteq> None" "ID sample_config = ''r1''"
  by (simp_all add: sample_config_def native_config_def zero_config_def NativeEnabled_def DockerEnabled_def engineEnabled_def
    NativeEngine_def DockerEngine_def)

lemma sample_online_ok: "relay_ok (online_relay sample_config)"
  by (rule online_ok) simp_all

lemma sample_order: "re_order sample_env NewCatalog = []"
  by (simp add: sample_env_def NewCatalog_def)

lemma sample_replaced:
  "fst (Replace (re_order sample_env (r_catalog (online_relay sample_config))) (fixed_bundles [\<lparr>ConfigFile = two_part_bundle\<rparr>])
     (r_catalog (online_relay sample_config))) =
   NewCatalog\<lparr>bundles := [''foo'' \<mapsto> two_part_bundle\<lparr>Version := ''1.2.0''\<rparr>], epoch := 1\<rparr>"
  by (simp add: online_relay_def new_relay_def sample_order [unfolded NewCatalog_def] Replace_def diff_def NewCatalog_def newDiffResult_def
    two_part_bundle_def sample_bundle_def fixBundleVersion_def Let_def)

lemma sample_directive:
  "\<exists>r'. out_state (updateCatalog sample_outside sample_env \<lparr>resp_Bundles = [\<lparr>ConfigFile = two_part_bundle\<rparr>]\<rparr> (online_relay sample_config)) = Some r' \<and>
     bundles (r_catalog r') ''foo'' \<noteq> None \<and> r_subs r' = r_subs (online_relay sample_config) \<and> r_queue r' = [] \<and> r_config r' = sample_config"
proof -
  have eng: "EngineForBundle sample_config b = Ret (Inr (Native_Eng sample_config))" if "Docker b = None" for b
    using that by (simp add: EngineForBundle_def IsDocker_def GetEngine_def NewNativeEngine_def)
  have ann: "SendAnnouncement (ra\<lparr>catalog := bc\<rparr>) \<noteq> None" if "control ra = []" for ra bc
    using that by (simp add: SendAnnouncement_def send_control_def)
  let ?bc = "NewCatalog\<lparr>bundles := [''foo'' \<mapsto> two_part_bundle\<lparr>Version := ''1.2.0''\<rparr>], epoch := 1\<rparr>"
  have names: "re_order sample_env (NewCatalog\<lparr>bundles := [''foo'' \<mapsto> b], epoch := 1\<rparr>) = [''foo'']" for b by (simp add: sample_env_def)
  have dur: "RefreshDuration (re_parseDuration sample_env) sample_config = Ret 60"
    by (simp add: RefreshDuration_def sample_config_def sample_env_def)
  have "\<exists>r2. refreshBundles sample_outside sample_env (set_catalog ?bc (online_relay sample_config)) = Ret (None, r2) \<and>
      bundles (r_catalog r2) ''foo'' \<noteq> None \<and> r_config r2 = sample_config \<and> (\<exists>ra. r_announcer r2 = Some ra \<and> control ra = []) \<and>
      r_subs r2 = r_subs (online_relay sample_config) \<and> r_queue r2 = []"
    by (simp add: refreshBundles_def names Find_def NeedsRefresh_def two_part_bundle_def sample_bundle_def eng
      native_IsAvailable_def set_available_def online_relay_def new_relay_def NewAnnouncer_def set_catalog_def)
  then obtain r2 where r2: "refreshBundles sample_outside sample_env (set_catalog ?bc (online_relay sample_config)) = Ret (None, r2)"
      "bundles (r_catalog r2) ''foo'' \<noteq> None" "r_config r2 = sample_config" "\<exists>ra. r_announcer r2 = Some ra \<and> control ra = []"
      "r_subs r2 = r_subs (online_relay sample_config)" "r_queue r2 = []" by blast
  then obtain r3 where r3: "send_announcement r2 = Done r3" "r_catalog r3 = r_catalog r2" "r_config r3 = r_config r2"
      "r_subs r3 = r_subs r2" "r_queue r3 = r_queue r2"
    by (auto simp: send_announcement_def SendAnnouncement_def send_control_def)
  have "IsChanged ?bc" by (simp add: IsChanged_def NewCatalog_def)
  with r2 r3 dur show ?thesis
    by (simp add: updateCatalog_def sample_replaced [simplified] Let_def start_bundle_timer_def after_func_def)
qed

lemma sample_changed:
  "IsChanged (fst (Replace (re_order sample_env (r_catalog (online_relay sample_config)))
     (fixed_bundles (resp_Bundles \<lparr>resp_Bundles = [\<lparr>ConfigFile = two_part_bundle\<rparr>]\<rparr>)) (r_catalog (online_relay sample_config))))"
  using sample_replaced by (simp add: IsChanged_def NewCatalog_def)

text \<open>
  C3: the catalog follows Cog. Whatever the relay's state, after it has handled a bundle list
  that names each bundle once, exactly the bundles of the list are installed, in the listed
  versions with two-part versions completed, whether or not the availability checks succeed
  and even when the announcement has to wait.
\<close>

theorem updateCatalog_installs:
  assumes "relay_ok r" and "env_ok re" and "distinct (map (Name \<circ> ConfigFile) (resp_Bundles envelope))"
    and "out_state (updateCatalog os re envelope r) = Some r'"
  shows "installed (r_catalog r') n =
    (case find (\<lambda>b. Name (ConfigFile b) = n) (resp_Bundles envelope) of
       None \<Rightarrow> None
     | Some b \<Rightarrow> Some (fixBundleVersion (Version (ConfigFile b))))"
proof -
  let ?bc1 = "fst (Replace (re_order re (r_catalog r)) (fixed_bundles (resp_Bundles envelope)) (r_catalog r))"
  have "range_order (bundles (r_catalog r)) (re_order re (r_catalog r))"
    using assms(1,2) by (simp add: relay_ok_def catalog_ok_def env_ok_def)
  moreover have "distinct (map Name (fixed_bundles (resp_Bundles envelope)))" using assms(3) by (simp add: fixed_bundles_names)
  ultimately have "installed ?bc1 n = versions_of (fixed_bundles (resp_Bundles envelope)) n" by (rule Replace_versions)
  moreover have "installed (r_catalog r') n = installed ?bc1 n"
    using updateCatalog_bundles [OF assms(4,2,1) refl, of n]
    by (auto simp: installed_def availability_def SetAvailable_def split: option.splits if_splits)
  ultimately show ?thesis by (simp add: fixed_bundles_versions)
qed

theorem updateCatalog_installs_witness:
  "\<exists>r'. out_state (updateCatalog sample_outside sample_env \<lparr>resp_Bundles = [\<lparr>ConfigFile = two_part_bundle\<rparr>]\<rparr> (online_relay sample_config)) = Some r' \<and>
     installed (r_catalog r') ''foo'' = Some ''1.2.0''"
proof -
  obtain r' where "out_state (updateCatalog sample_outside sample_env \<lparr>resp_Bundles = [\<lparr>ConfigFile = two_part_bundle\<rparr>]\<rparr> (online_relay sample_config)) = Some r'"
    using sample_directive by auto
  with updateCatalog_installs [OF sample_online_ok sample_env_ok _ this] show ?thesis
    by (simp add: versions_of_def two_part_bundle_def sample_bundle_def fixBundleVersion_def)
qed

text \<open>
  The announced catalog is the checked one. After an update that changed the catalog, every
  native bundle is available, and without a Docker engine no Docker bundle has become
  available; no other field of a bundle has changed.
\<close>

theorem updateCatalog_availability:
  assumes "relay_ok r" and "env_ok re" and "out_state (updateCatalog os re envelope r) = Some r'"
    and "bc1 = fst (Replace (re_order re (r_catalog r)) (fixed_bundles (resp_Bundles envelope)) (r_catalog r))"
    and "IsChanged bc1" and "bundles (r_catalog r') n = Some b'"
  shows "(Docker b' = None \<longrightarrow> available b') \<and>
    (\<exists>b. bundles bc1 n = Some b \<and> b' = b\<lparr>available := available b'\<rparr> \<and>
       (Docker b \<noteq> None \<and> \<not> DockerEnabled (r_config r) \<and> \<not> available b \<longrightarrow> \<not> available b'))"
proof -
  from updateCatalog_bundles [OF assms(3,2,1,4), of n] assms(5,6) obtain b where
    b: "bundles bc1 n = Some b" "availability (r_config r) b b'" by (auto split: option.splits)
  then have "b' = b\<lparr>available := available b'\<rparr>" by (auto simp: availability_def SetAvailable_def split: if_splits)
  moreover have "Docker b' = None \<longrightarrow> available b'" "Docker b \<noteq> None \<and> \<not> DockerEnabled (r_config r) \<and> \<not> available b \<longrightarrow> \<not> available b'"
    using b(2) by (auto simp: availability_def SetAvailable_def NeedsRefresh_def split: if_splits option.splits)
  ultimately show ?thesis using b(1) by blast
qed

theorem updateCatalog_availability_witness:
  "\<exists>r' b'. out_state (updateCatalog sample_outside sample_env \<lparr>resp_Bundles = [\<lparr>ConfigFile = two_part_bundle\<rparr>]\<rparr> (online_relay sample_config)) = Some r' \<and>
     bundles (r_catalog r') ''foo'' = Some b' \<and> available b'"
proof -
  obtain r' where r': "out_state (updateCatalog sample_outside sample_env \<lparr>resp_Bundles = [\<lparr>ConfigFile = two_part_bundle\<rparr>]\<rparr> (online_relay sample_config)) = Some r'"
    "bundles (r_catalog r') ''foo'' \<noteq> None" using sample_directive by auto
  then obtain b' where b': "bundles (r_catalog r') ''foo'' = Some b'" by auto
  note avail = updateCatalog_availability [OF sample_online_ok sample_env_ok r'(1) refl sample_changed b']
  then have "Docker b' = None" using sample_replaced by (auto simp: two_part_bundle_def sample_bundle_def dest: arg_cong [where f = Docker])
  with avail r'(1) b' show ?thesis by blast
qed

text \<open>
  A version with two parts is completed with a third, and every other version is left as
  it is; completing twice changes nothing more.
\<close>

theorem fixBundleVersion_parts:
  "fixBundleVersion (fixBundleVersion v) = fixBundleVersion v \<and> prefix v (fixBundleVersion v) \<and>
   split_on (CHR ''.'') (fixBundleVersion v) =
     (if length (split_on (CHR ''.'') v) = 2 then split_on (CHR ''.'') v @ [''0''] else split_on (CHR ''.'') v)"
proof -
  have three: "split_on (CHR ''.'') (v @ ''.0'') = split_on (CHR ''.'') v @ [''0'']"
  proof (induction v)
    case Nil
    then show ?case by simp
  next
    case (Cons x xs)
    then show ?case by (cases "split_on (CHR ''.'') xs") auto
  qed
  then show ?thesis by (auto simp: fixBundleVersion_def)
qed

text \<open>
  C6: the parts of a running relay fit together. In every state that bus events, directives,
  commands, workers, timers and announcer goroutines can lead to, the relay and its announcer
  see the same catalog, the announcer is in a state its own model can reach (so what is proved
  of the announcer holds inside the relay), the catalog and the shared environments are in
  order, and no more invocations are queued than there are workers.
\<close>

theorem relay_composition:
  assumes "reachable relay_init (relay_step os) r"
  shows "(\<forall>ra. r_announcer r = Some ra \<longrightarrow> catalog ra = r_catalog r \<and> announcer_reachable (Ret ra)) \<and>
    catalog_ok (r_catalog r) \<and> world_ok (r_world r) \<and> length (r_queue r) \<le> nat (MaxConcurrent (r_config r))"
  using relay_sys.reachable_inv [OF assms] by (auto simp: relay_ok_def)

theorem relay_composition_witness:
  "\<exists>ra. r_announcer (online_relay sample_config) = Some ra \<and> catalog ra = r_catalog (online_relay sample_config) \<and>
     announcer_reachable (Ret ra)"
proof -
  have "reachable relay_init (relay_step sample_outside) (online_relay sample_config)" by (rule online_reachable) simp_all
  from relay_composition [OF this] show ?thesis by (simp add: online_relay_def)
qed

text \<open>
  C38: a native bundle stops a relay without the native engine. When the relay handles a bundle
  list that leaves a native bundle unchecked in a changed catalog, and the native engine is
  disabled, the process panics: the error that came instead of an engine is ignored.
\<close>

theorem native_bundle_without_engine_panics:
  assumes "relay_ok r" and "env_ok re" and "\<not> NativeEnabled (r_config r)"
    and "bc1 = fst (Replace (re_order re (r_catalog r)) (fixed_bundles (resp_Bundles envelope)) (r_catalog r))"
    and "IsChanged bc1" and "bundles bc1 n = Some b" and "Docker b = None" and "\<not> available b"
  shows "\<exists>p. updateCatalog os re envelope r = Died p"
proof (rule ccontr)
  assume "\<not> ?thesis"
  then obtain r' where "out_state (updateCatalog os re envelope r) = Some r'"
    by (cases "updateCatalog os re envelope r") auto
  from updateCatalog_bundles [OF this assms(2,1,4), of n] assms(3,5-8) show False
    by (simp add: availability_def NeedsRefresh_def)
qed

theorem native_bundle_without_engine_panics_witness:
  "\<exists>p. updateCatalog sample_outside sample_env \<lparr>resp_Bundles = [\<lparr>ConfigFile = two_part_bundle\<rparr>]\<rparr>
     (online_relay (sample_config\<lparr>ParsedEnginesEnabled := [''docker'']\<rparr>)) = Died p"
proof -
  let ?c = "sample_config\<lparr>ParsedEnginesEnabled := [''docker'']\<rparr>"
  have c: "\<not> ManagedDynamicConfig ?c" "MaxConcurrent ?c \<ge> 0" "\<not> NativeEnabled ?c"
    by (simp_all add: sample_config_def native_config_def zero_config_def NativeEnabled_def engineEnabled_def NativeEngine_def)
  have cat: "r_catalog (online_relay c) = NewCatalog" "r_config (online_relay c) = c" for c
    by (simp_all add: online_relay_def new_relay_def)
  note bc1 = sample_replaced [unfolded cat]
  have changed: "IsChanged (fst (Replace (re_order sample_env NewCatalog) (fixed_bundles [\<lparr>ConfigFile = two_part_bundle\<rparr>]) NewCatalog))"
    unfolding bc1 by (simp add: IsChanged_def NewCatalog_def)
  have entry: "bundles (fst (Replace (re_order sample_env NewCatalog) (fixed_bundles [\<lparr>ConfigFile = two_part_bundle\<rparr>]) NewCatalog)) ''foo'' =
      Some (two_part_bundle\<lparr>Version := ''1.2.0''\<rparr>)" unfolding bc1 by simp
  show ?thesis
    by (rule native_bundle_without_engine_panics [OF online_ok [OF c(1,2)] sample_env_ok _ refl, unfolded cat])
      (use c(3) changed entry in \<open>auto simp: two_part_bundle_def sample_bundle_def\<close>)
qed

text \<open>
  What \<^verbatim>\<open>Stop\<close> leaves running. It stops the bundle timer it knows, and the clean-up timer
  only when there is a bundle timer; every other timer still fires after the stop: an earlier
  bundle timer, and the clean-up timer of a relay that has not received a bundle list.
\<close>

theorem Stop_leaves_timers:
  assumes "out_state (Stop r) = Some r'" and "r_timers r t = Some f"
    and "r_bundleTimer r \<noteq> Some t" and "r_cleanTimer r \<noteq> Some t \<or> r_bundleTimer r = None"
  shows "r_timers r' t = Some f"
proof -
  from assms(1) obtain r1 where r1: "stop_timers r = Done r1 \<or> stop_timers r = Blocked r1" "r_timers r' = r_timers r1"
    by (cases "stop_timers r") (auto simp: Stop_def out_state_bind split: option.splits if_splits go_result.splits)
  from r1(1) assms(2-4) have "r_timers r1 t = Some f"
    by (auto simp: stop_timers_def stop_timer_def Let_def split: option.splits if_splits)
  with r1(2) show ?thesis by simp
qed

theorem Stop_leaves_timers_witness:
  "\<exists>r'. out_state (Stop ((online_relay sample_config)\<lparr>r_cleanTimer := Some 0, r_timers := [0 \<mapsto> DockerCleanup]\<rparr>)) = Some r' \<and>
     r_timers r' 0 = Some DockerCleanup"
proof -
  let ?r = "(online_relay sample_config)\<lparr>r_cleanTimer := Some 0, r_timers := [0 \<mapsto> DockerCleanup]\<rparr>"
  obtain r' where r': "out_state (Stop ?r) = Some r'"
    by (simp add: Stop_def stop_timers_def online_relay_def new_relay_def Halt_def send_control_def NewAnnouncer_def)
  have "r_timers r' 0 = Some DockerCleanup"
    by (rule Stop_leaves_timers [OF r']) (simp_all add: online_relay_def new_relay_def)
  with r' show ?thesis by blast
qed



subsection \<open>Agreement with Cog\<close>

lemma set_catalog_same:
  assumes "\<And>ra. r_announcer r = Some ra \<Longrightarrow> catalog ra = r_catalog r"
  shows "set_catalog (r_catalog r) r = r"
proof -
  have "map_option (\<lambda>ra. ra\<lparr>catalog := r_catalog r\<rparr>) (r_announcer r) = r_announcer r"
    using assms by (cases "r_announcer r") auto
  then show ?thesis by (simp add: set_catalog_def)
qed

lemma updateCatalog_same:
  assumes "relay_ok r" and "env_ok re" and "\<not> IsChanged (r_catalog r)"
    and "distinct (map (Name \<circ> ConfigFile) (resp_Bundles envelope))"
    and "installed (r_catalog r) = versions_of (fixed_bundles (resp_Bundles envelope))"
  shows "updateCatalog os re envelope r = start_bundle_timer re r"
proof -
  let ?ks = "re_order re (r_catalog r)" and ?bs = "fixed_bundles (resp_Bundles envelope)"
  have ord: "range_order (bundles (r_catalog r)) ?ks" using assms(1,2) by (simp add: relay_ok_def catalog_ok_def env_ok_def)
  have "distinct (map Name ?bs)" using assms(4) by (simp add: fixed_bundles_names)
  then have "installed (fst (Replace ?ks ?bs (r_catalog r))) = installed (r_catalog r)"
    using Replace_versions [OF ord, of ?bs] assms(5) by auto
  then have "fst (Replace ?ks ?bs (r_catalog r)) = r_catalog r"
    using Replace_dirty [OF ord] Replace_clean [OF ord] by blast
  moreover have "set_catalog (r_catalog r) r = r" using assms(1) by (intro set_catalog_same) (simp add: relay_ok_def)
  ultimately show ?thesis using assms(3) by (simp add: updateCatalog_def)
qed

lemma receipt_catalog:
  assumes "unmarshal payload = Inr rc" and "rcpt_ID rc = receiptFor ra" and "receiptFor ra = show_nat (unat (epoch (catalog ra)))"
    and "announceTimer ra \<noteq> None"
  obtains ra' where "cogReceipt unmarshal payload ra = Ret ra'" and "catalog ra' = (catalog ra)\<lparr>lastAcked := epoch (catalog ra)\<rparr>"
  using assms by (cases "announcementPending ra") (auto simp: cogReceipt_def Let_def timer_stop_def parse_show_uint64 EpochAcked_def)

text \<open>
  C15: the relay and Cog come to an agreement. When the receipt for the announcement of the
  current epoch arrives, the catalog counts as unchanged, with the same bundles; and from then
  on a bundle list that names what is installed changes nothing: the relay sends no
  announcement, asks no engine, and only schedules its next request.
\<close>

theorem acknowledged_catalog_is_quiet:
  assumes "reachable relay_init (relay_step os) r" and "env_ok re" and "r_announcer r = Some ra"
    and "receiptFor ra = show_nat (unat (epoch (r_catalog r)))" and "announceTimer ra \<noteq> None"
    and "unmarshal payload = Inr rc" and "rcpt_ID rc = receiptFor ra"
    and "distinct (map (Name \<circ> ConfigFile) (resp_Bundles envelope))"
    and "installed (r_catalog r) = versions_of (fixed_bundles (resp_Bundles envelope))"
    and "RefreshDuration (re_parseDuration re) (r_config r) = Ret d"
  shows "\<exists>ra' r1. cogReceipt unmarshal payload ra = Ret ra' \<and> r1 = r\<lparr>r_announcer := Some ra', r_catalog := catalog ra'\<rparr> \<and>
    relay_step os r r1 \<and> \<not> IsChanged (r_catalog r1) \<and> bundles (r_catalog r1) = bundles (r_catalog r) \<and>
    updateCatalog os re envelope r1 = Done (r1\<lparr>r_timers := (r_timers r1)(r_nextTimer r1 \<mapsto> BundleRefresh),
      r_nextTimer := Suc (r_nextTimer r1), r_bundleTimer := Some (r_nextTimer r1)\<rparr>)"
proof -
  note ok = relay_sys.reachable_inv [OF assms(1)]
  have cat: "catalog ra = r_catalog r" using ok assms(3) by (simp add: relay_ok_def)
  have id_now: "receiptFor ra = show_nat (unat (epoch (catalog ra)))" using assms(4) cat by simp
  obtain ra' where ra': "cogReceipt unmarshal payload ra = Ret ra'" "catalog ra' = (r_catalog r)\<lparr>lastAcked := epoch (r_catalog r)\<rparr>"
    using receipt_catalog [where unmarshal = unmarshal and payload = payload, OF assms(6,7) id_now assms(5)] unfolding cat by blast
  let ?r1 = "r\<lparr>r_announcer := Some ra', r_catalog := catalog ra'\<rparr>"
  have step: "relay_step os r ?r1"
    by (rule rs_announcer [OF assms(3)]) (use step_receipt [of ra unmarshal payload] ra' cat in simp_all)
  have r1: "relay_ok ?r1" "\<not> IsChanged (r_catalog ?r1)" "installed (r_catalog ?r1) = installed (r_catalog r)"
    using relay_step_ok [OF step ok] ra'(2) by (simp_all add: IsChanged_def installed_def)
  have "updateCatalog os re envelope ?r1 = start_bundle_timer re ?r1"
    by (rule updateCatalog_same [OF r1(1) assms(2) r1(2) assms(8)]) (use r1(3) assms(9) in simp)
  with step ra' r1(2) assms(10) show ?thesis by (simp add: start_bundle_timer_def after_func_def)
qed

text \<open>The sample relay with the identifier of the announcer's sample run, after its first announcement.\<close>

definition run_config :: Config where
  "run_config = sample_config\<lparr>ID := ''r''\<rparr>"

definition announced_relay :: "(unit, unit) cogRelay" where
  "announced_relay = (online_relay run_config)\<lparr>r_announcer := Some (armTimer (run_sent\<lparr>loopPC := LoopTest\<rparr>))\<rparr>"

lemma relay_follows_announcer:
  assumes "reachable relay_init (relay_step os) (r\<lparr>r_announcer := Some ra\<rparr>)" and "announcer_step (Ret ra) (Ret ra')"
    and "catalog ra' = r_catalog r" and "catalog ra = r_catalog r"
  shows "reachable relay_init (relay_step os) (r\<lparr>r_announcer := Some ra'\<rparr>)"
proof (rule reachable_step [OF assms(1)])
  have "relay_step os (r\<lparr>r_announcer := Some ra\<rparr>) ((r\<lparr>r_announcer := Some ra\<rparr>)\<lparr>r_announcer := Some ra', r_catalog := catalog ra'\<rparr>)"
    by (rule rs_announcer [OF _ assms(2)]) (use assms in simp_all)
  then show "relay_step os (r\<lparr>r_announcer := Some ra\<rparr>) (r\<lparr>r_announcer := Some ra'\<rparr>)" using assms(3) by simp
qed

lemma run_config_simps [simp]:
  "\<not> ManagedDynamicConfig run_config" "MaxConcurrent run_config = 2" "ID run_config = ''r''"
  "RefreshDuration (re_parseDuration sample_env) run_config = Ret 60"
  by (simp_all add: run_config_def RefreshDuration_def sample_config_def sample_env_def native_config_def zero_config_def)

lemma announced_reachable: "reachable relay_init (relay_step os) announced_relay"
proof -
  let ?r = "online_relay run_config"
  have cat: "r_catalog ?r = NewCatalog" by (simp add: online_relay_def new_relay_def)
  note defs = run_start_def run_sent_def NewAnnouncer_def armTimer_def send_control_def loop_receive_def announcementSent_def
    prepareAnnouncement_def getBundles_def NewBundleAnnouncementExtended_def CurrentEpoch_def Let_def
  have start: "?r = ?r\<lparr>r_announcer := Some run_start\<rparr>" by (simp add: online_relay_def run_start_def)
  have "reachable relay_init (relay_step os) (?r\<lparr>r_announcer := Some run_start\<rparr>)"
    using online_reachable [of run_config os] start by simp
  then have "reachable relay_init (relay_step os) (?r\<lparr>r_announcer := Some (run_start\<lparr>loopPC := LoopReceive\<rparr>)\<rparr>)"
    by (rule relay_follows_announcer) (use step_test [of run_start] in \<open>simp_all add: cat defs\<close>)
  then have "reachable relay_init (relay_step os) (?r\<lparr>r_announcer := Some (run_start\<lparr>loopPC := LoopReceive, control := [AnnounceCommand]\<rparr>)\<rparr>)"
    by (rule relay_follows_announcer) (use step_control [of AnnounceCommand "run_start\<lparr>loopPC := LoopReceive\<rparr>"] in \<open>simp_all add: cat defs\<close>)
  then have "reachable relay_init (relay_step os) (?r\<lparr>r_announcer := Some (run_start\<lparr>loopPC := LoopSend SendLock\<rparr>)\<rparr>)"
    by (rule relay_follows_announcer) (use step_receive [of "run_start\<lparr>loopPC := LoopReceive, control := [AnnounceCommand]\<rparr>"] in \<open>simp_all add: cat defs\<close>)
  then have "reachable relay_init (relay_step os) (?r\<lparr>r_announcer := Some run_sent\<rparr>)"
    by (rule relay_follows_announcer)
      (use step_send [of "run_start\<lparr>loopPC := LoopSend SendLock\<rparr>" "[]"] in \<open>simp_all add: cat defs range_order_def NewCatalog_def\<close>)
  then have "reachable relay_init (relay_step os) (?r\<lparr>r_announcer := Some (armTimer (run_sent\<lparr>loopPC := LoopTest\<rparr>))\<rparr>)"
    by (rule relay_follows_announcer) (use step_arm [of run_sent] in \<open>simp_all add: cat defs\<close>)
  then show ?thesis by (simp add: announced_relay_def)
qed

theorem acknowledged_catalog_is_quiet_witness:
  "\<exists>ra ra' r1. r_announcer announced_relay = Some ra \<and> cogReceipt decode_receipt_0 [] ra = Ret ra' \<and>
     relay_step sample_outside announced_relay r1 \<and> \<not> IsChanged (r_catalog r1) \<and>
     (\<exists>r2. updateCatalog sample_outside sample_env \<lparr>resp_Bundles = []\<rparr> r1 = Done r2 \<and> r_catalog r2 = r_catalog r1)"
proof -
  let ?ra = "armTimer (run_sent\<lparr>loopPC := LoopTest\<rparr>)"
  have ra: "r_announcer announced_relay = Some ?ra" "r_catalog announced_relay = NewCatalog" "r_config announced_relay = run_config"
    by (simp_all add: announced_relay_def online_relay_def new_relay_def)
  have rcpt: "decode_receipt_0 [] = Inr \<lparr>rcpt_ID = ''0'', rcpt_Status = ''success'', rcpt_Bundles = GNil\<rparr>" by (simp add: decode_receipt_0_def)
  have "\<exists>ra' r1. cogReceipt decode_receipt_0 [] ?ra = Ret ra' \<and> r1 = announced_relay\<lparr>r_announcer := Some ra', r_catalog := catalog ra'\<rparr> \<and>
    relay_step sample_outside announced_relay r1 \<and> \<not> IsChanged (r_catalog r1) \<and> bundles (r_catalog r1) = bundles (r_catalog announced_relay) \<and>
    updateCatalog sample_outside sample_env \<lparr>resp_Bundles = []\<rparr> r1 = Done (r1\<lparr>r_timers := (r_timers r1)(r_nextTimer r1 \<mapsto> BundleRefresh),
      r_nextTimer := Suc (r_nextTimer r1), r_bundleTimer := Some (r_nextTimer r1)\<rparr>)"
    by (rule acknowledged_catalog_is_quiet [where unmarshal = decode_receipt_0 and payload = "[]" and d = 60, OF announced_reachable sample_env_ok ra(1) _ _ rcpt])
      (auto simp: ra armTimer_def run_sent_def NewCatalog_def installed_def versions_of_def)
  with ra(1) show ?thesis by auto
qed

subsection \<open>Commands from arrival to answer\<close>

text \<open>Commands that arrive one after the other, and the workers' turns at the queue, each with its decoder.\<close>

fun commands_arrive :: "(string \<times> string) list \<Rightarrow> ('c, 'w) cogRelay \<Rightarrow> ('c, 'w) cogRelay outcome" where
  "commands_arrive [] r = Done r"
| "commands_arrive ((topic, message) # ms) r = out_bind (handleCommand topic message r) (commands_arrive ms)"

fun workers_take :: "('c, 'w) outside \<Rightarrow> (exec_inputs \<times> decoder) list \<Rightarrow> ('c, 'w) cogRelay \<Rightarrow> ('c, 'w) cogRelay go_result" where
  "workers_take os [] r = Ret r"
| "workers_take os ((ins, d) # ts) r =
     (case r_queue r of
        [] \<Rightarrow> Ret r
      | invoke # q \<Rightarrow>
          go_bind (executeCommand os ins invoke (d, worker_view r)) (\<lambda>(d', ww).
            workers_take os ts (r\<lparr>r_queue := q, r_world := ww_engines ww, r_sent := ww_published ww\<rparr>)))"

text \<open>The topics the answers go to: one for each payload its worker's decoder can decode.\<close>

fun reply_topics :: "((exec_inputs \<times> decoder) \<times> string) list \<Rightarrow> string list" where
  "reply_topics [] = []"
| "reply_topics (((ins, d), message) # ts) =
     (case fst (Decode (in_scan ins) message d) of
        Inl err \<Rightarrow> reply_topics ts
      | Inr raw \<Rightarrow> ReplyTo raw # reply_topics ts)"

definition invocation :: "Config \<Rightarrow> string \<times> string \<Rightarrow> CommandInvocation" where
  "invocation config m = \<lparr>ci_RelayConfig = config, ci_Engines = config, Topic = fst m, Payload = snd m, Shutdown = False\<rparr>"

lemma Payload_invocation [simp]: "Payload (invocation config m) = snd m" "Payload \<circ> invocation config = snd"
  by (simp_all add: invocation_def comp_def)

lemma commands_arrive_queue:
  "length (r_queue r) + length ms \<le> nat (MaxConcurrent (r_config r)) \<Longrightarrow>
   commands_arrive ms r = Done (r\<lparr>r_queue := r_queue r @ map (invocation (r_config r)) ms\<rparr>)"
proof (induction ms arbitrary: r)
  case (Cons m ms)
  then have "handleCommand (fst m) (snd m) r = Done (r\<lparr>r_queue := r_queue r @ [invocation (r_config r) m]\<rparr>)"
    by (simp add: handleCommand_def invocation_def)
  moreover have "commands_arrive ms (r\<lparr>r_queue := r_queue r @ [invocation (r_config r) m]\<rparr>) =
      Done (r\<lparr>r_queue := r_queue r @ map (invocation (r_config r)) (m # ms)\<rparr>)"
    using Cons.IH [of "r\<lparr>r_queue := r_queue r @ [invocation (r_config r) m]\<rparr>"] Cons.prems by simp
  ultimately show ?case by (cases m) simp
qed simp

lemma workers_take_answers:
  "workers_take os ts r = Ret r' \<Longrightarrow> length ts = length (r_queue r) \<Longrightarrow>
   r_queue r' = [] \<and> r_catalog r' = r_catalog r \<and>
   (\<exists>msgs. r_sent r' = r_sent r @ msgs \<and> map fst msgs = reply_topics (zip ts (map Payload (r_queue r))))"
proof (induction ts arbitrary: r)
  case (Cons t ts)
  obtain ins d where t: "t = (ins, d)" by fastforce
  from Cons.prems(2) obtain invoke q where q: "r_queue r = invoke # q" by (cases "r_queue r") auto
  from Cons.prems(1) t q obtain d' ww where run: "executeCommand os ins invoke (d, worker_view r) = Ret (d', ww)"
    and rest: "workers_take os ts (r\<lparr>r_queue := q, r_world := ww_engines ww, r_sent := ww_published ww\<rparr>) = Ret r'" by auto
  obtain msgs where msgs: "ww_published ww = r_sent r @ msgs"
    "map fst msgs = (case fst (Decode (in_scan ins) (Payload invoke) d) of Inl err \<Rightarrow> [] | Inr raw \<Rightarrow> [ReplyTo raw])"
    using run by (auto simp: executeCommand_Ret worker_view_def Parse_ReplyTo)
  from Cons.IH [OF rest] Cons.prems(2) q obtain msgs' where
    "r_queue r' = [] \<and> r_catalog r' = r_catalog r" "r_sent r' = r_sent r @ msgs @ msgs'" "map fst msgs' = reply_topics (zip ts (map Payload q))"
    using msgs(1) by auto
  with msgs(2) t q show ?case by (auto split: sum.splits intro!: exI [of _ "msgs @ msgs'"])
qed simp

lemma workers_take_steps: "workers_take os ts r = Ret r' \<Longrightarrow> (relay_step os)\<^sup>*\<^sup>* r r'"
proof (induction ts arbitrary: r)
  case (Cons t ts)
  obtain ins d where t: "t = (ins, d)" by fastforce
  show ?case
  proof (cases "r_queue r")
    case (Cons invoke q)
    with Cons.prems t obtain d' ww where run: "executeCommand os ins invoke (d, worker_view r) = Ret (d', ww)"
      and rest: "workers_take os ts (r\<lparr>r_queue := q, r_world := ww_engines ww, r_sent := ww_published ww\<rparr>) = Ret r'" by auto
    from rs_worker [OF Cons run] Cons.IH [OF rest] show ?thesis by (rule converse_rtranclp_into_rtranclp)
  qed (use Cons.prems t in simp)
qed simp



end
