(* ===== verification/Relay_Main.thy ===== *)
theory Relay_Main
  imports Relay_System
begin

text \<open>
  The program, \<^verbatim>\<open>main.go\<close>: the version flags, the logger, finding and parsing the
  configuration, starting the relay, and the signals. The command line, the file system and
  the process environment are parameters; a flag the flag package rejects is the absence of
  parsed flags.
\<close>

section \<open>The model\<close>

definition BAD_CONFIG :: nat where
  "BAD_CONFIG = 1"

record flags =
  configFile :: string
  cpuprofile :: string
  memprofile :: string
  devMode :: bool

record process_env =
  pe_args :: "string list"
  pe_flags :: "flags option"
  pe_buildstamp :: string
  pe_buildhash :: string
  pe_buildtag :: string
  pe_commanddrivertag :: string
  pe_stat :: "string \<Rightarrow> error option"
  pe_readFile :: "string \<Rightarrow> error + string"
  pe_openLog :: "string \<Rightarrow> error option"
  pe_create :: "string \<Rightarrow> error option"
  pe_getenv :: "string \<Rightarrow> string"
  pe_yaml :: "string \<Rightarrow> error + Config"
  pe_validate :: "Config \<Rightarrow> error option"
  pe_validateDocker :: "(string \<Rightarrow> bool) \<Rightarrow> DockerInfo \<Rightarrow> error option"

text \<open>How far the process has come: it runs, it has exited with a status and a last message, or it has panicked.\<close>

datatype 'a process =
    Running 'a
  | Exited nat string
  | Crashed string

fun proc_bind :: "'a process \<Rightarrow> ('a \<Rightarrow> 'b process) \<Rightarrow> 'b process" where
  "proc_bind (Running x) f = f x"
| "proc_bind (Exited n m) f = Exited n m"
| "proc_bind (Crashed p) f = Crashed p"

definition configLocations :: "string list" where
  "configLocations = [''/etc/relay.conf'', ''/usr/local/etc/relay.conf'']"

fun displayVersionInfo :: "process_env \<Rightarrow> string list \<Rightarrow> string option" where
  "displayVersionInfo pe [] = None"
| "displayVersionInfo pe (arg # args) =
     (if arg = ''-v'' \<or> arg = ''--version'' \<or> arg = ''-version''
      then let buildtag = (if pe_buildtag pe = [] then ''<None>'' else pe_buildtag pe)
           in Some (''Git commit: '' @ pe_buildhash pe @ ''\<newline>Git tag: '' @ buildtag @
                ''\<newline>Build timestamp: '' @ pe_buildstamp pe @ '' UTC\<newline>'')
      else displayVersionInfo pe args)"

datatype log_format = TextFormat | JSONFormat

datatype log_output = Log_Stderr | Log_Stdout | Log_File string

datatype log_level = DebugLevel | InfoLevel | WarnLevel | ErrorLevel

record logger =
  lg_format :: log_format
  lg_output :: log_output
  lg_level :: log_level

definition default_logger :: logger where
  "default_logger = \<lparr>lg_format = TextFormat, lg_output = Log_Stderr, lg_level = InfoLevel\<rparr>"

definition configureLogger :: "(string \<Rightarrow> error option) \<Rightarrow> Config \<Rightarrow> logger \<Rightarrow> logger go_result" where
  "configureLogger openLog config lg =
     (let lg1 = (if LogJSON config then lg\<lparr>lg_format := JSONFormat\<rparr> else lg)
      in go_bind
           (if LogPath config = ''stderr'' then Ret (lg1\<lparr>lg_output := Log_Stderr\<rparr>)
            else if LogPath config = ''console'' \<or> LogPath config = ''stdout'' then Ret (lg1\<lparr>lg_output := Log_Stdout\<rparr>)
            else case openLog (LogPath config) of
              Some err \<Rightarrow> Panic err
            | None \<Rightarrow> Ret (lg1\<lparr>lg_output := Log_File (LogPath config)\<rparr>))
           (\<lambda>lg2. Ret (lg2\<lparr>lg_level :=
              (if LogLevel config = ''debug'' then DebugLevel
               else if LogLevel config = ''info'' then InfoLevel
               else if LogLevel config = ''warn'' then WarnLevel
               else if LogLevel config = ''err'' \<or> LogLevel config = ''error'' then ErrorLevel
               else InfoLevel)\<rparr>)))"

text \<open>The first file that loads; an empty configuration when none does.\<close>

fun tryLoadingConfig :: "(string \<Rightarrow> error option) \<Rightarrow> (string \<Rightarrow> error + string) \<Rightarrow> string list \<Rightarrow> string" where
  "tryLoadingConfig stat readFile [] = []"
| "tryLoadingConfig stat readFile (location # locations) =
     (case LoadConfig stat readFile location of
        Inl err \<Rightarrow> tryLoadingConfig stat readFile locations
      | Inr rawConfig \<Rightarrow> rawConfig)"

text \<open>The message for a configuration error: its parts, one on a line.\<close>

fun error_lines :: "string list \<Rightarrow> string" where
  "error_lines [] = []"
| "error_lines [msg] = ''  '' @ msg"
| "error_lines (msg # msgs) = ''  '' @ msg @ ''\<newline>'' @ error_lines msgs"

definition config_error :: "error \<Rightarrow> string" where
  "config_error err =
     ''Error configuring Relay:\<newline>'' @ error_lines (filter (\<lambda>msg. msg \<noteq> []) (split_on (CHR '';'') err))"

definition prepare :: "process_env \<Rightarrow> (flags \<times> Config \<times> logger) process" where
  "prepare pe =
     (case pe_flags pe of
        None \<Rightarrow> Exited 2 []
      | Some fl \<Rightarrow>
          let locations = (if configFile fl \<noteq> [] then [configFile fl] else configLocations);
              rawConfig = tryLoadingConfig (pe_stat pe) (pe_readFile pe) locations
          in case RawConfig_Parse (pe_yaml pe) (pe_getenv pe) (pe_validate pe) (pe_validateDocker pe) (pe_commanddrivertag pe) rawConfig of
               Panic p \<Rightarrow> Crashed p
             | Ret (c, Some err) \<Rightarrow> Exited BAD_CONFIG (config_error err)
             | Ret (None, None) \<Rightarrow> Crashed ''nil configuration''
             | Ret (Some c, None) \<Rightarrow>
                 let relayConfig = c\<lparr>DevMode := devMode fl\<rparr>
                 in case configureLogger (pe_openLog pe) relayConfig default_logger of
                      Panic p \<Rightarrow> Crashed p
                    | Ret lg \<Rightarrow> Running (fl, relayConfig, lg))"

text \<open>The profile files: a file that cannot be made is fatal.\<close>

definition make_profile :: "process_env \<Rightarrow> string \<Rightarrow> 'a \<Rightarrow> 'a process" where
  "make_profile pe path x =
     (if path \<noteq> [] then (case pe_create pe path of Some err \<Rightarrow> Exited 1 err | None \<Rightarrow> Running x) else Running x)"

text \<open>
  \<^verbatim>\<open>main\<close> up to the point where it waits for a signal. The result has the state of the relay,
  which is blocked as long as no attempt to connect succeeds.
\<close>

definition main_start ::
    "process_env \<Rightarrow> ('c, 'w) outside \<Rightarrow> relay_env \<Rightarrow> 'w \<Rightarrow> (Config \<times> logger \<times> ('c, 'w) cogRelay outcome) process" where
  "main_start pe os re w =
     (case displayVersionInfo pe (pe_args pe) of
        Some text \<Rightarrow> Exited 0 text
      | None \<Rightarrow>
          proc_bind (prepare pe) (\<lambda>(fl, relayConfig, lg).
          proc_bind (make_profile pe (cpuprofile fl) ()) (\<lambda>_.
          proc_bind (make_profile pe (memprofile fl) ()) (\<lambda>_.
            case Verify relayConfig of
              Inl err \<Rightarrow> Exited BAD_CONFIG err
            | Inr relayConfig' \<Rightarrow>
                (case NewRelay relayConfig' w of
                   Died p \<Rightarrow> Crashed p
                 | Blocked r \<Rightarrow> Running (relayConfig', lg, Blocked r)
                 | Done r \<Rightarrow>
                     (case Start os re r of
                        (Some err, res) \<Rightarrow> Exited 1 err
                      | (None, Died p) \<Rightarrow> Crashed p
                      | (None, res) \<Rightarrow> Running (relayConfig', lg, res)))))))"

text \<open>The signals: a hang-up reopens the log, the first interrupt stops the relay and ends the program.\<close>

datatype os_signal = SIGHUP | SIGINT

fun main_wait :: "process_env \<Rightarrow> os_signal list \<Rightarrow> Config \<times> logger \<times> ('c, 'w) cogRelay \<Rightarrow> (Config \<times> logger \<times> ('c, 'w) cogRelay outcome) process" where
  "main_wait pe [] (c, lg, r) = Running (c, lg, Done r)"
| "main_wait pe (SIGHUP # sigs) (c, lg, r) =
     (case configureLogger (pe_openLog pe) c lg of
        Panic p \<Rightarrow> Crashed p
      | Ret lg' \<Rightarrow> main_wait pe sigs (c, lg', r))"
| "main_wait pe (SIGINT # sigs) (c, lg, r) =
     (case Stop r of
        Died p \<Rightarrow> Crashed p
      | Blocked r' \<Rightarrow> Running (c, lg, Blocked r')
      | Done r' \<Rightarrow> Exited 0 (''Relay '' @ ID c @ '' shut down complete.''))"

section \<open>Laws\<close>

subsection \<open>The configuration stays\<close>

lemma start_docker_frame:
  "start_docker os r = Ret (err, r') \<Longrightarrow> \<exists>w eng. r' = r\<lparr>r_world := w, r_dockerEngine := eng\<rparr>"
proof (elim start_docker_cases)
  have same: "r = r\<lparr>r_world := r_world r, r_dockerEngine := r_dockerEngine r\<rparr>"
    "r\<lparr>r_world := w\<rparr> = r\<lparr>r_world := w, r_dockerEngine := r_dockerEngine r\<rparr>" for w by simp_all
  then show "r' = r \<Longrightarrow> ?thesis" and "r' = r\<lparr>r_world := w\<rparr> \<Longrightarrow> ?thesis" for w by metis+
qed blast

lemma handle_events_config: "out_state (handle_events re conn es r) = Some r' \<Longrightarrow> r_config r' = r_config r"
proof (induction es arbitrary: r)
  case (Cons e es)
  then consider "handleBusEvents re conn e r = Blocked r'"
    | x where "handleBusEvents re conn e r = Done x" "out_state (handle_events re conn es x) = Some r'"
    by (auto simp: out_state_bind)
  then show ?case
  proof cases
    case 1
    then show ?thesis using handleBusEvents_frame [of re conn e r r'] by simp
  next
    case 2
    then show ?thesis using handleBusEvents_frame [of re conn e r x] Cons.IH [of x] by simp
  qed
qed simp

text \<open>The stages of \<^verbatim>\<open>Start\<close>.\<close>

lemma Start_finish:
  assumes "out_state (out_bind (if DockerEnabled (r_config x) then start_clean_timer re x else Done x)
     (\<lambda>r4. case RefreshDuration (re_parseDuration re) (r_config r4) of Panic p \<Rightarrow> Died p | Ret d \<Rightarrow> Done r4)) = Some r'"
  shows "r' = x \<or> DockerEnabled (r_config x) \<and> out_state (start_clean_timer re x) = Some r'"
proof -
  have keep: "out_state (case d of Panic p \<Rightarrow> Died p | Ret d \<Rightarrow> Done y) = Some r' \<Longrightarrow> r' = y" for d :: "int go_result" and y
    by (cases d) simp_all
  from assms have "out_state (if DockerEnabled (r_config x) then start_clean_timer re x else Done x) = Some r'"
    unfolding out_state_bind by (auto dest: keep)
  then show ?thesis by (auto split: if_splits)
qed

lemma Start_cases:
  assumes "Start os re r = (None, res)" and "out_state res = Some r'"
  obtains r1 opts r2 conn es x where "start_docker os r = Ret (None, r1)" "announcer_options re (r_config r1) = Ret opts"
    "r2 = r1\<lparr>r_connOpts := Some opts, r_workers := nat (MaxConcurrent (r_config r1))\<rparr>"
    "x = r2 \<or> out_state (handle_events re conn es r2) = Some x"
    "r' = x \<or> DockerEnabled (r_config x) \<and> out_state (start_clean_timer re x) = Some r'"
proof -
  from assms obtain r1 where r1: "start_docker os r = Ret (None, r1)"
    by (cases "start_docker os r") (auto simp: Start_def split: option.splits prod.splits)
  from assms r1 obtain opts where opts: "announcer_options re (r_config r1) = Ret opts"
    by (cases "announcer_options re (r_config r1)") (auto simp: Start_def)
  let ?r2 = "r1\<lparr>r_connOpts := Some opts, r_workers := nat (MaxConcurrent (r_config r1))\<rparr>"
  let ?k = "\<lambda>r3. out_bind (if DockerEnabled (r_config r3) then start_clean_timer re r3 else Done r3)
     (\<lambda>r4. case RefreshDuration (re_parseDuration re) (r_config r4) of Panic p \<Rightarrow> Died p | Ret d \<Rightarrow> Done r4)"
  from assms r1 opts consider "res = Blocked ?r2" | conn es where "res = out_bind (handle_events re conn es ?r2) ?k"
    by (auto simp: Start_def Let_def split: option.splits go_result.splits)
  then show thesis
  proof cases
    case 1
    with assms(2) have "r' = ?r2" by simp
    then show thesis using that [OF r1 opts refl, of ?r2] by simp
  next
    case (2 conn es)
    with assms(2) consider "handle_events re conn es ?r2 = Blocked r'"
      | x where "handle_events re conn es ?r2 = Done x" "out_state (?k x) = Some r'"
      by (auto simp only: out_state_bind)
    then show thesis
    proof cases
      case 1
      then have "out_state (handle_events re conn es ?r2) = Some r'" by (simp only: out_state.simps)
      then show thesis using that [OF r1 opts refl, of r' conn es] by simp
    next
      case (2 x)
      then have "out_state (handle_events re conn es ?r2) = Some x" by (simp only: out_state.simps)
      then show thesis using that [OF r1 opts refl, of x conn es] Start_finish [OF 2(2)] by simp
    qed
  qed
qed

lemma Start_config:
  assumes "Start os re r = (None, res)" and "out_state res = Some r'"
  shows "r_config r' = r_config r"
proof -
  obtain r1 opts r2 conn es x where s: "start_docker os r = Ret (None, r1)" "announcer_options re (r_config r1) = Ret opts"
    "r2 = r1\<lparr>r_connOpts := Some opts, r_workers := nat (MaxConcurrent (r_config r1))\<rparr>"
    "x = r2 \<or> out_state (handle_events re conn es r2) = Some x"
    "r' = x \<or> DockerEnabled (r_config x) \<and> out_state (start_clean_timer re x) = Some r'"
    using assms by (rule Start_cases)
  have "r_config r1 = r_config r" using start_docker_frame [OF s(1)] by auto
  moreover have "r_config x = r_config r2" using s(4) handle_events_config by blast
  moreover have "r_config r' = r_config x" using s(5) start_clean_timer_frame by blast
  ultimately show ?thesis using s(3) by simp
qed

lemma handle_events_steps:
  "out_state (handle_events re conn es r) = Some r' \<Longrightarrow> env_ok re \<Longrightarrow> (handler_step os)\<^sup>*\<^sup>* r r'"
proof (induction es arbitrary: r)
  case (Cons e es)
  then consider "handleBusEvents re conn e r = Blocked r'"
    | x where "handleBusEvents re conn e r = Done x" "out_state (handle_events re conn es x) = Some r'"
    by (auto simp: out_state_bind)
  then show ?case
  proof cases
    case 1
    then show ?thesis using hs_event [OF Cons.prems(2), of conn e r r' os] by auto
  next
    case (2 x)
    then have "handler_step os r x" using hs_event [OF Cons.prems(2), of conn e r x os] by simp
    with Cons.IH [OF 2(2) Cons.prems(2)] show ?thesis by (simp add: converse_rtranclp_into_rtranclp)
  qed
qed simp

text \<open>A start is a run of the relay's handlers.\<close>

lemma Start_steps:
  assumes "Start os re r = (None, res)" and "out_state res = Some r'" and "env_ok re"
  shows "(handler_step os)\<^sup>*\<^sup>* r r'"
proof -
  obtain r1 opts r2 conn es x where s: "start_docker os r = Ret (None, r1)" "announcer_options re (r_config r1) = Ret opts"
    "r2 = r1\<lparr>r_connOpts := Some opts, r_workers := nat (MaxConcurrent (r_config r1))\<rparr>"
    "x = r2 \<or> out_state (handle_events re conn es r2) = Some x"
    "r' = x \<or> DockerEnabled (r_config x) \<and> out_state (start_clean_timer re x) = Some r'"
    using assms(1,2) by (rule Start_cases)
  have "(handler_step os)\<^sup>*\<^sup>* r r1" by (rule r_into_rtranclp) (rule hs_docker [OF s(1)])
  also have "handler_step os r1 r2" unfolding s(3) by (rule hs_options [OF s(2)])
  also have "(handler_step os)\<^sup>*\<^sup>* r2 x" using s(4) handle_events_steps [OF _ assms(3)] by blast
  also have "(handler_step os)\<^sup>*\<^sup>* x r'" using s(5) hs_clean_timer by blast
  finally show ?thesis by simp
qed

lemma handler_steps_reachable:
  "reachable relay_init (relay_step os) r \<Longrightarrow> (handler_step os)\<^sup>*\<^sup>* r r' \<Longrightarrow> reachable relay_init (relay_step os) r'"
  by (rule reachable_steps, assumption, erule rtranclp_mono [THEN predicate2D, rotated]) (auto intro: rs_handler)

subsection \<open>Connecting\<close>

lemma configureSSL_usable:
  assumes "co_SSLEnabled options \<Longrightarrow> co_SSLCertPath options \<noteq> [] \<Longrightarrow> \<exists>buf. readFile (co_SSLCertPath options) = Inr buf \<and> parsePEM buf"
  obtains tls where "configureSSL readFile parsePEM options mo = Inr (mo\<lparr>mo_TLS := tls\<rparr>)"
proof (cases "co_SSLEnabled options \<and> co_SSLCertPath options \<noteq> []")
  case True
  with assms obtain buf where "readFile (co_SSLCertPath options) = Inr buf" "parsePEM buf" by blast
  with True that [of "Root_CAs buf"] show ?thesis by (simp add: configureSSL_def)
next
  case False
  with that [of Skip_Verify] that [of "mo_TLS mo"] show ?thesis by (cases "co_SSLEnabled options") (simp_all add: configureSSL_def)
qed

text \<open>A usable bus: the certificate can be read, and an attempt within the fuel succeeds.\<close>

definition bus_usable :: "bus_env \<Rightarrow> CogInfo \<Rightarrow> bool" where
  "bus_usable be cog \<longleftrightarrow>
     (SSLEnabled cog \<and> SSLCertPath cog \<noteq> [] \<longrightarrow> (\<exists>buf. be_readFile be (SSLCertPath cog) = Inr buf \<and> be_parsePEM be buf)) \<and>
     (\<exists>m < be_fuel be. be_attempt be m = None)"

lemma first_success:
  fixes k :: nat
  assumes "attempt k = None" and "k < fuel"
  obtains m where "m < fuel" "attempt m = (None :: error option)" "\<forall>i < m. attempt i \<noteq> None"
proof
  let ?m = "LEAST i. attempt i = None"
  have "?m \<le> k" using assms(1) by (rule Least_le)
  with assms(2) show "?m < fuel" by simp
  show "attempt ?m = None" using assms(1) by (rule LeastI)
  show "\<forall>i < ?m. attempt i \<noteq> None" using not_less_Least by blast
qed

lemma bus_Connect_usable:
  assumes "bus_usable be cog" and "co_SSLEnabled opts = SSLEnabled cog" and "co_SSLCertPath opts = SSLCertPath cog"
  obtains conn slept mo where "bus_Connect be opts =
      Some (Ret (None, conn, slept, if EventsHandler opts \<and> \<not> AutoReconnect opts then [ConnectedEvent] else []))"
    and "mqc_conn conn = Some mo" and "\<And>t b. OnDisconnect opts = Some \<lparr>dm_Topic = t, dm_Body = b\<rparr> \<Longrightarrow> mo_Will mo = Some (t, be_snappy be b)"
proof -
  have cert: "\<exists>buf. be_readFile be (co_SSLCertPath opts) = Inr buf \<and> be_parsePEM be buf"
    if "co_SSLEnabled opts" "co_SSLCertPath opts \<noteq> []" using assms that by (auto simp: bus_usable_def)
  obtain tls where tls: "configureSSL (be_readFile be) (be_parsePEM be) opts (buildMQTTOptions (be_clientID be) opts) =
      Inr ((buildMQTTOptions (be_clientID be) opts)\<lparr>mo_TLS := tls\<rparr>)"
    using configureSSL_usable [of opts "be_readFile be" "be_parsePEM be" "buildMQTTOptions (be_clientID be) opts"] cert by blast
  obtain m where m: "m < be_fuel be" "be_attempt be m = None" "\<forall>i < m. be_attempt be i \<noteq> None"
    using assms(1) first_success unfolding bus_usable_def by blast
  obtain slept where loop: "connect_loop (be_fuel be) (be_attempt be) (be_jitter be) 0 (NewBackoff, []) = Some (Ret (m, \<lparr>interval = 0\<rparr>, slept))"
    using connect_loop_returns [of m "be_attempt be" 0 NewBackoff "be_fuel be" "be_jitter be" "[]"] m
    by (simp add: backoff_ok_def NewBackoff_def)
  show ?thesis
    by (rule that) (auto simp: bus_Connect_def Connect_def tls loop Let_def)
qed

lemma dcu_Run_usable:
  assumes "bus_usable be cog" and "co_SSLEnabled (dcu_options dcu) = SSLEnabled cog" and "co_SSLCertPath (dcu_options dcu) = SSLCertPath cog"
    and "be_subscribe be (configTopic dcu) = None" and "\<And>t p. be_publish be t p = None"
  obtains dcu' msgs where "dcu_Run be marshal Before_Refresh dcu = Some (Ret (None, dcu', msgs))"
    and "refreshTimer dcu' = Some True" and "dcu_conn dcu' \<noteq> None"
proof -
  let ?o = "(dcu_options dcu)\<lparr>AutoReconnect := True, EventsHandler := True\<rparr>"
  have ssl: "co_SSLEnabled ?o = SSLEnabled cog" "co_SSLCertPath ?o = SSLCertPath cog" using assms(2,3) by simp_all
  obtain conn slept where "bus_Connect be ?o = Some (Ret (None, conn, slept, []))"
    by (rule bus_Connect_usable [OF assms(1) ssl]) simp
  then show ?thesis using assms(4,5) that
    by (simp add: dcu_Run_def Let_def dcu_handleBusEvents_def refreshConfigs_def bus_Publish_def Publish_def)
qed

text \<open>The first connection's event, on a relay that has no announcer yet.\<close>

lemma first_event:
  assumes "r_announcer r = None" and "r_catalog r = NewCatalog" and "Cog (r_config r) = Some cog" and "bus_usable (re_bus re) cog"
    and "\<And>t. be_subscribe (re_bus re) t = None" and "\<And>t p. be_publish (re_bus re) t p = None"
    and "ManagedDynamicConfig (r_config r) \<Longrightarrow> re_sched re = Before_Refresh \<and> (\<exists>d. re_parseDuration re (DynamicConfigInterval (r_config r)) = Inr d)"
  obtains r' where "handleBusEvents re conn ConnectedEvent r = Done r'" and "r_conn r' = Some conn"
    and "r_subs r' = [''bot/relays/'' @ ID (r_config r) @ ''/announcer'', directiveTopic (ID (r_config r)), commandTopic (ID (r_config r))]"
    and "(infoTopic, re_marshal_list re \<lparr>lb_RelayID = ID (r_config r), lb_ReplyTo = directivesReplyTo r\<rparr>) \<in> set (r_sent r')"
    and "r_config r' = r_config r" and "r_workers r' = r_workers r"
    and "ManagedDynamicConfig (r_config r) \<Longrightarrow> \<exists>u. r_dynConfigUpdater r' = Some u \<and> refreshTimer u = Some True \<and> dcu_conn u \<noteq> None"
proof -
  let ?c = "r_config r" and ?be = "re_bus re"
  let ?ra = "(NewAnnouncer (ID ?c) NewCatalog)\<lparr>state := WaitingState, loopPC := LoopTest\<rparr>"
  let ?r1 = "r\<lparr>r_conn := Some conn, r_subs := [], r_announcer := Some ?ra, r_subs := [receiptTopic ?ra]\<rparr>"
  obtain dcu msgs where up: "(if ManagedDynamicConfig ?c then start_updater re ?r1 else Done ?r1) =
      Done (?r1\<lparr>r_dynConfigUpdater := dcu, r_sent := r_sent r @ msgs\<rparr>)"
    and u: "ManagedDynamicConfig ?c \<Longrightarrow> \<exists>u. dcu = Some u \<and> refreshTimer u = Some True \<and> dcu_conn u \<noteq> None"
  proof (cases "ManagedDynamicConfig ?c")
    case True
    with assms(7) obtain d where d: "re_sched re = Before_Refresh" "re_parseDuration re (DynamicConfigInterval ?c) = Inr d" by blast
    from assms(3) obtain opts where opts: "makeConnOpts ?c = Ret opts" "co_SSLEnabled opts = SSLEnabled cog" "co_SSLCertPath opts = SSLCertPath cog"
      by (simp add: makeConnOpts_def)
    let ?dcu = "NewDynamicConfigUpdater (ID ?c) opts (DynamicConfigRoot ?c) d"
    obtain dcu' msgs where run: "dcu_Run ?be (re_marshal_get re) Before_Refresh ?dcu = Some (Ret (None, dcu', msgs))"
      "refreshTimer dcu' = Some True" "dcu_conn dcu' \<noteq> None"
      by (rule dcu_Run_usable [OF assms(4), where dcu = ?dcu and marshal = "re_marshal_get re"])
        (use opts assms(5,6) in \<open>auto simp: NewDynamicConfigUpdater_def\<close>)
    show ?thesis
      by (rule that [of msgs "Some dcu'"])
        (use True d opts(1) run in \<open>simp_all add: start_updater_def ManagedDynamicConfigRefreshDuration_def Let_def\<close>)
  next
    case False
    show ?thesis by (rule that [of "[]" "r_dynConfigUpdater r"]) (use False in simp_all)
  qed
  have "start_announcer re (r\<lparr>r_conn := Some conn, r_subs := []\<rparr>) = (if ManagedDynamicConfig ?c then start_updater re ?r1 else Done ?r1)"
    using assms(1,2,5) by (simp add: start_announcer_def Run_def SetSubscriptions_def Let_def NewAnnouncer_def)
  also note up
  finally show ?thesis using assms(1,2,5,6) u that
    by (simp add: handleBusEvents_def Let_def setSubscriptions_def relay_subscribe_def requestBundles_def bus_Publish_def Publish_def
      Len_def map_len_def NewCatalog_def NewAnnouncer_def)
qed

subsection \<open>The phases of the start\<close>

lemma proc_bind_Running: "proc_bind m f = Running y \<longleftrightarrow> (\<exists>x. m = Running x \<and> f x = Running y)"
  by (cases m) auto

lemma prepared:
  assumes "prepare pe = Running (fl, c, lg)"
  shows "\<exists>c0 raw. pe_flags pe = Some fl \<and> c = c0\<lparr>DevMode := devMode fl\<rparr> \<and>
    raw = tryLoadingConfig (pe_stat pe) (pe_readFile pe) (if configFile fl \<noteq> [] then [configFile fl] else configLocations) \<and>
    RawConfig_Parse (pe_yaml pe) (pe_getenv pe) (pe_validate pe) (pe_validateDocker pe) (pe_commanddrivertag pe) raw = Ret (Some c0, None) \<and>
    configureLogger (pe_openLog pe) (c0\<lparr>DevMode := devMode fl\<rparr>) default_logger = Ret lg"
  using assms by (auto simp: prepare_def Let_def split: option.splits go_result.splits if_splits)

lemma clean_steps_nonempty: "[] \<notin> set out \<Longrightarrow> [] \<notin> set (foldl (clean_step rooted) out es)"
proof (induction es arbitrary: out)
  case (Cons e es)
  have "[] \<notin> set (clean_step rooted out e)" using Cons.prems by (auto simp: clean_step_def dest: in_set_butlastD)
  with Cons.IH show ?case by simp
qed simp

lemma path_clean_nonempty: "path_clean s \<noteq> []"
proof -
  let ?out = "foldl (clean_step False) [] (split_on (CHR ''/'') s)"
  have "join_with (CHR ''/'') ?out \<noteq> []" if "?out \<noteq> []"
  proof -
    obtain x xs where out: "?out = x # xs" using \<open>?out \<noteq> []\<close> by (cases ?out) simp_all
    then have "x \<noteq> []" using clean_steps_nonempty [of "[]" False "split_on (CHR ''/'') s"] by auto
    with out show ?thesis by (cases xs) simp_all
  qed
  then show ?thesis by (cases "s \<noteq> [] \<and> hd s = CHR ''/''") (auto simp: path_clean_def Let_def)
qed

lemma Verified:
  assumes "Verify c = Inr c'"
  shows "(DockerEnabled c' \<or> NativeEnabled c') \<and> (ManagedDynamicConfig c' \<longrightarrow> DynamicConfigRoot c' \<noteq> [])"
proof -
  have "engineEnabled n (c\<lparr>DynamicConfigRoot := x\<rparr>) = engineEnabled n c" for n x by (simp add: engineEnabled_def)
  moreover have "path_join [DynamicConfigRoot c, ManagedDynamicConfigLink] \<noteq> []"
    by (simp add: ManagedDynamicConfigLink_def path_join_def path_clean_nonempty)
  ultimately show ?thesis using assms
    by (auto simp: Verify_def DockerEnabled_def NativeEnabled_def split: if_splits)
qed

lemma main_start_cases:
  fixes os :: "('a, 'b) outside"
  assumes "main_start pe os re w = Running (c, lg, res)"
  obtains fl c1 r0 where "displayVersionInfo pe (pe_args pe) = None" and "prepare pe = Running (fl, c1, lg)" and "Verify c1 = Inr c"
    and "NewRelay c w = Done r0" and "Start os re r0 = (None, res)"
proof -
  from assms obtain fl c1 lg1 where vers: "displayVersionInfo pe (pe_args pe) = None" and prep: "prepare pe = Running (fl, c1, lg1)"
    and rest: "(case Verify c1 of Inl err \<Rightarrow> Exited BAD_CONFIG err
      | Inr c' \<Rightarrow> (case NewRelay c' w of Died p \<Rightarrow> Crashed p | Blocked r \<Rightarrow> Running (c', lg1, Blocked r)
          | Done r \<Rightarrow> (case Start os re r of (Some err, res) \<Rightarrow> Exited 1 err | (None, Died p) \<Rightarrow> Crashed p
              | (None, res) \<Rightarrow> Running (c', lg1, res)))) = Running (c, lg, res)"
    by (auto simp: main_start_def proc_bind_Running split: option.splits)
  from rest obtain c' where ver: "Verify c1 = Inr c'" by (cases "Verify c1") simp_all
  from rest ver obtain r0 :: "('a, 'b) cogRelay" where r0: "NewRelay c' w = Done r0" by (auto simp: NewRelay_def split: if_splits)
  obtain err res' where st: "Start os re r0 = (err, res')" by fastforce
  from rest ver r0 st have "err = None" "res' = res" "c' = c" "lg1 = lg" by (auto split: option.splits outcome.splits)
  with vers prep ver r0 st that show ?thesis by blast
qed

section \<open>Properties\<close>


text \<open>A bus that refuses twice before it accepts.\<close>

definition slow_env :: relay_env where
  "slow_env = sample_env\<lparr>re_bus := sample_bus\<lparr>be_fuel := 3, be_attempt := \<lambda>n. if n < 2 then Some ''refused'' else None\<rparr>\<rparr>"

lemma slow_env_simps [simp]:
  "be_subscribe (re_bus slow_env) t = None" "be_publish (re_bus slow_env) t p = None" "re_parseDuration slow_env s = Inr 60"
  "re_sched slow_env = Before_Refresh" "re_marshal_list slow_env = lb_ReplyTo"
  by (simp_all add: slow_env_def sample_env_def sample_bus_def)

lemma slow_bus_usable: "\<not> SSLEnabled cog \<Longrightarrow> bus_usable (re_bus slow_env) cog"
  by (auto simp: bus_usable_def slow_env_def sample_bus_def intro: exI [of _ 2])


text \<open>
  C22: what a running relay was configured with. If the program gets past its start, then the
  flags were accepted, the configuration (from the named file, or from the first of the usual
  locations that can be read, or empty) was parsed and validated without an error, the logger
  was set up from it, its verification succeeded, so that an engine is enabled and a managed
  configuration has a root, and the relay runs with exactly that configuration, in a state that
  the transitions of the relay reach, so that their invariant holds for it; otherwise the
  program has exited with an error or the version text, or has panicked.
\<close>

theorem main_runs_verified_config:
  assumes "main_start pe os re w = Running (c, lg, res)" and "out_state res = Some r" and "env_ok re"
  shows "reachable relay_init (relay_step os) r \<and> r_config r = c \<and>
    (DockerEnabled c \<or> NativeEnabled c) \<and> (ManagedDynamicConfig c \<longrightarrow> DynamicConfigRoot c \<noteq> []) \<and> MaxConcurrent c \<ge> 0 \<and>
    (\<exists>fl c0 raw. pe_flags pe = Some fl \<and> displayVersionInfo pe (pe_args pe) = None \<and>
      raw = tryLoadingConfig (pe_stat pe) (pe_readFile pe) (if configFile fl \<noteq> [] then [configFile fl] else configLocations) \<and>
      RawConfig_Parse (pe_yaml pe) (pe_getenv pe) (pe_validate pe) (pe_validateDocker pe) (pe_commanddrivertag pe) raw = Ret (Some c0, None) \<and>
      Verify (c0\<lparr>DevMode := devMode fl\<rparr>) = Inr c \<and>
      configureLogger (pe_openLog pe) (c0\<lparr>DevMode := devMode fl\<rparr>) default_logger = Ret lg)"
proof -
  obtain fl c1 r0 where vers: "displayVersionInfo pe (pe_args pe) = None" and prep: "prepare pe = Running (fl, c1, lg)"
    and ver: "Verify c1 = Inr c" and r0: "NewRelay c w = Done r0" "Start os re r0 = (None, res)"
    by (rule main_start_cases [OF assms(1)])
  have "relay_init r0" using r0(1) by (auto simp: relay_init_def)
  then have "reachable relay_init (relay_step os) r0" by (rule reachable_init)
  then have "reachable relay_init (relay_step os) r"
    using Start_steps [OF r0(2) assms(2,3)] by (rule handler_steps_reachable)
  moreover have "r_config r = r_config r0" by (rule Start_config [OF r0(2) assms(2)])
  moreover have "r_config r0 = c" "MaxConcurrent c \<ge> 0" using r0(1) by (auto simp: NewRelay_def split: if_splits)
  moreover have "DockerEnabled c \<or> NativeEnabled c" "ManagedDynamicConfig c \<longrightarrow> DynamicConfigRoot c \<noteq> []"
    using Verified [OF ver] by blast+
  ultimately show ?thesis using prepared [OF prep] ver vers by blast
qed

text \<open>
  A process without flags, whose configuration file enables the native engine and names a root,
  and a bus that has not accepted a connection yet.
\<close>

definition file_config :: Config where
  "file_config = zero_config\<lparr>cfg_Version := RelayConfigVersion, EnginesEnabled := ''native'', DynamicConfigRoot := ''/d''\<rparr>"

definition sample_process :: process_env where
  "sample_process = \<lparr>pe_args = [''relay''], pe_flags = Some \<lparr>configFile = [], cpuprofile = [], memprofile = [], devMode = False\<rparr>,
     pe_buildstamp = [], pe_buildhash = [], pe_buildtag = [], pe_commanddrivertag = ''0.13'',
     pe_stat = \<lambda>p. if p = ''/usr/local/etc/relay.conf'' then None else Some ''no such file'', pe_readFile = \<lambda>_. Inr ''version: 1'',
     pe_openLog = \<lambda>_. None, pe_create = \<lambda>_. None, pe_getenv = empty_environment, pe_yaml = \<lambda>_. Inr file_config,
     pe_validate = \<lambda>_. None, pe_validateDocker = \<lambda>_ _. None\<rparr>"

definition waiting_env :: relay_env where
  "waiting_env = sample_env\<lparr>re_bus := sample_bus\<lparr>be_fuel := 0, be_readFile := \<lambda>_. Inr ''pem'', be_parsePEM := \<lambda>_. True\<rparr>\<rparr>"

lemma file_config_populated:
  obtains c where "populate empty_environment file_config = Ret c"
proof -
  obtain r1 r2 r3 r4 where r: "setDefaultValues (config_fields file_config) = Ret r1"
    "setDefaultValues (cog_fields zero_cog) = Ret r2"
    "setDefaultValues (docker_fields zero_docker) = Ret r3"
    "setDefaultValues (execution_fields zero_execution) = Ret r4"
  proof -
    have "\<exists>r. setDefaultValues (config_fields file_config) = Ret r"
      by (simp add: file_config_def setDefaultValues_def config_fields_def set_default_field_def zero_config_def
        parse_int64_def digit_value_def parse_bool_def split_beta) blast
    with that defaults_parse(2-4) show ?thesis by blast
  qed
  have zero: "Cog (config_write (config_write file_config a) b) = None"
    "cfg_Docker (config_write (config_write file_config a) b) = None"
    "Execution (config_write (config_write file_config a) b) = None" for a b
    by (simp_all add: config_write_def file_config_def zero_config_def)
  have "\<exists>c. populate empty_environment file_config = Ret c"
    by (simp add: populate_def fill_struct_empty r zero split_beta) (simp add: ExecutionInfo_parse_def zero_execution_def)
  with that show ?thesis by blast
qed

lemma sample_prepared:
  obtains c lg cog where "prepare sample_process = Running (\<lparr>configFile = [], cpuprofile = [], memprofile = [], devMode = False\<rparr>, c, lg)"
    and "ParsedEnginesEnabled c = [''native'']" "DynamicConfigRoot c = ''/d''" "ManagedDynamicConfig c" "MaxConcurrent c = 16" "Cog c = Some cog"
proof -
  obtain c1 where c1: "populate empty_environment file_config = Ret c1" by (rule file_config_populated)
  have f: "ParsedEnginesEnabled c1 = parseEngines_loop (split_on (CHR '','') ''native'') []" "DynamicConfigRoot c1 = ''/d''"
    "ManagedDynamicConfig c1" "MaxConcurrent c1 = 16" "LogPath c1 = ''stdout''" "LogLevel c1 = ''info''"
    using c1 by (elim populateE; simp add: fill_config pick_def pick_int_def pick_bool_def empty_environment_def file_config_def zero_config_def)+
  have eng: "parseEngines_loop (split_on (CHR '','') ''native'') [] = [''native'']" by code_simp
  obtain d cog where d: "cfg_Docker c1 = Some d" "Cog c1 = Some cog" using c1 by (auto simp: populate_def parseEngines_def)
  have raw: "tryLoadingConfig (pe_stat sample_process) (pe_readFile sample_process) configLocations = ''version: 1''"
    by (simp add: configLocations_def LoadConfig_def sample_process_def)
  let ?c = "c1\<lparr>ID := to_lower (ID c1), cfg_Docker := Some (if CommandDriverVersion d = [] then d\<lparr>CommandDriverVersion := ''0.13''\<rparr> else d), DevMode := False\<rparr>"
  have ver: "cfg_Version file_config = RelayConfigVersion" by (simp add: file_config_def)
  have parse: "RawConfig_Parse (\<lambda>_. Inr file_config) empty_environment (\<lambda>_. None) (\<lambda>_ _. None) ''0.13'' ''version: 1'' =
      Ret (Some (c1\<lparr>ID := to_lower (ID c1), cfg_Docker := Some (if CommandDriverVersion d = [] then d\<lparr>CommandDriverVersion := ''0.13''\<rparr> else d)\<rparr>), None)"
    using c1 d(1) ver by (simp add: RawConfig_Parse_def IsEmpty_def Let_def)
  obtain lg where lg: "configureLogger (\<lambda>_. None) ?c default_logger = Ret lg" by (simp add: configureLogger_def Let_def f)
  have "prepare sample_process = Running (\<lparr>configFile = [], cpuprofile = [], memprofile = [], devMode = False\<rparr>, ?c, lg)"
    using raw parse lg by (simp add: prepare_def sample_process_def)
  then show ?thesis by (rule that) (use f eng d in simp_all)
qed

theorem main_runs_verified_config_witness:
  "\<exists>c lg r. main_start sample_process sample_outside waiting_env () = Running (c, lg, Blocked r) \<and> r_config r = c \<and> NativeEnabled c \<and>
     reachable relay_init (relay_step sample_outside) r"
proof -
  obtain c lg cog where prep: "prepare sample_process = Running (\<lparr>configFile = [], cpuprofile = [], memprofile = [], devMode = False\<rparr>, c, lg)"
    and c: "ParsedEnginesEnabled c = [''native'']" "DynamicConfigRoot c = ''/d''" "ManagedDynamicConfig c" "MaxConcurrent c = 16" "Cog c = Some cog"
    by (rule sample_prepared)
  let ?c = "c\<lparr>DynamicConfigRoot := path_join [''/d'', ManagedDynamicConfigLink]\<rparr>"
  have eng: "NativeEnabled c" "NativeEnabled ?c" "\<not> DockerEnabled ?c"
    using c(1) by (simp_all add: NativeEnabled_def DockerEnabled_def NativeEngine_def DockerEngine_def engineEnabled_def)
  have ver: "Verify c = Inr ?c" using c eng by (simp add: Verify_def)
  have new: "NewRelay ?c () = Done (new_relay ?c)" using c(4) by (simp add: NewRelay_def new_relay_def fresh_world_def)
  have "bus_Connect (re_bus waiting_env) opts = None" for opts
    by (simp add: bus_Connect_def Connect_def configureSSL_def waiting_env_def Let_def)
  then obtain r' where start: "Start sample_outside waiting_env (new_relay ?c) = (None, Blocked r')"
    using c(5) eng(3) by (simp add: Start_def start_docker_def new_relay_def announcer_options_def makeConnOpts_def)
  have "displayVersionInfo sample_process (pe_args sample_process) = None" by (simp add: sample_process_def)
  then have run: "main_start sample_process sample_outside waiting_env () = Running (?c, lg, Blocked r')"
    using prep ver new start by (simp add: main_start_def make_profile_def)
  have "env_ok waiting_env" using sample_env_ok by (simp add: waiting_env_def env_ok_def)
  with main_runs_verified_config [OF run, of r'] run eng(2) show ?thesis by auto
qed

end
