(* ===== verification/Relay_Workers.thy ===== *)
theory Relay_Workers
  imports Relay_System
begin

text \<open>
  The relay with its workers side by side. A worker of \<^verbatim>\<open>relay/worker/execution.go\<close> is a goroutine
  of its own: while it executes a command the other workers, the handlers and the timers go on.
  Here \<open>executeCommand\<close> is taken apart into its calls, each a step of one worker, and the steps
  of all workers interleave with the steps of the relay. The shared objects are the queue, the
  catalog, the cache with the environments, and the bus.
\<close>

section \<open>The stages of an execution\<close>

text \<open>
  Where a worker is in \<open>executeCommand\<close>, with the local variables it still needs: before
  \<^verbatim>\<open>Decode\<close>, before \<^verbatim>\<open>Catalog.Find\<close> and \<^verbatim>\<open>EngineForBundle\<close>, before \<^verbatim>\<open>NewEnvironment\<close>, before
  \<^verbatim>\<open>GetUserData\<close> and \<^verbatim>\<open>ToCircuitRequest\<close>, before \<^verbatim>\<open>SetUserData\<close>, before \<^verbatim>\<open>Run\<close>, before
  \<^verbatim>\<open>ReleaseEnvironment\<close>, and before \<^verbatim>\<open>Publish\<close>.
\<close>

datatype 'c stage =
    Decoding
  | Finding ExecutionRequest
  | Acquiring ExecutionRequest Bundle "'c engine"
  | Preparing ExecutionRequest Bundle "'c engine" env_id
  | Marking ExecutionRequest Bundle "'c engine" env_id "string \<rightharpoonup> go_value" ExecRequest
  | Executing ExecutionRequest Bundle "'c engine" env_id ExecRequest
  | Releasing ExecutionRequest Bundle "'c engine" env_id ExecResult "error option"
  | Answering ExecutionRequest ExecutionResponse
  | is_finished: Finished

type_synonym ('c, 'w) worker_state = "decoder \<times> ('c, 'w) worker_world"

definition find_engine :: "CommandInvocation \<Rightarrow> ExecutionRequest \<Rightarrow> Catalog \<Rightarrow> 'c stage go_result" where
  "find_engine invoke request bc =
     (case Find (BundleName request) bc of
        None \<Rightarrow> Ret (Answering request (empty_response\<lparr>Status := ''error'',
                  StatusMessage := ''Unknown command bundle '' @ BundleName request\<rparr>))
      | Some b \<Rightarrow>
          go_bind (EngineForBundle (ci_Engines invoke) b) (\<lambda>e.
            case e of
              Inl err \<Rightarrow> Ret (Answering request (setError empty_response err))
            | Inr eng \<Rightarrow> Ret (Acquiring request b eng)))"

definition prepare_request ::
    "exec_inputs \<Rightarrow> CommandInvocation \<Rightarrow> ExecutionRequest \<Rightarrow> Bundle \<Rightarrow> 'c engine \<Rightarrow> env_id \<Rightarrow>
     (string \<rightharpoonup> go_value) \<Rightarrow> 'c stage go_result" where
  "prepare_request ins invoke request b eng env userData =
     go_bind (dynamic_flag userData) (\<lambda>hasDynamicConfig.
       go_bind (ToCircuitRequest (in_marshal ins) (in_world ins) request b (ci_RelayConfig invoke) hasDynamicConfig) (\<lambda>r.
         case r of
           Inl err \<Rightarrow> Ret (Answering request (setError empty_response err))
         | Inr (circuitRequest, foundDynamicConfig) \<Rightarrow>
             Ret (if \<not> foundDynamicConfig
                  then Marking request b eng env (userData(dynamic_config_key \<mapsto> GBool False)) circuitRequest
                  else Executing request b eng env circuitRequest)))"

text \<open>One call of the stage a worker is in.\<close>

fun on_engines :: "('c stage \<times> ('c, 'w) engine_world) go_result \<Rightarrow> ('c, 'w) worker_state \<Rightarrow> ('c stage \<times> ('c, 'w) worker_state) go_result" where
  "on_engines (Ret (st, w)) (d, ww) = Ret (st, (d, ww\<lparr>ww_engines := w\<rparr>))"
| "on_engines (Panic p) s = Panic p"

fun stage_engine ::
    "('c, 'w) outside \<Rightarrow> exec_inputs \<Rightarrow> CommandInvocation \<Rightarrow> 'c stage \<Rightarrow> ('c, 'w) engine_world \<Rightarrow>
     ('c stage \<times> ('c, 'w) engine_world) go_result" where
  "stage_engine os ins invoke (Acquiring request b eng) w =
     (case engine_NewEnvironment os (in_acquired ins) (PipelineID request) b (eng, w) of
        Panic p \<Rightarrow> Panic p
      | Ret (Inl err, (eng', w')) \<Rightarrow> Ret (Answering request (setError empty_response err), w')
      | Ret (Inr env, (eng', w')) \<Rightarrow> Ret (Preparing request b eng' env, w'))"
| "stage_engine os ins invoke (Preparing request b eng env) w =
     (case get_user_data env w of
        Panic p \<Rightarrow> Panic p
      | Ret (data, w') \<Rightarrow>
          go_bind (prepare_request ins invoke request b eng env (case data of Inr (Some d) \<Rightarrow> d | _ \<Rightarrow> Map.empty))
            (\<lambda>st. Ret (st, w')))"
| "stage_engine os ins invoke (Marking request b eng env userData circuitRequest) w =
     (case set_user_data env userData w of
        Panic p \<Rightarrow> Panic p
      | Ret (err, w') \<Rightarrow> Ret (Executing request b eng env circuitRequest, w'))"
| "stage_engine os ins invoke (Executing request b eng env circuitRequest) w =
     (case run_env os env circuitRequest w of
        Panic p \<Rightarrow> Panic p
      | Ret ((result, err), w') \<Rightarrow> Ret (Releasing request b eng env result err, w'))"
| "stage_engine os ins invoke (Releasing request b eng env result err) w =
     (case engine_ReleaseEnvironment os (in_released ins) (PipelineID request) b env (eng, w) of
        Panic p \<Rightarrow> Panic p
      | Ret (_, (eng', w')) \<Rightarrow>
          Ret (Answering request (fst (Output_Parse (in_matchers ins) (in_decode ins) result request err)), w'))"
| "stage_engine os ins invoke st w = Ret (st, w)"

fun stage_step ::
    "('c, 'w) outside \<Rightarrow> exec_inputs \<Rightarrow> CommandInvocation \<Rightarrow> 'c stage \<Rightarrow> ('c, 'w) worker_state \<Rightarrow>
     ('c stage \<times> ('c, 'w) worker_state) go_result" where
  "stage_step os ins invoke Decoding (d, ww) =
     (case Decode (in_scan ins) (Payload invoke) d of
        (Inl err, d') \<Rightarrow> Ret (Finished, (d', ww))
      | (Inr raw, d') \<Rightarrow> go_bind (Parse raw) (\<lambda>request. Ret (Finding request, (d', ww))))"
| "stage_step os ins invoke (Finding request) (d, ww) =
     go_bind (find_engine invoke request (ww_catalog ww)) (\<lambda>st. Ret (st, (d, ww)))"
| "stage_step os ins invoke (Answering request response) (d, ww) =
     Ret (Finished, (d, ww\<lparr>ww_published := ww_published ww @ [(ReplyTo request, in_marshal_response ins response)]\<rparr>))"
| "stage_step os ins invoke st (d, ww) = on_engines (stage_engine os ins invoke st (ww_engines ww)) (d, ww)"

text \<open>A worker that is not interrupted: its steps until it is finished.\<close>

fun run_stages ::
    "nat \<Rightarrow> ('c, 'w) outside \<Rightarrow> exec_inputs \<Rightarrow> CommandInvocation \<Rightarrow> 'c stage \<times> ('c, 'w) worker_state \<Rightarrow>
     ('c stage \<times> ('c, 'w) worker_state) go_result" where
  "run_stages 0 os ins invoke s = Ret s"
| "run_stages (Suc n) os ins invoke (st, s) =
     (if is_finished st then Ret (st, s)
      else go_bind (stage_step os ins invoke st s) (run_stages n os ins invoke))"

section \<open>Workers and relay together\<close>

record 'c worker =
  wk_decoder :: "decoder option"
  wk_job :: "(exec_inputs \<times> CommandInvocation \<times> 'c stage) option"

definition idle_worker :: "'c worker" where
  "idle_worker = \<lparr>wk_decoder = None, wk_job = None\<rparr>"

text \<open>Taking an invocation off the queue; the decoder is made for the first one.\<close>

definition take_job :: "exec_inputs \<Rightarrow> CommandInvocation \<Rightarrow> 'c worker \<Rightarrow> 'c worker" where
  "take_job ins invoke wk =
     \<lparr>wk_decoder = Some (case wk_decoder wk of None \<Rightarrow> NewJSONDecoder | Some d \<Rightarrow> d), wk_job = Some (ins, invoke, Decoding)\<rparr>"

definition next_job :: "exec_inputs \<Rightarrow> CommandInvocation \<Rightarrow> 'c stage \<Rightarrow> decoder \<Rightarrow> 'c worker" where
  "next_job ins invoke st d = \<lparr>wk_decoder = Some d, wk_job = (if is_finished st then None else Some (ins, invoke, st))\<rparr>"

definition worker_effect :: "('c, 'w) worker_world \<Rightarrow> ('c, 'w) cogRelay \<Rightarrow> ('c, 'w) cogRelay" where
  "worker_effect ww r = r\<lparr>r_world := ww_engines ww, r_sent := ww_published ww\<rparr>"

inductive worker_step ::
    "('c, 'w) outside \<Rightarrow> ('c, 'w) cogRelay \<times> 'c worker list \<Rightarrow> ('c, 'w) cogRelay \<times> 'c worker list \<Rightarrow> bool" for os where
  ws_take: "i < length ws \<Longrightarrow> wk_job (ws ! i) = None \<Longrightarrow> r_queue r = invoke # q \<Longrightarrow>
     worker_step os (r, ws) (r\<lparr>r_queue := q\<rparr>, ws[i := take_job ins invoke (ws ! i)])"
| ws_work: "i < length ws \<Longrightarrow> ws ! i = \<lparr>wk_decoder = Some d, wk_job = Some (ins, invoke, st)\<rparr> \<Longrightarrow>
     stage_step os ins invoke st (d, worker_view r) = Ret (st', (d', ww)) \<Longrightarrow>
     worker_step os (r, ws) (worker_effect ww r, ws[i := next_job ins invoke st' d'])"

inductive system_step ::
    "('c, 'w) outside \<Rightarrow> ('c, 'w) cogRelay \<times> 'c worker list \<Rightarrow> ('c, 'w) cogRelay \<times> 'c worker list \<Rightarrow> bool" for os where
  ss_relay: "handler_step os r r' \<Longrightarrow> system_step os (r, ws) (r', ws)"
| ss_worker: "worker_step os s s' \<Longrightarrow> system_step os s s'"

text \<open>A worker whose next call panics, which ends the process.\<close>

definition worker_panics :: "('c, 'w) outside \<Rightarrow> ('c, 'w) cogRelay \<times> 'c worker list \<Rightarrow> bool" where
  "worker_panics os s \<longleftrightarrow> (\<exists>wk \<in> set (snd s). \<exists>d ins invoke st p.
     wk = \<lparr>wk_decoder = Some d, wk_job = Some (ins, invoke, st)\<rparr> \<and>
     stage_step os ins invoke st (d, worker_view (fst s)) = Panic p)"

text \<open>The workers are started idle, and wait for the queue, which is empty.\<close>

definition system_init :: "('c, 'w) cogRelay \<times> 'c worker list \<Rightarrow> bool" where
  "system_init s \<longleftrightarrow> relay_init (fst s) \<and> snd s = replicate (nat (MaxConcurrent (r_config (fst s)))) idle_worker"

text \<open>The environment a worker has acquired and not yet given back, with its place in the cache.\<close>

fun stage_holds :: "'c stage \<Rightarrow> (string option \<times> env_id) option" where
  "stage_holds (Preparing request b eng env) = Some (engine_slot eng (PipelineID request) b, env)"
| "stage_holds (Marking request b eng env d c) = Some (engine_slot eng (PipelineID request) b, env)"
| "stage_holds (Executing request b eng env c) = Some (engine_slot eng (PipelineID request) b, env)"
| "stage_holds (Releasing request b eng env result err) = Some (engine_slot eng (PipelineID request) b, env)"
| "stage_holds st = None"

definition worker_holds :: "'c worker \<Rightarrow> (string option \<times> env_id) option" where
  "worker_holds wk = (case wk_job wk of None \<Rightarrow> None | Some (ins, invoke, st) \<Rightarrow> stage_holds st)"

section \<open>Laws\<close>

subsection \<open>An uninterrupted worker\<close>

lemma run_stages_Finished [simp]: "run_stages n os ins invoke (Finished, s) = Ret (Finished, s)"
  by (cases n) simp_all

lemma run_answering:
  "run_stages (Suc n) os ins invoke (Answering request response, (d, ww)) =
     Ret (Finished, (d, ww\<lparr>ww_published := ww_published ww @ [(ReplyTo request, in_marshal_response ins response)]\<rparr>))"
  by simp

text \<open>What an execution that ends with a response does to the worker's world.\<close>

definition answered ::
    "exec_inputs \<Rightarrow> ExecutionRequest \<Rightarrow> ('c, 'w) worker_state \<Rightarrow> (ExecutionResponse \<times> ('c, 'w) engine_world) go_result \<Rightarrow>
     ('c stage \<times> ('c, 'w) worker_state) go_result" where
  "answered ins request s r =
     go_bind r (\<lambda>(response, w). Ret (Finished, (fst s, (snd s)\<lparr>ww_engines := w,
        ww_published := ww_published (snd s) @ [(ReplyTo request, in_marshal_response ins response)]\<rparr>)))"

lemma answered_engines [simp]: "answered ins request (d, ww\<lparr>ww_engines := w\<rparr>) = answered ins request (d, ww)"
  by (simp add: answered_def fun_eq_iff)

lemma answered_Panic [simp]: "answered ins request s (Panic p) = Panic p"
  by (simp add: answered_def)

lemma go_then_lift: "go_then (go_lift r) f s = go_bind r (\<lambda>x. f x s)"
  by (cases r) (simp_all add: go_then_def go_lift_def)

lemma go_then_return: "go_then (go_return x) f = f x"
  by (simp add: go_then_def fun_eq_iff)

lemma go_then_unit: "go_then (go_then m (\<lambda>_. go_return ())) f = go_then m (\<lambda>_. f ())"
  by (auto simp: go_then_def fun_eq_iff split: go_result.splits prod.splits)

lemma run_engine_stage:
  assumes "\<not> is_finished st" and "stage_step os ins invoke st (d, ww) = on_engines (stage_engine os ins invoke st (ww_engines ww)) (d, ww)"
  shows "run_stages (Suc n) os ins invoke (st, (d, ww)) =
    go_bind (stage_engine os ins invoke st (ww_engines ww)) (\<lambda>(st', w). run_stages n os ins invoke (st', (d, ww\<lparr>ww_engines := w\<rparr>)))"
  using assms by (cases "stage_engine os ins invoke st (ww_engines ww)") (auto simp: case_prod_beta)

declare run_stages.simps(2) [simp del]

text \<open>From each stage on, the rest of the run is the rest of \<open>executeCommand\<close>.\<close>

definition finish_run ::
    "('c, 'w) outside \<Rightarrow> exec_inputs \<Rightarrow> ExecutionRequest \<Rightarrow> Bundle \<Rightarrow> 'c engine \<Rightarrow> env_id \<Rightarrow> ExecRequest \<Rightarrow>
     (('c, 'w) engine_world, ExecutionResponse) go_m" where
  "finish_run os ins request b eng env c =
     go_then (run_env os env c) (\<lambda>(result, err).
       go_then (\<lambda>w. drop_engine (engine_ReleaseEnvironment os (in_released ins) (PipelineID request) b env (eng, w))) (\<lambda>_.
         go_return (fst (Output_Parse (in_matchers ins) (in_decode ins) result request err))))"

lemma run_releasing:
  "run_stages (Suc (Suc n)) os ins invoke (Releasing request b eng env result err, (d, ww)) =
     answered ins request (d, ww)
       (go_then (\<lambda>w. drop_engine (engine_ReleaseEnvironment os (in_released ins) (PipelineID request) b env (eng, w))) (\<lambda>_.
         go_return (fst (Output_Parse (in_matchers ins) (in_decode ins) result request err))) (ww_engines ww))"
  by (subst run_engine_stage; cases "engine_ReleaseEnvironment os (in_released ins) (PipelineID request) b env (eng, ww_engines ww)")
    (auto simp: go_then_def drop_engine_def answered_def run_answering)

lemma run_executing:
  "run_stages (Suc (Suc (Suc n))) os ins invoke (Executing request b eng env c, (d, ww)) =
     answered ins request (d, ww) (finish_run os ins request b eng env c (ww_engines ww))"
  by (subst run_engine_stage; cases "run_env os env c (ww_engines ww)")
    (auto simp: finish_run_def go_then_def [of "run_env os env c"] run_releasing)

lemma run_marking:
  "run_stages (Suc (Suc (Suc (Suc n)))) os ins invoke (Marking request b eng env data c, (d, ww)) =
     answered ins request (d, ww) (go_then (set_user_data env data) (\<lambda>_. finish_run os ins request b eng env c) (ww_engines ww))"
  by (subst run_engine_stage; cases "set_user_data env data (ww_engines ww)")
    (auto simp: go_then_def run_executing)

lemma run_preparing:
  "run_stages (Suc (Suc (Suc (Suc (Suc n))))) os ins invoke (Preparing request b eng env, (d, ww)) =
     answered ins request (d, ww) (run_in_environment os ins invoke request b eng env (ww_engines ww))"
proof (cases "get_user_data env (ww_engines ww)")
  case (Panic p)
  then show ?thesis by (simp add: run_engine_stage run_in_environment_def go_then_def)
next
  case (Ret x)
  obtain data w where x: "x = (data, w)" by fastforce
  let ?data = "case data of Inr (Some d) \<Rightarrow> d | _ \<Rightarrow> Map.empty"
  let ?flag = "dynamic_flag ?data"
  let ?req = "\<lambda>dyn. ToCircuitRequest (in_marshal ins) (in_world ins) request b (ci_RelayConfig invoke) dyn"
  have stages: "run_stages (Suc (Suc (Suc (Suc (Suc n))))) os ins invoke (Preparing request b eng env, (d, ww)) =
      go_bind (prepare_request ins invoke request b eng env ?data) (\<lambda>st. run_stages (Suc (Suc (Suc (Suc n)))) os ins invoke (st, (d, ww\<lparr>ww_engines := w\<rparr>)))"
    using Ret x by (subst run_engine_stage) (simp_all add: go_bind_assoc)
  have rest: "run_in_environment os ins invoke request b eng env (ww_engines ww) =
      go_bind ?flag (\<lambda>dyn. go_bind (?req dyn) (\<lambda>r. case r of
         Inl err \<Rightarrow> Ret (setError empty_response err, w)
       | Inr (c, found) \<Rightarrow> if \<not> found
           then go_then (set_user_data env (?data(dynamic_config_key \<mapsto> GBool False))) (\<lambda>_. finish_run os ins request b eng env c) w
           else finish_run os ins request b eng env c w))"
    using Ret x unfolding run_in_environment_def Let_def finish_run_def [symmetric]
    by (cases ?flag; simp add: go_then_def [of "get_user_data env"] go_then_lift)
      (auto simp: go_then_unit go_then_return intro!: ext arg_cong2 [of _ _ _ _ go_bind] split: sum.splits prod.splits)
  show ?thesis
  proof (cases ?flag)
    case (Ret dyn)
    then have flag: "?flag = Ret dyn" .
    show ?thesis
    proof (cases "?req dyn")
      case (Ret r)
      then show ?thesis using flag unfolding stages rest
        by (cases r) (auto simp: prepare_request_def run_marking run_executing run_answering answered_def [of _ _ _ "Ret z" for z])
    qed (use flag in \<open>simp add: stages rest prepare_request_def\<close>)
  qed (simp add: stages rest prepare_request_def)
qed

lemma run_acquiring:
  "run_stages (Suc (Suc (Suc (Suc (Suc (Suc n)))))) os ins invoke (Acquiring request b eng, (d, ww)) =
     answered ins request (d, ww)
       (case engine_NewEnvironment os (in_acquired ins) (PipelineID request) b (eng, ww_engines ww) of
          Panic p \<Rightarrow> Panic p
        | Ret (r, (eng', w')) \<Rightarrow>
            (case r of
               Inl err \<Rightarrow> Ret (setError empty_response err, w')
             | Inr env \<Rightarrow> run_in_environment os ins invoke request b eng' env w'))"
proof (cases "engine_NewEnvironment os (in_acquired ins) (PipelineID request) b (eng, ww_engines ww)")
  case (Ret x)
  then obtain r eng' w' where "engine_NewEnvironment os (in_acquired ins) (PipelineID request) b (eng, ww_engines ww) = Ret (r, (eng', w'))"
    by (cases x) auto
  then show ?thesis
    by (cases r; subst run_engine_stage; simp add: run_preparing run_answering answered_def [of _ _ _ "Ret z" for z])
qed (subst run_engine_stage, simp_all)

lemma run_finding:
  "run_stages (Suc (Suc (Suc (Suc (Suc (Suc (Suc n))))))) os ins invoke (Finding request, (d, ww)) =
     answered ins request (d, ww) (respond os ins invoke request (ww_catalog ww) (ww_engines ww))"
proof -
  have run: "run_stages (Suc (Suc (Suc (Suc (Suc (Suc (Suc n))))))) os ins invoke (Finding request, (d, ww)) =
      go_bind (find_engine invoke request (ww_catalog ww)) (\<lambda>st. run_stages (Suc (Suc (Suc (Suc (Suc (Suc n)))))) os ins invoke (st, (d, ww)))"
    by (subst run_stages.simps) (simp add: go_bind_assoc)
  show ?thesis
  proof (cases "Find (BundleName request) (ww_catalog ww)")
    case (Some b)
    then show ?thesis unfolding run
    proof (cases "EngineForBundle (ci_Engines invoke) b :: (error + 'a engine) go_result")
      case (Ret e)
      with Some show "go_bind (find_engine invoke request (ww_catalog ww)) (\<lambda>st. run_stages (Suc (Suc (Suc (Suc (Suc (Suc n)))))) os ins invoke (st, (d, ww))) =
        answered ins request (d, ww) (respond os ins invoke request (ww_catalog ww) (ww_engines ww))"
        by (cases e) (simp_all add: find_engine_def respond_def go_then_def go_lift_def run_acquiring run_answering
          answered_def [of _ _ _ "Ret z" for z])
    qed (simp add: find_engine_def respond_def go_then_def go_lift_def)
  qed (simp add: run find_engine_def respond_def run_answering answered_def)
qed

lemma run_decoding:
  "run_stages (Suc (Suc (Suc (Suc (Suc (Suc (Suc (Suc n)))))))) os ins invoke (Decoding, (d, ww)) =
     go_bind (executeCommand os ins invoke (d, ww)) (\<lambda>s. Ret (Finished, s))"
proof -
  obtain r d' where dec: "Decode (in_scan ins) (Payload invoke) d = (r, d')" by fastforce
  show ?thesis
  proof (cases r)
    case (Inr raw)
    with dec have "run_stages (Suc (Suc (Suc (Suc (Suc (Suc (Suc (Suc n)))))))) os ins invoke (Decoding, (d, ww)) =
        go_bind (Parse raw) (\<lambda>request. answered ins request (d', ww) (respond os ins invoke request (ww_catalog ww) (ww_engines ww)))"
      by (subst run_stages.simps) (simp add: go_bind_assoc run_finding)
    with dec Inr show ?thesis by (simp add: executeCommand_def go_bind_assoc answered_def case_prod_unfold)
  qed (use dec in \<open>simp add: executeCommand_def run_stages.simps(2)\<close>)
qed

text \<open>
  A stage leads to a later one, so that whatever the others do a worker is done after eight
  steps of its own.
\<close>

fun stage_rank :: "'c stage \<Rightarrow> nat" where
  "stage_rank Decoding = 8"
| "stage_rank (Finding request) = 7"
| "stage_rank (Acquiring request b eng) = 6"
| "stage_rank (Preparing request b eng env) = 5"
| "stage_rank (Marking request b eng env d c) = 4"
| "stage_rank (Executing request b eng env c) = 3"
| "stage_rank (Releasing request b eng env result err) = 2"
| "stage_rank (Answering request response) = 1"
| "stage_rank Finished = 0"

lemma on_engines_Ret [simp]:
  "on_engines r (d, ww) = Ret (st, (d', ww')) \<longleftrightarrow> (\<exists>w. r = Ret (st, w) \<and> d' = d \<and> ww' = ww\<lparr>ww_engines := w\<rparr>)"
proof (cases r)
  case (Ret x)
  then show ?thesis by (cases x) auto
qed simp

lemma find_engine_Ret:
  assumes "find_engine invoke request bc = Ret st"
  obtains (answer) response where "st = Answering request response" | (acquire) b eng where "st = Acquiring request b eng"
proof (cases "Find (BundleName request) bc")
  case (Some b)
  with assms obtain e where e: "EngineForBundle (ci_Engines invoke) b = Ret e"
    "(case e of Inl err \<Rightarrow> Ret (Answering request (setError empty_response err)) | Inr eng \<Rightarrow> Ret (Acquiring request b eng)) = Ret st"
    by (auto simp: find_engine_def)
  then show thesis using answer acquire by (cases e) auto
qed (use assms answer in \<open>auto simp: find_engine_def\<close>)

lemma prepare_request_Ret:
  assumes "prepare_request ins invoke request b eng env data = Ret st"
  obtains (answer) response where "st = Answering request response"
    | (mark) data' c where "st = Marking request b eng env data' c" | (run) c where "st = Executing request b eng env c"
proof -
  from assms obtain r where r: "(case r of
           Inl err \<Rightarrow> Ret (Answering request (setError empty_response err))
         | Inr (c, found) \<Rightarrow> Ret (if \<not> found then Marking request b eng env (data(dynamic_config_key \<mapsto> GBool False)) c
             else Executing request b eng env c)) = Ret st"
    by (auto simp: prepare_request_def)
  then show thesis using answer mark run by (cases r) (auto split: if_splits)
qed

lemma stage_step_rank:
  "stage_step os ins invoke st (d, ww) = Ret (st', (d', ww')) \<Longrightarrow> \<not> is_finished st \<Longrightarrow> stage_rank st' < stage_rank st"
  by (cases st) (auto elim: find_engine_Ret prepare_request_Ret split: prod.splits sum.splits go_result.splits)

subsection \<open>What the steps keep\<close>

text \<open>One step of a worker: what it does to the leases, to what it holds, and to the shared state.\<close>

lemma stage_step_keeps:
  assumes "stage_step os ins invoke st (d, ww) = Ret (st', (d', ww'))" and "world_ok (ww_engines ww)"
    and "\<And>slot env. stage_holds st = Some (slot, env) \<Longrightarrow> lease (ww_engines ww) slot env"
  shows "world_ok (ww_engines ww') \<and> ww_catalog ww' = ww_catalog ww \<and>
    keeps_leases (ww_engines ww) (ww_engines ww') (case stage_holds st of Some (slot, env) \<Rightarrow> {env} | None \<Rightarrow> {}) \<and>
    (\<forall>slot env. stage_holds st' = Some (slot, env) \<longrightarrow> lease (ww_engines ww') slot env \<and>
       (stage_holds st = Some (slot, env) \<or> (\<forall>slot'. \<not> lease (ww_engines ww) slot' env)))"
proof (cases st)
  case Decoding
  with assms show ?thesis by (auto split: prod.splits sum.splits)
next
  case (Finding request)
  with assms(1) have "ww' = ww" "find_engine invoke request (ww_catalog ww) = Ret st'" by auto
  moreover from this(2) have "stage_holds st' = None" by (auto elim: find_engine_Ret)
  ultimately show ?thesis using assms(2) Finding by simp
next
  case (Acquiring request b eng)
  with assms(1) obtain r eng' w' where new: "engine_NewEnvironment os (in_acquired ins) (PipelineID request) b (eng, ww_engines ww) = Ret (r, (eng', w'))"
    and w': "ww' = ww\<lparr>ww_engines := w'\<rparr>"
    and st': "case r of Inl err \<Rightarrow> st' = Answering request (setError empty_response err) | Inr env \<Rightarrow> st' = Preparing request b eng' env"
    by (auto split: go_result.splits sum.splits)
  note lease = engine_New_lease [OF new assms(2)]
  show ?thesis
  proof (cases r)
    case (Inr env)
    with lease [of env] have "world_ok w'" "keeps_leases (ww_engines ww) w' {}" "lease w' (engine_slot eng' (PipelineID request) b) env"
      "\<And>slot. \<not> lease (ww_engines ww) slot env" by blast+
    with Inr w' st' Acquiring show ?thesis by simp
  qed (use lease w' st' Acquiring in simp)
next
  case (Preparing request b eng env)
  with assms(1) obtain data where "ww' = ww" "prepare_request ins invoke request b eng env data = Ret st'"
    by (auto simp: get_user_data_def split: go_result.splits option.splits)
  from this(2) assms(2,3) Preparing show ?thesis
    unfolding \<open>ww' = ww\<close> by (elim prepare_request_Ret) (auto simp: keeps_leases_def)
next
  case (Marking request b eng env data c)
  with assms(1) obtain err w' where run: "set_user_data env data (ww_engines ww) = Ret (err, w')" "ww' = ww\<lparr>ww_engines := w'\<rparr>"
    "st' = Executing request b eng env c" by (auto split: go_result.splits)
  from set_user_data_keeps [OF run(1) assms(2)] assms(3) run(2,3) Marking show ?thesis by (auto simp: keeps_leases_def)
next
  case (Executing request b eng env c)
  with assms(1) obtain result err w' where run: "run_env os env c (ww_engines ww) = Ret ((result, err), w')" "ww' = ww\<lparr>ww_engines := w'\<rparr>"
    "st' = Releasing request b eng env result err" by (auto split: go_result.splits)
  from run_env_keeps [OF run(1) assms(2)] assms(3) run(2,3) Executing show ?thesis by (auto simp: keeps_leases_def)
next
  case (Releasing request b eng env result err)
  with assms(1) obtain u eng' w' where run: "engine_ReleaseEnvironment os (in_released ins) (PipelineID request) b env (eng, ww_engines ww) = Ret (u, (eng', w'))"
    "ww' = ww\<lparr>ww_engines := w'\<rparr>" "stage_holds st' = None" by (auto split: go_result.splits)
  from engine_Release_lease [OF run(1) assms(2)] assms(3) run(2,3) Releasing show ?thesis by simp
next
  case (Answering request response)
  with assms show ?thesis by auto
next
  case Finished
  with assms show ?thesis by auto
qed

subsection \<open>The invariant\<close>

definition worker_wf :: "'c worker \<Rightarrow> bool" where
  "worker_wf wk \<longleftrightarrow> (case wk_job wk of None \<Rightarrow> True | Some (ins, invoke, st) \<Rightarrow> wk_decoder wk \<noteq> None \<and> \<not> is_finished st)"

definition system_ok :: "('c, 'w) cogRelay \<times> 'c worker list \<Rightarrow> bool" where
  "system_ok s \<longleftrightarrow> relay_ok (fst s) \<and> length (snd s) = nat (MaxConcurrent (r_config (fst s))) \<and> list_all worker_wf (snd s) \<and>
     (\<forall>i < length (snd s). \<forall>slot env. worker_holds (snd s ! i) = Some (slot, env) \<longrightarrow>
        lease (r_world (fst s)) slot env \<and>
        (\<forall>j < length (snd s). \<forall>slot'. j \<noteq> i \<longrightarrow> worker_holds (snd s ! j) \<noteq> Some (slot', env)))"

lemma system_okD:
  "system_ok (r, ws) \<Longrightarrow> relay_ok r"
  "system_ok (r, ws) \<Longrightarrow> length ws = nat (MaxConcurrent (r_config r))"
  "system_ok (r, ws) \<Longrightarrow> i < length ws \<Longrightarrow> worker_holds (ws ! i) = Some (slot, env) \<Longrightarrow> lease (r_world r) slot env"
  "system_ok (r, ws) \<Longrightarrow> i < length ws \<Longrightarrow> j < length ws \<Longrightarrow> worker_holds (ws ! i) = Some (slot, env) \<Longrightarrow>
     worker_holds (ws ! j) = Some (slot', env) \<Longrightarrow> j = i"
  "system_ok (r, ws) \<Longrightarrow> list_all worker_wf ws"
  unfolding system_ok_def fst_conv snd_conv by blast+

lemma system_okI:
  assumes "relay_ok r" and "length ws = nat (MaxConcurrent (r_config r))"
    and "\<And>i slot env. i < length ws \<Longrightarrow> worker_holds (ws ! i) = Some (slot, env) \<Longrightarrow> lease (r_world r) slot env"
    and "\<And>i j slot slot' env. i < length ws \<Longrightarrow> j < length ws \<Longrightarrow> j \<noteq> i \<Longrightarrow> worker_holds (ws ! i) = Some (slot, env) \<Longrightarrow>
      worker_holds (ws ! j) = Some (slot', env) \<Longrightarrow> False"
    and "list_all worker_wf ws"
  shows "system_ok (r, ws)"
  unfolding system_ok_def fst_conv snd_conv using assms by blast

lemma idle_holds [simp]: "worker_holds idle_worker = None" "worker_holds (take_job ins invoke wk) = None"
  by (simp_all add: worker_holds_def idle_worker_def take_job_def)

lemma new_jobs_wf [simp]: "worker_wf idle_worker" "worker_wf (take_job ins invoke wk)" "worker_wf (next_job ins invoke st d)"
  by (simp_all add: worker_wf_def idle_worker_def take_job_def next_job_def)

lemma next_job_holds [simp]: "worker_holds (next_job ins invoke st d) = stage_holds st"
  by (cases st) (simp_all add: worker_holds_def next_job_def)

lemma worker_step_ok: "worker_step os s s' \<Longrightarrow> system_ok s \<Longrightarrow> system_ok s'"
proof (induction rule: worker_step.induct)
  case (ws_take i ws r invoke q ins)
  note ok = system_okD [OF ws_take(4)]
  let ?ws = "ws[i := take_job ins invoke (ws ! i)]"
  have upd: "worker_holds (?ws ! j) = (if j = i then None else worker_holds (ws ! j))" for j
    using ws_take(1) by (cases "j = i") simp_all
  show ?case
  proof (rule system_okI)
    show "relay_ok (r\<lparr>r_queue := q\<rparr>)" using ws_take(3) ok(1) by (auto simp: relay_ok_def)
    show "length ?ws = nat (MaxConcurrent (r_config (r\<lparr>r_queue := q\<rparr>)))" using ok(2) by simp
    show "lease (r_world (r\<lparr>r_queue := q\<rparr>)) slot env" if "k < length ?ws" "worker_holds (?ws ! k) = Some (slot, env)" for k slot env
      using that ok(3) [of k slot env] by (simp add: upd split: if_split_asm)
    show False if "k < length ?ws" "j < length ?ws" "j \<noteq> k" "worker_holds (?ws ! k) = Some (slot, env)"
      "worker_holds (?ws ! j) = Some (slot', env)" for k j slot slot' env
      using that ok(4) [of k j slot env slot'] by (simp add: upd split: if_split_asm)
    show "list_all worker_wf ?ws" using ok(5) by (rule list_all_update) simp
  qed
next
  case (ws_work i ws d ins invoke st r st' d' ww)
  let ?w = "r_world r" and ?w' = "ww_engines ww"
  note ok = system_okD [OF ws_work(4)]
  have hold: "worker_holds (ws ! i) = stage_holds st" using ws_work(2) by (simp add: worker_holds_def)
  have wok: "world_ok ?w" using ok(1) by (simp add: relay_ok_def)
  have keep: "world_ok ?w'" "ww_catalog ww = r_catalog r"
    "keeps_leases ?w ?w' (case stage_holds st of Some (slot, env) \<Rightarrow> {env} | None \<Rightarrow> {})"
    "\<And>slot env. stage_holds st' = Some (slot, env) \<Longrightarrow> lease ?w' slot env \<and> (stage_holds st = Some (slot, env) \<or> (\<forall>slot'. \<not> lease ?w slot' env))"
    using stage_step_keeps [OF ws_work(3)] wok ok(3) [OF ws_work(1)] hold by (simp_all add: worker_view_def)
  have relay: "relay_ok (worker_effect ww r)"
    using relay_ok_world [OF ok(1) keep(1)] by (simp add: worker_effect_def)
  have other: "lease ?w' slot env" "stage_holds st' \<noteq> Some (slot', env)"
    if j: "j < length ws" "j \<noteq> i" "worker_holds (ws ! j) = Some (slot, env)" for j slot slot' env
  proof -
    have l: "lease ?w slot env" by (rule ok(3) [OF j(1,3)])
    have n: "stage_holds st \<noteq> Some (s, env)" for s using ok(4) [OF ws_work(1) j(1)] j(2,3) hold by auto
    then show "lease ?w' slot env" using keep(3) l by (auto simp: keeps_leases_def split: option.splits)
    show "stage_holds st' \<noteq> Some (slot', env)" using keep(4) [of slot' env] n l by auto
  qed
  show ?case
  proof (rule system_okI)
    show "relay_ok (worker_effect ww r)" by (rule relay)
    show "length (ws[i := next_job ins invoke st' d']) = nat (MaxConcurrent (r_config (worker_effect ww r)))"
      using ok(2) by (simp add: worker_effect_def)
    have upd: "worker_holds (ws[i := next_job ins invoke st' d'] ! k) = (if k = i then stage_holds st' else worker_holds (ws ! k))" for k
      using ws_work(1) by (cases "k = i") simp_all
    show "lease (r_world (worker_effect ww r)) slot env"
      if "k < length (ws[i := next_job ins invoke st' d'])" "worker_holds (ws[i := next_job ins invoke st' d'] ! k) = Some (slot, env)" for k slot env
      using that other(1) [of k slot env] keep(4) [of slot env] by (simp add: upd worker_effect_def split: if_split_asm)
    show False if "k < length (ws[i := next_job ins invoke st' d'])" "j < length (ws[i := next_job ins invoke st' d'])" "j \<noteq> k"
      "worker_holds (ws[i := next_job ins invoke st' d'] ! k) = Some (slot, env)"
      "worker_holds (ws[i := next_job ins invoke st' d'] ! j) = Some (slot', env)" for k j slot slot' env
      using that other(2) [of k slot env slot'] other(2) [of j slot' env slot] ok(4) [of k j slot env slot']
      by (simp add: upd split: if_split_asm)
    show "list_all worker_wf (ws[i := next_job ins invoke st' d'])" using ok(5) by (rule list_all_update) simp
  qed
qed

lemma system_step_ok: "system_step os s s' \<Longrightarrow> system_ok s \<Longrightarrow> system_ok s'"
proof (induction rule: system_step.induct)
  case (ss_relay r r' ws)
  note ok = system_okD [OF ss_relay(2)]
  show ?case
  proof (rule system_okI)
    show "relay_ok r'" by (rule handler_step_ok [OF ss_relay(1) ok(1)])
    show "length ws = nat (MaxConcurrent (r_config r'))" using ok(2) handler_step_keeps(1) [OF ss_relay(1) ok(1)] by simp
    show "lease (r_world r') slot env" if "i < length ws" "worker_holds (ws ! i) = Some (slot, env)" for i slot env
      using handler_step_keeps(2) [OF ss_relay(1) ok(1)] ok(3) [OF that] by (simp add: keeps_leases_def)
  qed (use ok(4,5) in blast)+
next
  case (ss_worker s s')
  then show ?case by (rule worker_step_ok)
qed

interpretation relay_workers: invariant_system system_init "system_step os" system_ok for os
proof
  show "system_ok s" if "system_init s" for s
    using that NewRelay_ok [of "fst s"] by (auto simp: system_init_def system_ok_def list_all_iff)
qed (rule system_step_ok)

subsection \<open>A whole execution as steps\<close>

lemma stage_step_catalog: "stage_step os ins invoke st (d, ww) = Ret (st', (d', ww')) \<Longrightarrow> ww_catalog ww' = ww_catalog ww"
  by (cases st) (auto split: prod.splits sum.splits)

lemma view_effect: "ww_catalog ww = r_catalog r \<Longrightarrow> worker_view (worker_effect ww r) = ww"
  by (cases ww) (simp add: worker_view_def worker_effect_def)

lemma effect_effect [simp]: "worker_effect ww' (worker_effect ww r) = worker_effect ww' r"
  by (simp add: worker_effect_def)

lemma run_stages_steps:
  assumes "run_stages n os ins invoke (st, (d, worker_view r)) = Ret (Finished, (d', ww'))" and "\<not> is_finished st"
    and "i < length ws" and "ws ! i = \<lparr>wk_decoder = Some d, wk_job = Some (ins, invoke, st)\<rparr>"
  shows "(worker_step os)\<^sup>*\<^sup>* (r, ws) (worker_effect ww' r, ws[i := next_job ins invoke Finished d'])"
  using assms
proof (induction n arbitrary: st d r ws)
  case 0
  then show ?case by auto
next
  case (Suc n)
  then obtain st1 d1 ww1 where step: "stage_step os ins invoke st (d, worker_view r) = Ret (st1, (d1, ww1))"
    and rest: "run_stages n os ins invoke (st1, (d1, ww1)) = Ret (Finished, (d', ww'))"
    by (auto simp: run_stages.simps(2))
  let ?r = "worker_effect ww1 r" and ?ws = "ws[i := next_job ins invoke st1 d1]"
  have one: "worker_step os (r, ws) (?r, ?ws)" by (rule ws_work [OF Suc.prems(3,4) step])
  show ?case
  proof (cases "is_finished st1")
    case True
    then have "st1 = Finished" by (cases st1) simp_all
    with rest one show ?thesis by auto
  next
    case False
    have view: "worker_view ?r = ww1" using stage_step_catalog [OF step] by (intro view_effect) (simp add: worker_view_def)
    have "?ws ! i = \<lparr>wk_decoder = Some d1, wk_job = Some (ins, invoke, st1)\<rparr>" using False Suc.prems(3) by (simp add: next_job_def)
    from Suc.IH [of st1 d1 ?r ?ws, OF _ False _ this] rest view Suc.prems(3)
    have "(worker_step os)\<^sup>*\<^sup>* (?r, ?ws) (worker_effect ww' r, ws[i := next_job ins invoke Finished d'])" by simp
    with one show ?thesis by (rule converse_rtranclp_into_rtranclp)
  qed
qed

subsection \<open>Work that is left\<close>

definition job_rank :: "'c worker \<Rightarrow> nat" where
  "job_rank wk = (case wk_job wk of None \<Rightarrow> 0 | Some (ins, invoke, st) \<Rightarrow> stage_rank st)"

definition outstanding :: "('c, 'w) cogRelay \<times> 'c worker list \<Rightarrow> nat" where
  "outstanding s = 9 * length (r_queue (fst s)) + sum_list (map job_rank (snd s))"

lemma stage_rank_0 [simp]: "stage_rank st = 0 \<longleftrightarrow> is_finished st"
  by (cases st) simp_all

lemma job_rank_simps [simp]:
  "job_rank (take_job ins invoke wk) = 8" "job_rank (next_job ins invoke st d) = stage_rank st"
  "job_rank \<lparr>wk_decoder = Some d, wk_job = Some (ins, invoke, st)\<rparr> = stage_rank st"
  by (simp_all add: job_rank_def take_job_def next_job_def)

lemma outstanding_update:
  "i < length ws \<Longrightarrow> outstanding (r, ws[i := wk]) + job_rank (ws ! i) = outstanding (r, ws) + job_rank wk"
  using sum_list_map_update [of i ws job_rank wk] by (simp add: outstanding_def)

lemma worker_step_outstanding: "worker_step os s s' \<Longrightarrow> list_all worker_wf (snd s) \<Longrightarrow> outstanding s' < outstanding s"
proof (induction rule: worker_step.induct)
  case (ws_take i ws r invoke q ins)
  then have "job_rank (ws ! i) = 0" by (simp add: job_rank_def)
  with outstanding_update [OF ws_take(1), of r "take_job ins invoke (ws ! i)"] ws_take(3) show ?case
    by (simp add: outstanding_def)
next
  case (ws_work i ws d ins invoke st r st' d' ww)
  have "worker_wf (ws ! i)" using ws_work(1,4) by (simp add: list_all_length)
  then have "\<not> is_finished st" using ws_work(2) by (simp add: worker_wf_def)
  from stage_step_rank [OF ws_work(3) this] outstanding_update [OF ws_work(1), of r "next_job ins invoke st' d'"] ws_work(2)
  show ?case by (simp add: outstanding_def worker_effect_def)
qed

lemma outstanding_0: "list_all worker_wf ws \<Longrightarrow> outstanding (r, ws) = 0 \<longleftrightarrow> r_queue r = [] \<and> (\<forall>wk \<in> set ws. wk_job wk = None)"
proof -
  assume wf: "list_all worker_wf ws"
  have "job_rank wk = 0 \<longleftrightarrow> wk_job wk = None" if "wk \<in> set ws" for wk
  proof (cases "wk_job wk")
    case (Some job)
    with wf that show ?thesis by (cases job) (auto simp: job_rank_def worker_wf_def list_all_iff dest!: bspec)
  qed (simp add: job_rank_def)
  then show ?thesis by (auto simp: outstanding_def)
qed

lemma worker_can_step:
  assumes "system_ok (r, ws)" and "outstanding (r, ws) > 0"
  shows "(\<exists>s'. worker_step os (r, ws) s') \<or> worker_panics os (r, ws)"
proof (cases "\<exists>wk \<in> set ws. wk_job wk \<noteq> None")
  case True
  then obtain i ins invoke st where i: "i < length ws" "wk_job (ws ! i) = Some (ins, invoke, st)"
    by (auto simp: in_set_conv_nth)
  have "worker_wf (ws ! i)" using system_okD(5) [OF assms(1)] i(1) by (simp add: list_all_length)
  with i(2) obtain d where "wk_decoder (ws ! i) = Some d" by (auto simp: worker_wf_def)
  with i have wk: "ws ! i = \<lparr>wk_decoder = Some d, wk_job = Some (ins, invoke, st)\<rparr>" by (cases "ws ! i") simp
  show ?thesis
  proof (cases "stage_step os ins invoke st (d, worker_view r)")
    case (Ret x)
    then show ?thesis using ws_work [OF i(1) wk] by (cases x) blast
  next
    case (Panic p)
    then have "worker_panics os (r, ws)" unfolding worker_panics_def fst_conv snd_conv using nth_mem [OF i(1)] wk by blast
    then show ?thesis ..
  qed
next
  case False
  then have idle: "\<forall>wk \<in> set ws. wk_job wk = None" by blast
  with assms(2) outstanding_0 [OF system_okD(5) [OF assms(1)], of r] have "r_queue r \<noteq> []" by (metis less_irrefl)
  then obtain invoke q where q: "r_queue r = invoke # q" by (cases "r_queue r") simp_all
  moreover have "length (r_queue r) \<le> length ws"
    using system_okD(1,2) [OF assms(1)] by (simp add: relay_ok_def)
  ultimately have "0 < length ws" by (cases ws) simp_all
  moreover from this idle have "wk_job (ws ! 0) = None" by simp
  ultimately show ?thesis using q ws_take by blast
qed

subsection \<open>Samples\<close>

text \<open>The relay of the samples after a bundle list, and a command for the bundle that was installed.\<close>

definition directive_env :: relay_env where
  "directive_env = sample_env\<lparr>re_unmarshalAny := \<lambda>_. Inr [''bundles'' \<mapsto> GNil],
     re_unmarshalList := \<lambda>_. Inr \<lparr>resp_Bundles = [\<lparr>ConfigFile = two_part_bundle\<rparr>]\<rparr>\<rparr>"

definition foo_request :: ExecutionRequest where
  "foo_request = sample_request\<lparr>Command := ''foo:c'', bundleName := ''foo'', commandName := ''c'', pipelineID := ''p1''\<rparr>"

definition foo_inputs :: exec_inputs where
  "foo_inputs = sample_inputs\<lparr>in_scan := \<lambda>_. Inr (Inr (sample_request\<lparr>Command := ''foo:c''\<rparr>), [])\<rparr>"

lemma Parse_foo: "Parse (sample_request\<lparr>Command := ''foo:c''\<rparr>) = Ret foo_request"
  by (simp add: Parse_def sample_request_def foo_request_def eval_nat_numeral)

lemma directive_env_update: "updateCatalog os directive_env envelope r = updateCatalog os sample_env envelope r"
proof -
  have same: "re_order directive_env = re_order sample_env" "re_parseDuration directive_env = re_parseDuration sample_env"
    by (simp_all add: directive_env_def)
  have "start_bundle_timer directive_env = (start_bundle_timer sample_env :: ('a, 'b) cogRelay \<Rightarrow> _)"
    by (simp add: start_bundle_timer_def fun_eq_iff same)
  moreover have "refreshBundles os directive_env x = refreshBundles os sample_env x" for x by (simp only: refreshBundles_def same)
  ultimately show ?thesis by (simp only: updateCatalog_def same)
qed

lemma sample_system:
  obtains r b where "reachable system_init (system_step sample_outside) (r, [idle_worker, idle_worker])"
    "r_queue r = [invocation sample_config (''t'', ''x'')]" "Find ''foo'' (r_catalog r) = Some b" "Docker b = None" "r_config r = sample_config"
proof -
  let ?step = "system_step sample_outside" and ?ws = "[idle_worker, idle_worker]"
  obtain r1 where r1: "out_state (updateCatalog sample_outside sample_env \<lparr>resp_Bundles = [\<lparr>ConfigFile = two_part_bundle\<rparr>]\<rparr> (online_relay sample_config)) = Some r1"
    "bundles (r_catalog r1) ''foo'' \<noteq> None" "r_subs r1 = r_subs (online_relay sample_config)" "r_queue r1 = []" "r_config r1 = sample_config"
    using sample_directive by blast
  then obtain b where b: "bundles (r_catalog r1) ''foo'' = Some b" by auto
  have docker: "Docker b = None"
    using updateCatalog_bundles [OF r1(1) sample_env_ok sample_online_ok refl, of "''foo''"] b
    unfolding ListBundlesResponseEnvelope.simps sample_replaced
    by (auto simp: availability_def SetAvailable_def two_part_bundle_def sample_bundle_def split: if_splits)
  have "reachable system_init ?step (new_relay sample_config, ?ws)"
    using new_relay_init [of sample_config] by (intro reachable_init) (simp add: system_init_def new_relay_def numeral_2_eq_2)
  then have "reachable system_init ?step (online_relay sample_config, ?ws)"
    by (rule reachable_step) (rule ss_relay [OF hs_event [OF sample_env_ok, where conn = new_connection and event = ConnectedEvent]],
      simp add: online_event)
  moreover have "env_ok directive_env" using sample_env_ok by (simp add: env_ok_def directive_env_def)
  then have "handler_step sample_outside (online_relay sample_config) r1"
    by (rule hs_directive [where topic = "[]" and message = "[]"])
      (use r1(1) in \<open>simp_all add: handleDirective_def directive_env_update ParseUntypedDirective_def\<close>,
       simp_all add: directive_env_def online_relay_def new_relay_def directive_env_update [unfolded directive_env_def])
  ultimately have reach: "reachable system_init ?step (r1, ?ws)" by (meson reachable_step ss_relay)
  let ?r = "r1\<lparr>r_queue := [invocation sample_config (''t'', ''x'')]\<rparr>"
  have "handler_step sample_outside r1 ?r"
    by (rule hs_command [where topic = "''t''" and message = "''x''"])
      (simp_all add: r1(3-5), simp_all add: online_relay_def handleCommand_def invocation_def r1(3-5))
  with reach have "reachable system_init ?step (?r, ?ws)" by (meson reachable_step ss_relay)
  from that [OF this] b docker r1(5) show thesis by (simp add: Find_def)
qed

section \<open>Properties\<close>

text \<open>
  C2: interleaved workers do not disturb each other. In every state that any interleaving of
  the workers' calls with each other and with the relay's handlers, timers, clean-ups and
  restarts of the connection can reach, there are as many workers as configured and at most as
  many invocations wait; an environment that a worker has acquired and not given back is alive
  and held by no other worker; and so the command a worker is about to run is run, and does not
  fail for a dead environment.
\<close>

theorem interleaved_workers_exclusive:
  assumes "reachable system_init (system_step os) (r, ws)"
  shows "length ws = nat (MaxConcurrent (r_config r)) \<and> length (r_queue r) \<le> length ws \<and>
    (\<forall>i < length ws. \<forall>j < length ws. \<forall>slot slot' env. worker_holds (ws ! i) = Some (slot, env) \<longrightarrow>
       alive (r_world r) env \<and> (worker_holds (ws ! j) = Some (slot', env) \<longrightarrow> j = i)) \<and>
    (\<forall>wk \<in> set ws. \<forall>ins invoke request b eng env c. wk_job wk = Some (ins, invoke, Executing request b eng env c) \<longrightarrow>
       (\<exists>result w. run_env os env c (r_world r) = Ret ((result, None), w)))"
proof -
  note ok = system_okD [OF relay_workers.reachable_inv [OF assms]]
  have held: "alive (r_world r) env" if "i < length ws" "worker_holds (ws ! i) = Some (slot, env)" for i slot env
    using ok(3) [OF that] by (simp add: lease_def)
  have "\<exists>result w. run_env os env c (r_world r) = Ret ((result, None), w)"
    if wk: "wk \<in> set ws" "wk_job wk = Some (ins, invoke, Executing request b eng env c)" for wk ins invoke request b eng env c
  proof -
    from wk obtain i where "i < length ws" "worker_holds (ws ! i) = Some (engine_slot eng (PipelineID request) b, env)"
      by (auto simp: in_set_conv_nth worker_holds_def)
    from held [OF this] show ?thesis by (rule run_env_alive)
  qed
  moreover have "length (r_queue r) \<le> length ws" using ok(1,2) by (simp add: relay_ok_def)
  ultimately show ?thesis using ok(2,4) held by blast
qed

theorem interleaved_workers_exclusive_witness:
  "\<exists>r ws slot env. reachable system_init (system_step sample_outside) (r, ws) \<and> worker_holds (ws ! 0) = Some (slot, env) \<and>
     alive (r_world r) env \<and> length ws = 2"
proof -
  obtain r b where r: "reachable system_init (system_step sample_outside) (r, [idle_worker, idle_worker])"
    "r_queue r = [invocation sample_config (''t'', ''x'')]" "Find ''foo'' (r_catalog r) = Some b" "Docker b = None" "r_config r = sample_config"
    by (rule sample_system)
  let ?i = "invocation sample_config (''t'', ''x'')" and ?r = "r\<lparr>r_queue := []\<rparr>"
  let ?ws = "\<lambda>st. [\<lparr>wk_decoder = Some NewJSONDecoder, wk_job = Some (foo_inputs, ?i, st)\<rparr>, idle_worker]"
  have eng: "EngineForBundle sample_config b = Ret (Inr (Native_Eng sample_config :: unit engine))"
    using r(4) by (simp add: EngineForBundle_def IsDocker_def GetEngine_def NewNativeEngine_def)
  have "system_step sample_outside (r, [idle_worker, idle_worker]) (?r, ?ws Decoding)"
    using ws_take [of 0 "[idle_worker, idle_worker]" r ?i "[]" sample_outside foo_inputs] r(2)
    by (intro ss_worker) (simp add: take_job_def idle_worker_def)
  moreover have work: "system_step sample_outside (r', ?ws st) (worker_effect ww r', ?ws st')"
    if "stage_step sample_outside foo_inputs ?i st (NewJSONDecoder, worker_view r') = Ret (st', (NewJSONDecoder, ww))" "\<not> is_finished st'" for st st' r' ww
    using ws_work [of 0 "?ws st" NewJSONDecoder foo_inputs ?i st sample_outside r' st' NewJSONDecoder ww] that
    by (intro ss_worker) (simp add: next_job_def)
  have same: "worker_effect (worker_view ?r) ?r = ?r" by (simp add: worker_effect_def worker_view_def)
  have "system_step sample_outside (?r, ?ws Decoding) (?r, ?ws (Finding foo_request))"
    using work [of Decoding ?r "Finding foo_request" "worker_view ?r"] Parse_foo
    by (simp add: same Decode_def NewJSONDecoder_def foo_inputs_def)
  moreover have "system_step sample_outside (?r, ?ws (Finding foo_request)) (?r, ?ws (Acquiring foo_request b (Native_Eng sample_config)))"
  proof -
    have "stage_step sample_outside foo_inputs ?i (Finding foo_request) (NewJSONDecoder, worker_view ?r) =
        Ret (Acquiring foo_request b (Native_Eng sample_config), (NewJSONDecoder, worker_view ?r))"
      using eng r(3) by (simp add: find_engine_def worker_view_def BundleName_def foo_request_def invocation_def)
    from work [OF this] show ?thesis by (simp add: same)
  qed
  moreover obtain env w where new: "native_NewEnvironment sample_outside b (r_world r) = Ret (Inr env, w)"
    by (simp add: native_NewEnvironment_def CreateEnvironment_def native_init_def alloc_env_def Let_def)
  have "system_step sample_outside (?r, ?ws (Acquiring foo_request b (Native_Eng sample_config)))
      (worker_effect ((worker_view ?r)\<lparr>ww_engines := w\<rparr>) ?r, ?ws (Preparing foo_request b (Native_Eng sample_config) env))"
    using new by (intro work) (simp_all add: worker_view_def)
  ultimately obtain r' where reach: "reachable system_init (system_step sample_outside) (r', ?ws (Preparing foo_request b (Native_Eng sample_config) env))"
    using r(1) by (meson reachable_step)
  moreover have hold: "worker_holds (?ws (Preparing foo_request b (Native_Eng sample_config) env) ! 0) = Some (None, env)"
    by (simp add: worker_holds_def)
  moreover have "alive (r_world r') env"
    using interleaved_workers_exclusive [OF reach, THEN conjunct2, THEN conjunct2, THEN conjunct1, rule_format, of 0 0] hold by simp
  moreover have "length (?ws (Preparing foo_request b (Native_Eng sample_config) env)) = 2" by simp
  ultimately show ?thesis by blast
qed





end
