(* ===== verification/Circuit_Worker.thy ===== *)
theory Circuit_Worker
  imports Circuit_Env
begin

text \<open>
  The goroutine behind an environment, \<^verbatim>\<open>circuit/native_environment.go\<close> and
  \<^verbatim>\<open>docker_environment.go\<close>. \<^verbatim>\<open>Run\<close> does not run the command itself: it sends the request over an
  unbuffered channel to \<^verbatim>\<open>runWorker\<close> and waits for the result on another. Here every channel
  operation is a step, with any number of callers, and the theorems show when the calls return
  what \<open>env_Run\<close>, the atomic operation of the other theories, returns.
\<close>

section \<open>The model\<close>

text \<open>Where \<^verbatim>\<open>runWorker\<close> is: in its \<^verbatim>\<open>select\<close>, running a request, or sending a result.\<close>

datatype env_worker =
    Selecting
  | Serving ExecRequest
  | Replying ExecResult

text \<open>
  Where a call of \<^verbatim>\<open>Run\<close> or \<^verbatim>\<open>Shutdown\<close> is, with its local variables: before the test of
  \<^verbatim>\<open>isDead\<close>, at a channel operation, between two statements, or returned.
\<close>

datatype env_call =
    Calling_Run ExecRequest
  | Sending_Request ExecRequest
  | Receiving_Result ExecRequest
  | Returned_Run ExecRequest ExecResult "error option"
  | Calling_Shutdown
  | Sending_Control
  | Removing_Container
  | Setting_Dead "error option"
  | Returned_Shutdown "error option"

record ('c, 'w) circuit =
  cx_env :: "'c environment"
  cx_worker :: env_worker
  cx_calls :: "env_call list"
  cx_world :: 'w

text \<open>
  A send on an unbuffered channel and the matching receive are one step of both sides. The
  \<^verbatim>\<open>break\<close> in the case for the control channel leaves the \<^verbatim>\<open>select\<close> and not the loop, so the
  goroutine is in its \<^verbatim>\<open>select\<close> again.
\<close>

inductive circuit_step :: "('c, 'w) outside \<Rightarrow> ('c, 'w) circuit \<Rightarrow> ('c, 'w) circuit \<Rightarrow> bool" for os where
  cs_run: "i < length (cx_calls s) \<Longrightarrow> cx_calls s ! i = Calling_Run r \<Longrightarrow>
     circuit_step os s (s\<lparr>cx_calls := (cx_calls s)[i :=
       if e_isDead (cx_env s) then Returned_Run r EmptyExecResult (Some ErrorDeadEnvironment) else Sending_Request r]\<rparr>)"
| cs_request: "i < length (cx_calls s) \<Longrightarrow> cx_calls s ! i = Sending_Request r \<Longrightarrow> cx_worker s = Selecting \<Longrightarrow>
     circuit_step os s (s\<lparr>cx_worker := Serving r, cx_calls := (cx_calls s)[i := Receiving_Result r]\<rparr>)"
| cs_serve: "cx_worker s = Serving r \<Longrightarrow> DriverRun os (cx_env s) r (cx_world s) = (result, w) \<Longrightarrow>
     circuit_step os s (s\<lparr>cx_worker := Replying result, cx_world := w\<rparr>)"
| cs_result: "i < length (cx_calls s) \<Longrightarrow> cx_calls s ! i = Receiving_Result r \<Longrightarrow> cx_worker s = Replying result \<Longrightarrow>
     circuit_step os s (s\<lparr>cx_worker := Selecting, cx_calls := (cx_calls s)[i := Returned_Run r result None]\<rparr>)"
| cs_shutdown: "i < length (cx_calls s) \<Longrightarrow> cx_calls s ! i = Calling_Shutdown \<Longrightarrow>
     circuit_step os s (s\<lparr>cx_calls := (cx_calls s)[i :=
       if e_isDead (cx_env s) then Returned_Shutdown (Some ErrorDeadEnvironment) else Sending_Control]\<rparr>)"
| cs_control: "i < length (cx_calls s) \<Longrightarrow> cx_calls s ! i = Sending_Control \<Longrightarrow> cx_worker s = Selecting \<Longrightarrow>
     circuit_step os s (s\<lparr>cx_worker := Selecting, cx_calls := (cx_calls s)[i := Removing_Container]\<rparr>)"
| cs_remove: "i < length (cx_calls s) \<Longrightarrow> cx_calls s ! i = Removing_Container \<Longrightarrow>
     (err, w) = (case (e_Kind (cx_env s), e_Conn (cx_env s)) of
        (DockerKind, Some conn) \<Rightarrow> ContainerRemove os conn (e_containerID (cx_env s)) (cx_world s)
      | _ \<Rightarrow> (None, cx_world s)) \<Longrightarrow>
     circuit_step os s (s\<lparr>cx_calls := (cx_calls s)[i := Setting_Dead err], cx_world := w\<rparr>)"
| cs_dead: "i < length (cx_calls s) \<Longrightarrow> cx_calls s ! i = Setting_Dead err \<Longrightarrow>
     circuit_step os s (s\<lparr>cx_env := (cx_env s)\<lparr>e_isDead := True\<rparr>, cx_calls := (cx_calls s)[i := Returned_Shutdown err]\<rparr>)"

fun call_made :: "env_call \<Rightarrow> bool" where
  "call_made (Calling_Run r) = True"
| "call_made Calling_Shutdown = True"
| "call_made c = False"

fun call_returned :: "env_call \<Rightarrow> bool" where
  "call_returned (Returned_Run r result err) = True"
| "call_returned (Returned_Shutdown err) = True"
| "call_returned c = False"

text \<open>A new environment, and the calls that will be made; each may start at any time.\<close>

definition circuit_init :: "'c environment \<Rightarrow> ('c, 'w) circuit \<Rightarrow> bool" where
  "circuit_init e s \<longleftrightarrow> cx_env s = e \<and> cx_worker s = Selecting \<and> list_all call_made (cx_calls s)"

section \<open>Laws\<close>

text \<open>A result that the driver gave for a request, at some moment, in this environment.\<close>

definition driver_result :: "('c, 'w) outside \<Rightarrow> 'c environment \<Rightarrow> ExecRequest \<Rightarrow> ExecResult \<Rightarrow> bool" where
  "driver_result os e r result \<longleftrightarrow> (\<exists>dead w. fst (DriverRun os (e\<lparr>e_isDead := dead\<rparr>) r w) = result)"

text \<open>
  The goroutine serves one request at a time: while it is in its \<^verbatim>\<open>select\<close> no call waits for a
  result, and otherwise exactly one does, the one whose request it has.
\<close>

fun worker_serves :: "('c, 'w) outside \<Rightarrow> 'c environment \<Rightarrow> env_worker \<Rightarrow> env_call list \<Rightarrow> bool" where
  "worker_serves os e Selecting calls = (\<forall>i < length calls. \<forall>r. calls ! i \<noteq> Receiving_Result r)"
| "worker_serves os e (Serving r) calls =
     (\<exists>i < length calls. calls ! i = Receiving_Result r \<and> (\<forall>j < length calls. \<forall>r'. calls ! j = Receiving_Result r' \<longrightarrow> j = i))"
| "worker_serves os e (Replying result) calls =
     (\<exists>i < length calls. \<exists>r. calls ! i = Receiving_Result r \<and> driver_result os e r result \<and>
        (\<forall>j < length calls. \<forall>r'. calls ! j = Receiving_Result r' \<longrightarrow> j = i))"

fun call_ok :: "('c, 'w) outside \<Rightarrow> 'c environment \<Rightarrow> env_call \<Rightarrow> bool" where
  "call_ok os e (Returned_Run r result err) =
     ((err = None \<and> driver_result os e r result) \<or> (err = Some ErrorDeadEnvironment \<and> result = EmptyExecResult))"
| "call_ok os e c = True"

definition circuit_ok :: "('c, 'w) outside \<Rightarrow> 'c environment \<Rightarrow> ('c, 'w) circuit \<Rightarrow> bool" where
  "circuit_ok os e s \<longleftrightarrow> (\<exists>dead. cx_env s = e\<lparr>e_isDead := dead\<rparr>) \<and> worker_serves os e (cx_worker s) (cx_calls s) \<and>
     list_all (call_ok os e) (cx_calls s)"

text \<open>A call that is not waiting for a result, and does not begin to wait, does not matter to the goroutine.\<close>

lemma worker_serves_update:
  assumes "worker_serves os e wk calls" and "\<And>r. calls ! i \<noteq> Receiving_Result r" and "\<And>r. c \<noteq> Receiving_Result r"
  shows "worker_serves os e wk (calls[i := c])"
proof -
  have same: "calls[i := c] ! j = Receiving_Result r \<longleftrightarrow> calls ! j = Receiving_Result r" if "j < length calls" for j r
    using assms(2,3) that by (cases "j = i") auto
  show ?thesis using assms(1) by (cases wk) (simp_all add: same cong: conj_cong)
qed

lemma circuit_step_ok: "circuit_step os s s' \<Longrightarrow> circuit_ok os e s \<Longrightarrow> circuit_ok os e s'"
proof (induction rule: circuit_step.induct)
  case (cs_run i s r)
  let ?c = "if e_isDead (cx_env s) then Returned_Run r EmptyExecResult (Some ErrorDeadEnvironment) else Sending_Request r"
  have "worker_serves os e (cx_worker s) ((cx_calls s)[i := ?c])"
    using cs_run by (intro worker_serves_update) (auto simp: circuit_ok_def)
  with cs_run(3) show ?case by (simp add: circuit_ok_def list_all_update)
next
  case (cs_request i s r)
  have none: "\<forall>j < length (cx_calls s). \<forall>r'. cx_calls s ! j \<noteq> Receiving_Result r'"
    using cs_request(3,4) by (simp add: circuit_ok_def)
  then have "worker_serves os e (Serving r) ((cx_calls s)[i := Receiving_Result r])"
    using cs_request(1) by (auto simp: nth_list_update intro!: exI [of _ i])
  with cs_request(4) show ?case by (simp add: circuit_ok_def list_all_update)
next
  case (cs_serve s r result w)
  then obtain dead where "cx_env s = e\<lparr>e_isDead := dead\<rparr>" by (auto simp: circuit_ok_def)
  with cs_serve(2) have "driver_result os e r result" unfolding driver_result_def by (metis fst_conv)
  with cs_serve show ?case by (auto simp: circuit_ok_def)
next
  case (cs_result i s r result)
  then obtain r' where one: "driver_result os e r' result" "cx_calls s ! i = Receiving_Result r'"
    "\<And>j r'. j < length (cx_calls s) \<Longrightarrow> cx_calls s ! j = Receiving_Result r' \<Longrightarrow> j = i"
    unfolding circuit_ok_def by (metis worker_serves.simps(3))
  then have "worker_serves os e Selecting ((cx_calls s)[i := Returned_Run r result None])"
    using nth_list_update [OF cs_result(1)] by (auto split: if_splits)
  with cs_result(2,4) one(1,2) show ?case by (simp add: circuit_ok_def list_all_update)
next
  case (cs_shutdown i s)
  let ?c = "if e_isDead (cx_env s) then Returned_Shutdown (Some ErrorDeadEnvironment) else Sending_Control"
  have "worker_serves os e (cx_worker s) ((cx_calls s)[i := ?c])"
    using cs_shutdown by (intro worker_serves_update) (auto simp: circuit_ok_def)
  with cs_shutdown(3) show ?case by (simp add: circuit_ok_def list_all_update)
next
  case (cs_control i s)
  then have "worker_serves os e (cx_worker s) ((cx_calls s)[i := Removing_Container])"
    by (intro worker_serves_update) (auto simp: circuit_ok_def)
  with cs_control(3,4) show ?case by (simp add: circuit_ok_def list_all_update)
next
  case (cs_remove i s err w)
  then have "worker_serves os e (cx_worker s) ((cx_calls s)[i := Setting_Dead err])"
    by (intro worker_serves_update) (auto simp: circuit_ok_def)
  with cs_remove(4) show ?case by (simp add: circuit_ok_def list_all_update)
next
  case (cs_dead i s err)
  then have "worker_serves os e (cx_worker s) ((cx_calls s)[i := Returned_Shutdown err])"
    by (intro worker_serves_update) (auto simp: circuit_ok_def)
  with cs_dead(3) show ?case by (auto simp: circuit_ok_def list_all_update)
qed

lemma circuit_init_ok: "circuit_init e s \<Longrightarrow> circuit_ok os e s"
proof -
  assume init: "circuit_init e s"
  then have made: "call_made c" if "c \<in> set (cx_calls s)" for c using that by (simp add: circuit_init_def list_all_iff)
  have "cx_calls s ! i \<noteq> Receiving_Result r" if "i < length (cx_calls s)" for i r using made [OF nth_mem [OF that]] by auto
  moreover have "call_ok os e c" if "c \<in> set (cx_calls s)" for c using made [OF that] by (cases c) simp_all
  moreover have "\<exists>dead. cx_env s = e\<lparr>e_isDead := dead\<rparr>" using init by (intro exI [of _ "e_isDead e"]) (simp add: circuit_init_def)
  ultimately show ?thesis using init unfolding circuit_ok_def circuit_init_def by (simp add: list_all_iff)
qed

interpretation circuit_sys: invariant_system "circuit_init e" "circuit_step os" "circuit_ok os e" for os e
  by unfold_locales (auto intro: circuit_init_ok circuit_step_ok)

subsection \<open>Atomic calls\<close>

text \<open>
  The specification: a call of \<^verbatim>\<open>Run\<close> has not happened yet, or has happened, at once, with the
  result of \<open>env_Run\<close>.
\<close>

datatype atomic_call = Pending_Run ExecRequest | Done_Run ExecRequest ExecResult "error option" | No_Run

inductive atomic_step ::
    "('c, 'w) outside \<Rightarrow> 'c environment \<Rightarrow> atomic_call list \<times> 'w \<Rightarrow> atomic_call list \<times> 'w \<Rightarrow> bool" for os e where
  as_run: "i < length calls \<Longrightarrow> calls ! i = Pending_Run r \<Longrightarrow> env_Run os r e w = ((result, err), w') \<Longrightarrow>
     atomic_step os e (calls, w) (calls[i := Done_Run r result err], w')"

text \<open>What a state of the channels stands for: a call has happened once the driver has run.\<close>

fun abstract_call :: "env_worker \<Rightarrow> env_call \<Rightarrow> atomic_call" where
  "abstract_call wk (Calling_Run r) = Pending_Run r"
| "abstract_call wk (Sending_Request r) = Pending_Run r"
| "abstract_call (Replying result) (Receiving_Result r) = Done_Run r result None"
| "abstract_call wk (Receiving_Result r) = Pending_Run r"
| "abstract_call wk (Returned_Run r result err) = Done_Run r result err"
| "abstract_call wk c = No_Run"

fun run_call :: "bool \<Rightarrow> env_call \<Rightarrow> bool" where
  "run_call dead (Calling_Run r) = True"
| "run_call dead (Sending_Request r) = (\<not> dead)"
| "run_call dead (Receiving_Result r) = True"
| "run_call dead (Returned_Run r result err) = True"
| "run_call dead c = False"

definition abstract_calls :: "('c, 'w) circuit \<Rightarrow> atomic_call list \<times> 'w" where
  "abstract_calls s = (map (abstract_call (cx_worker s)) (cx_calls s), cx_world s)"

text \<open>Without \<^verbatim>\<open>Shutdown\<close> the environment stays as it was, and a request is sent only to a live one.\<close>

definition only_runs :: "'c environment \<Rightarrow> ('c, 'w) circuit \<Rightarrow> bool" where
  "only_runs e s \<longleftrightarrow> cx_env s = e \<and> list_all (run_call (e_isDead e)) (cx_calls s) \<and> (e_isDead e \<longrightarrow> cx_worker s = Selecting)"

lemma abstract_no_reply:
  "(\<And>result. wk \<noteq> Replying result) \<Longrightarrow> abstract_call wk c = abstract_call Selecting c"
  "(\<And>r. c \<noteq> Receiving_Result r) \<Longrightarrow> abstract_call wk c = abstract_call Selecting c"
proof -
  show "abstract_call wk c = abstract_call Selecting c" if "\<And>result. wk \<noteq> Replying result"
    using that by (cases wk; cases c) simp_all
  show "abstract_call wk c = abstract_call Selecting c" if "\<And>r. c \<noteq> Receiving_Result r"
    using that by (cases c) (simp_all, blast)
qed

lemma abstract_others:
  assumes "\<And>j r. j < length calls \<Longrightarrow> calls ! j = Receiving_Result r \<Longrightarrow> j = i" and "j < length calls" and "j \<noteq> i"
  shows "abstract_call wk (calls ! j) = abstract_call wk' (calls ! j)"
proof -
  have "calls ! j \<noteq> Receiving_Result r" for r using assms by blast
  then show ?thesis using abstract_no_reply(2) [of "calls ! j" wk] abstract_no_reply(2) [of "calls ! j" wk'] by metis
qed

lemma only_runs_nth: "only_runs e s \<Longrightarrow> i < length (cx_calls s) \<Longrightarrow> run_call (e_isDead e) (cx_calls s ! i)"
  by (simp add: only_runs_def list_all_length)

lemma only_runs_step: "circuit_step os s s' \<Longrightarrow> only_runs e s \<Longrightarrow> only_runs e s'"
proof (induction rule: circuit_step.induct)
  case (cs_run i s r)
  then show ?case by (simp add: only_runs_def list_all_update)
next
  case (cs_request i s r)
  from only_runs_nth [OF cs_request(4,1)] cs_request(2,4) show ?case by (simp add: only_runs_def list_all_update)
next
  case (cs_serve s r result w)
  then show ?case by (auto simp: only_runs_def)
next
  case (cs_result i s r result)
  then show ?case by (cases "e_isDead e") (simp_all add: only_runs_def list_all_update)
qed (auto dest: only_runs_nth)

text \<open>The request of a call of \<^verbatim>\<open>Run\<close> does not change.\<close>

fun call_request :: "env_call \<Rightarrow> ExecRequest option" where
  "call_request (Calling_Run r) = Some r"
| "call_request (Sending_Request r) = Some r"
| "call_request (Receiving_Result r) = Some r"
| "call_request (Returned_Run r result err) = Some r"
| "call_request c = None"

lemma circuit_step_request: "circuit_step os s s' \<Longrightarrow> map call_request (cx_calls s') = map call_request (cx_calls s)"
  by (induction rule: circuit_step.induct) (simp_all add: map_update_same)

lemma circuit_simulation:
  assumes "circuit_step os s s'" and "circuit_ok os e s" and "only_runs e s"
  shows "abstract_calls s' = abstract_calls s \<or> atomic_step os e (abstract_calls s) (abstract_calls s')"
  using assms
proof (induction rule: circuit_step.induct)
  case (cs_run i s r)
  then have e: "cx_env s = e" by (simp add: only_runs_def)
  show ?case
  proof (cases "e_isDead e")
    case True
    then have "env_Run os r e (cx_world s) = ((EmptyExecResult, Some ErrorDeadEnvironment), cx_world s)" by (simp add: env_Run_def)
    from as_run [OF _ _ this, of i "map (abstract_call (cx_worker s)) (cx_calls s)"] cs_run(1,2) True e
    show ?thesis by (simp add: abstract_calls_def map_update)
  next
    case False
    then show ?thesis using cs_run(1,2) e by (simp add: abstract_calls_def map_update_same)
  qed
next
  case (cs_request i s r)
  then show ?case by (simp add: abstract_calls_def map_update_same abstract_no_reply(1) [of "Serving r"])
next
  case (cs_serve s r result w)
  then obtain i where i: "i < length (cx_calls s)" "cx_calls s ! i = Receiving_Result r"
    "\<And>j r'. j < length (cx_calls s) \<Longrightarrow> cx_calls s ! j = Receiving_Result r' \<Longrightarrow> j = i"
    by (auto simp: circuit_ok_def)
  let ?calls = "map (abstract_call (Serving r)) (cx_calls s)"
  have after: "map (abstract_call (Replying result)) (cx_calls s) = ?calls[i := Done_Run r result None]"
  proof (rule nth_equalityI)
    fix j assume "j < length (map (abstract_call (Replying result)) (cx_calls s))"
    then show "map (abstract_call (Replying result)) (cx_calls s) ! j = ?calls[i := Done_Run r result None] ! j"
      using i(1,2) abstract_others [OF i(3), where j = j and wk = "Serving r" and wk' = "Replying result"] by (cases "j = i") simp_all
  qed simp
  have "\<not> e_isDead e" "cx_env s = e" using cs_serve(1,4) by (auto simp: only_runs_def)
  then have "env_Run os r e (cx_world s) = ((result, None), w)" using cs_serve(2) by (simp add: env_Run_def)
  from as_run [OF _ _ this, of i ?calls] i(1,2) cs_serve(1) after show ?case by (simp add: abstract_calls_def)
next
  case (cs_result i s r result)
  then have i: "\<And>j r'. j < length (cx_calls s) \<Longrightarrow> cx_calls s ! j = Receiving_Result r' \<Longrightarrow> j = i"
    unfolding circuit_ok_def by (metis worker_serves.simps(3))
  have "map (abstract_call Selecting) ((cx_calls s)[i := Returned_Run r result None]) = map (abstract_call (Replying result)) (cx_calls s)"
  proof (rule nth_equalityI)
    fix j assume "j < length (map (abstract_call Selecting) ((cx_calls s)[i := Returned_Run r result None]))"
    then show "map (abstract_call Selecting) ((cx_calls s)[i := Returned_Run r result None]) ! j = map (abstract_call (Replying result)) (cx_calls s) ! j"
      using cs_result(1,2) abstract_others [OF i, where j = j and wk = Selecting and wk' = "Replying result"] by (cases "j = i") simp_all
  qed simp
  then show ?case using cs_result(3) by (simp add: abstract_calls_def)
qed (auto dest: only_runs_nth)

subsection \<open>Calls return\<close>

fun call_rank :: "env_call \<Rightarrow> nat" where
  "call_rank (Calling_Run r) = 4"
| "call_rank (Sending_Request r) = 3"
| "call_rank (Receiving_Result r) = 1"
| "call_rank (Returned_Run r result err) = 0"
| "call_rank Calling_Shutdown = 4"
| "call_rank Sending_Control = 3"
| "call_rank Removing_Container = 2"
| "call_rank (Setting_Dead err) = 1"
| "call_rank (Returned_Shutdown err) = 0"

definition circuit_work :: "('c, 'w) circuit \<Rightarrow> nat" where
  "circuit_work s = sum_list (map call_rank (cx_calls s)) + (case cx_worker s of Serving r \<Rightarrow> 1 | _ \<Rightarrow> 0)"

lemma circuit_step_work: "circuit_step os s s' \<Longrightarrow> circuit_work s' < circuit_work s"
proof (induction rule: circuit_step.induct)
  case (cs_run i s r)
  then show ?case using sum_list_map_update [of i "cx_calls s" call_rank
    "if e_isDead (cx_env s) then Returned_Run r EmptyExecResult (Some ErrorDeadEnvironment) else Sending_Request r"]
    by (simp add: circuit_work_def split: if_splits)
next
  case (cs_request i s r)
  then show ?case using sum_list_map_update [of i "cx_calls s" call_rank "Receiving_Result r"] by (simp add: circuit_work_def)
next
  case (cs_serve s r result w)
  then show ?case by (simp add: circuit_work_def)
next
  case (cs_result i s r result)
  then show ?case using sum_list_map_update [of i "cx_calls s" call_rank "Returned_Run r result None"] by (simp add: circuit_work_def)
next
  case (cs_shutdown i s)
  then show ?case using sum_list_map_update [of i "cx_calls s" call_rank
    "if e_isDead (cx_env s) then Returned_Shutdown (Some ErrorDeadEnvironment) else Sending_Control"]
    by (simp add: circuit_work_def split: if_splits)
next
  case (cs_control i s)
  then show ?case using sum_list_map_update [of i "cx_calls s" call_rank Removing_Container] by (simp add: circuit_work_def)
next
  case (cs_remove i s err w)
  then show ?case using sum_list_map_update [of i "cx_calls s" call_rank "Setting_Dead err"] by (simp add: circuit_work_def)
next
  case (cs_dead i s err)
  then show ?case using sum_list_map_update [of i "cx_calls s" call_rank "Returned_Shutdown err"] by (simp add: circuit_work_def)
qed

lemma circuit_progress:
  assumes "circuit_ok os e s" and "\<nexists>s'. circuit_step os s s'"
  shows "cx_worker s = Selecting \<and> list_all call_returned (cx_calls s)"
proof -
  have sel: "cx_worker s = Selecting"
  proof (cases "cx_worker s")
    case (Serving r)
    then show ?thesis using assms(2) cs_serve by (metis surj_pair)
  next
    case (Replying result)
    then obtain i r where "i < length (cx_calls s)" "cx_calls s ! i = Receiving_Result r" using assms(1) by (auto simp: circuit_ok_def)
    then show ?thesis using assms(2) cs_result Replying by metis
  qed
  moreover have "call_returned (cx_calls s ! i)" if "i < length (cx_calls s)" for i
  proof (cases "cx_calls s ! i")
    case (Receiving_Result r)
    then show ?thesis using assms(1) that sel by (simp add: circuit_ok_def)
  next
    case Removing_Container
    then show ?thesis using assms(2) cs_remove [OF that Removing_Container] by (metis surj_pair)
  next
    case (Calling_Run r)
    then show ?thesis using assms(2) cs_run [OF that] by blast
  next
    case (Sending_Request r)
    then show ?thesis using assms(2) cs_request [OF that _ sel] by blast
  next
    case Calling_Shutdown
    then show ?thesis using assms(2) cs_shutdown [OF that] by blast
  next
    case Sending_Control
    then show ?thesis using assms(2) cs_control [OF that _ sel] by blast
  next
    case (Setting_Dead err)
    then show ?thesis using assms(2) cs_dead [OF that] by blast
  qed simp_all
  ultimately show ?thesis by (simp add: list_all_length)
qed

text \<open>An environment that has been shut down, with no call that still sends or waits for a result.\<close>

fun at_channel :: "env_call \<Rightarrow> bool" where
  "at_channel (Sending_Request r) = True"
| "at_channel (Receiving_Result r) = True"
| "at_channel Sending_Control = True"
| "at_channel c = False"

definition dead_and_quiet :: "('c, 'w) circuit \<Rightarrow> bool" where
  "dead_and_quiet s \<longleftrightarrow> e_isDead (cx_env s) \<and> cx_worker s = Selecting \<and> list_all (\<lambda>c. \<not> at_channel c) (cx_calls s)"

lemma dead_step: "circuit_step os s s' \<Longrightarrow> dead_and_quiet s \<Longrightarrow> dead_and_quiet s'"
proof (induction rule: circuit_step.induct)
  case (cs_request i s r)
  then show ?case by (auto simp: dead_and_quiet_def list_all_length)
next
  case (cs_control i s)
  then show ?case by (auto simp: dead_and_quiet_def list_all_length)
qed (simp_all add: dead_and_quiet_def list_all_update)

lemma dead_worker_waits: "dead_and_quiet s \<Longrightarrow> (circuit_step os)\<^sup>*\<^sup>* s s' \<Longrightarrow> cx_worker s' = Selecting"
proof -
  have "(circuit_step os)\<^sup>*\<^sup>* s s' \<Longrightarrow> dead_and_quiet s \<Longrightarrow> dead_and_quiet s'"
    by (induction rule: rtranclp_induct) (auto intro: dead_step)
  then show "dead_and_quiet s \<Longrightarrow> (circuit_step os)\<^sup>*\<^sup>* s s' \<Longrightarrow> cx_worker s' = Selecting" by (simp add: dead_and_quiet_def)
qed

section \<open>Properties\<close>

text \<open>A driver whose commands succeed, and a native environment.\<close>

definition sample_driver :: "(unit, unit) outside" where
  "sample_driver = \<lparr>Getenv = (\<lambda>_. []), DefaultVersion = [], NewEnvClient = (\<lambda>w. (Inr (), w)),
     NewClient = (\<lambda>_ _ w. (Inr (), w)), Ping = (\<lambda>_ w. (Inr [], w)), ClientVersion = (\<lambda>_. []),
     UpdateClientVersion = (\<lambda>_ c. c), ImageInspectWithRaw = (\<lambda>_ _ w. (([], None), w)),
     ImagePull = (\<lambda>_ _ _ w. (None, w)), ImageRemove = (\<lambda>_ _ w. (None, w)), ContainerCreate = (\<lambda>_ _ _ w. (Inr [], w)),
     ContainerStart = (\<lambda>_ _ w. (None, w)), ContainerRemove = (\<lambda>_ _ w. (None, w)), ContainerList = (\<lambda>_ _ w. (Inr [], w)),
     RegistryLogin = (\<lambda>_ _ w. (None, w)), EncodeAuth = (\<lambda>_. Inr []),
     DriverRun = (\<lambda>_ _ w. (EmptyExecResult\<lparr>Success := Some True\<rparr>, w))\<rparr>"

definition sample_native :: "unit environment" where
  "sample_native = \<lparr>e_Kind = NativeKind, e_Bundle = ''b'', e_Conn = None, e_Image = [], e_Tag = [], e_containerID = [],
     e_userData = None, e_isDead = False\<rparr>"

text \<open>
  C18: the channels implement the atomic run. With any number of concurrent callers of \<^verbatim>\<open>Run\<close>, and
  under every interleaving of their channel operations with the goroutine's, the results that
  have been produced so far, and the state of the outside world, are those of some order in
  which the requests are executed one after the other, each at once, by \<open>env_Run\<close>; and every
  call gets the result of its own request.
\<close>

theorem channels_refine_env_Run:
  assumes "reachable (\<lambda>s. s = \<lparr>cx_env = e, cx_worker = Selecting, cx_calls = map Calling_Run rs, cx_world = w\<rparr>) (circuit_step os) s"
  shows "(atomic_step os e)\<^sup>*\<^sup>* (map Pending_Run rs, w) (abstract_calls s) \<and> length (cx_calls s) = length rs \<and>
    (\<forall>i < length rs. \<forall>r result err. cx_calls s ! i = Returned_Run r result err \<longrightarrow> r = rs ! i)"
proof -
  have "(atomic_step os e)\<^sup>*\<^sup>* (map Pending_Run rs, w) (abstract_calls s) \<and> circuit_ok os e s \<and> only_runs e s \<and> map call_request (cx_calls s) = map Some rs"
    using assms
  proof (induction rule: reachable.induct)
    case (reachable_init s)
    then have "circuit_init e s" by (simp add: circuit_init_def list_all_iff)
    with reachable_init circuit_init_ok show ?case
      by (auto simp: abstract_calls_def only_runs_def list_all_iff comp_def)
  next
    case (reachable_step s t)
    then show ?case using circuit_simulation [of os s t e] circuit_step_ok only_runs_step circuit_step_request
      by (metis rtranclp.rtrancl_into_rtrancl)
  qed
  moreover from this have "length (cx_calls s) = length rs" by (metis length_map)
  moreover have "r = rs ! i" if "i < length rs" "cx_calls s ! i = Returned_Run r result err" "map call_request (cx_calls s) = map Some rs"
    for i r result err
  proof -
    have "map call_request (cx_calls s) ! i = map Some rs ! i" using that(3) by simp
    with that(1,2) map_eq_imp_length_eq [OF that(3)] show ?thesis by simp
  qed
  ultimately show ?thesis by blast
qed

theorem channels_refine_env_Run_witness:
  "\<exists>s :: (unit, unit) circuit. cx_calls s = [Returned_Run NewExecRequest (EmptyExecResult\<lparr>Success := Some True\<rparr>) None] \<and>
     (atomic_step sample_driver sample_native)\<^sup>*\<^sup>* ([Pending_Run NewExecRequest], ()) (abstract_calls s)"
proof -
  let ?r = NewExecRequest and ?res = "EmptyExecResult\<lparr>Success := Some True\<rparr>"
  let ?s = "\<lambda>wk c. \<lparr>cx_env = sample_native, cx_worker = wk, cx_calls = [c], cx_world = ()\<rparr>"
  let ?init = "\<lambda>s. s = \<lparr>cx_env = sample_native, cx_worker = Selecting, cx_calls = map Calling_Run [?r], cx_world = ()\<rparr>"
  have "reachable ?init (circuit_step sample_driver) (?s Selecting (Calling_Run ?r))" by (rule reachable_init) simp
  moreover have "circuit_step sample_driver (?s Selecting (Calling_Run ?r)) (?s Selecting (Sending_Request ?r))"
    using cs_run [of 0 "?s Selecting (Calling_Run ?r)" ?r sample_driver] by (simp add: sample_native_def)
  moreover have "circuit_step sample_driver (?s Selecting (Sending_Request ?r)) (?s (Serving ?r) (Receiving_Result ?r))"
    using cs_request [of 0 "?s Selecting (Sending_Request ?r)" ?r sample_driver] by simp
  moreover have "circuit_step sample_driver (?s (Serving ?r) (Receiving_Result ?r)) (?s (Replying ?res) (Receiving_Result ?r))"
    using cs_serve [of "?s (Serving ?r) (Receiving_Result ?r)" ?r sample_driver ?res "()"] by (simp add: sample_driver_def)
  moreover have "circuit_step sample_driver (?s (Replying ?res) (Receiving_Result ?r)) (?s Selecting (Returned_Run ?r ?res None))"
    using cs_result [of 0 "?s (Replying ?res) (Receiving_Result ?r)" ?r ?res sample_driver] by simp
  ultimately have "reachable ?init (circuit_step sample_driver) (?s Selecting (Returned_Run ?r ?res None))" by (meson reachable_step)
  from channels_refine_env_Run [OF this]
  have "cx_calls (?s Selecting (Returned_Run ?r ?res None)) = [Returned_Run ?r ?res None] \<and>
      (atomic_step sample_driver sample_native)\<^sup>*\<^sup>* ([Pending_Run ?r], ()) (abstract_calls (?s Selecting (Returned_Run ?r ?res None)))" by simp
  then show ?thesis by (rule exI)
qed



end
