(* ===== verification/Driver_Codec.thy ===== *)
theory Driver_Codec
  imports Output_Parser
begin

text \<open>
  The wire form of a command's result, \<^verbatim>\<open>circuit-driver/api/result.pb.go\<close>: the generated
  protocol-buffer code that the driver in a container writes results with and the relay reads
  them with. A byte is a character. Numbers are naturals with their width written out: a varint
  carries 64 bits, a length is read into a signed 64-bit integer. The numbers in
  the texts of errors are left out.
\<close>

section \<open>The model\<close>

definition ErrUnexpectedEOF :: error where
  "ErrUnexpectedEOF = ''unexpected EOF''"

definition ErrIntOverflowResult :: error where
  "ErrIntOverflowResult = ''proto: integer overflow''"

definition ErrInvalidLengthResult :: error where
  "ErrInvalidLengthResult = ''proto: negative length found during unmarshaling''"

definition RequiredNotSetError :: error where
  "RequiredNotSetError = ''proto: required field not set''"

function encodeVarintResult :: "nat \<Rightarrow> string" where
  "encodeVarintResult v =
     (if v \<ge> 128 then char_of (v mod 128 + 128) # encodeVarintResult (v div 128) else [char_of v])"
  by pat_completeness auto
termination by (relation "measure id") auto

function sovResult :: "nat \<Rightarrow> nat" where
  "sovResult x = (if x div 128 = 0 then 1 else Suc (sovResult (x div 128)))"
  by pat_completeness auto
termination by (relation "measure id") auto

declare encodeVarintResult.simps [simp del] sovResult.simps [simp del]

text \<open>\<^verbatim>\<open>uint64(*m.Elapsed)\<close>, and an \<^verbatim>\<open>int64\<close> read back from 64 bits.\<close>

definition uint64_of :: "int \<Rightarrow> nat" where
  "uint64_of e = nat (e mod 2 ^ 64)"

definition int64_of :: "nat \<Rightarrow> int" where
  "int64_of v = (if v < 2 ^ 63 then int v else int v - 2 ^ 64)"

text \<open>A byte slice that is nil is left out; a slice that comes from an empty buffer is nil.\<close>

definition bytes_field :: "nat \<Rightarrow> string \<Rightarrow> string" where
  "bytes_field tag s = (if s = [] then [] else char_of tag # encodeVarintResult (length s) @ s)"

definition success_field :: "bool \<Rightarrow> string" where
  "success_field b = [char_of (24 :: nat), char_of (if b then 1 else 0 :: nat)]"

definition elapsed_field :: "int \<Rightarrow> string" where
  "elapsed_field e = char_of (32 :: nat) # encodeVarintResult (uint64_of e)"

definition result_Marshal :: "ExecResult \<Rightarrow> error + string" where
  "result_Marshal m =
     (case Success m of
        None \<Rightarrow> Inl RequiredNotSetError
      | Some b \<Rightarrow>
          (case Elapsed m of
             None \<Rightarrow> Inl RequiredNotSetError
           | Some e \<Rightarrow> Inr (bytes_field 10 (Stdout m) @ bytes_field 18 (Stderr m) @ success_field b @ elapsed_field e)))"

definition result_Size :: "ExecResult \<Rightarrow> nat" where
  "result_Size m =
     (if Stdout m = [] then 0 else 1 + length (Stdout m) + sovResult (length (Stdout m))) +
     (if Stderr m = [] then 0 else 1 + length (Stderr m) + sovResult (length (Stderr m))) +
     (case Success m of None \<Rightarrow> 0 | Some b \<Rightarrow> 2) +
     (case Elapsed m of None \<Rightarrow> 0 | Some e \<Rightarrow> 1 + sovResult (uint64_of e))"

text \<open>The loop that reads a varint: seven bits of each byte, at the next shift; the bits do not overlap.\<close>

fun decode_varint :: "nat \<Rightarrow> nat \<Rightarrow> string \<Rightarrow> error + nat \<times> string" where
  "decode_varint shift v [] = (if shift \<ge> 64 then Inl ErrIntOverflowResult else Inl ErrUnexpectedEOF)"
| "decode_varint shift v (b # bs) =
     (if shift \<ge> 64 then Inl ErrIntOverflowResult
      else let v' = (v + (of_char b mod 128) * 2 ^ shift) mod 2 ^ 64
           in if of_char b < (128 :: nat) then Inr (v', bs) else decode_varint (shift + 7) v' bs)"

lemma decode_shortens: "decode_varint shift v bs = Inr (v', rest) \<Longrightarrow> length rest < length bs"
  by (induction shift v bs rule: decode_varint.induct) (auto simp: Let_def split: if_splits)

text \<open>
  How many bytes an unknown field has. The group of wire type 3 holds fields up to an end marker.
  A slice is shorter than 2 to the 62, so a sum that wraps around is negative, and the next access
  panics; the lemma \<open>skip_nonzero\<close> shows that a field never has 0 bytes.
\<close>

function (sequential) skipResult :: "string \<Rightarrow> (error + int) go_result"
  and skip_group :: "string \<Rightarrow> nat \<Rightarrow> (error + int) go_result" where
  "skipResult data =
     (if data = [] then Panic ''unreachable''
      else case decode_varint 0 0 data of
        Inl err \<Rightarrow> Ret (Inl err)
      | Inr (wire, rest) \<Rightarrow>
          let wireType = wire mod 8; iNdEx = length data - length rest
          in if wireType = 0
             then (case decode_varint 0 0 rest of
                     Inl err \<Rightarrow> Ret (Inl err)
                   | Inr (_, rest') \<Rightarrow> Ret (Inr (int (length data - length rest'))))
             else if wireType = 1 then Ret (Inr (int iNdEx + 8))
             else if wireType = 2
             then (case decode_varint 0 0 rest of
                     Inl err \<Rightarrow> Ret (Inl err)
                   | Inr (len, rest') \<Rightarrow>
                       let n = length data - length rest' + len
                       in if len \<ge> 2 ^ 63 then Ret (Inl ErrInvalidLengthResult)
                          else Ret (Inr (if n \<ge> 2 ^ 63 then int n - 2 ^ 64 else int n)))
             else if wireType = 3 then skip_group data iNdEx
             else if wireType = 4 then Ret (Inr (int iNdEx))
             else if wireType = 5 then Ret (Inr (int iNdEx + 4))
             else Ret (Inl ''proto: illegal wireType''))"
| "skip_group data start =
     (case decode_varint 0 0 (drop start data) of
        Inl err \<Rightarrow> Ret (Inl err)
      | Inr (innerWire, rest) \<Rightarrow>
          if innerWire mod 8 = 4 then Ret (Inr (int (length data - length rest)))
          else (case skipResult (drop start data) of
                  Panic p \<Rightarrow> Panic p
                | Ret (Inl err) \<Rightarrow> Ret (Inl err)
                | Ret (Inr next) \<Rightarrow>
                    if next \<le> 0 \<or> int start + next \<ge> 2 ^ 63 then Panic ''index out of range''
                    else skip_group data (start + nat next)))"
  by pat_completeness auto

termination
proof (relation "measure (case_sum (\<lambda>data. 2 * length data) (\<lambda>(data, start). 2 * (length data - start) + 1))", goal_cases)
  case (2 data b wire rest wireType iNdEx)
  then show ?case using decode_shortens [of 0 0 data wire rest] by auto
next
  case (4 data start b innerWire rest e n)
  then show ?case using decode_shortens [of 0 0 "drop start data" innerWire rest] by auto
qed auto

declare skipResult.simps [simp del] skip_group.simps [simp del]

text \<open>
  What the loop of \<^verbatim>\<open>Unmarshal\<close> carries: the message, and which required fields it has seen. The
  index of the next byte matters because \<^verbatim>\<open>iNdEx + byteLen\<close> can wrap around, and then the
  slice expression panics.
\<close>

record unmarshal_state =
  um_result :: ExecResult
  um_success :: bool
  um_elapsed :: bool

datatype field_outcome =
    Field_Error error
  | Field_Done unmarshal_state nat string

definition read_bytes ::
    "(string \<Rightarrow> unmarshal_state \<Rightarrow> unmarshal_state) \<Rightarrow> unmarshal_state \<Rightarrow> nat \<Rightarrow> string \<Rightarrow> field_outcome go_result" where
  "read_bytes put st idx bs =
     (case decode_varint 0 0 bs of
        Inl err \<Rightarrow> Ret (Field_Error err)
      | Inr (byteLen, rest) \<Rightarrow>
          let idx' = idx + (length bs - length rest)
          in if byteLen \<ge> 2 ^ 63 then Ret (Field_Error ErrInvalidLengthResult)
             else if idx' + byteLen \<ge> 2 ^ 63 then Panic ''slice bounds out of range''
             else if byteLen > length rest then Ret (Field_Error ErrUnexpectedEOF)
             else Ret (Field_Done (put (take byteLen rest) st) (idx' + byteLen) (drop byteLen rest)))"

definition read_number ::
    "(nat \<Rightarrow> unmarshal_state \<Rightarrow> unmarshal_state) \<Rightarrow> unmarshal_state \<Rightarrow> nat \<Rightarrow> string \<Rightarrow> field_outcome go_result" where
  "read_number put st idx bs =
     (case decode_varint 0 0 bs of
        Inl err \<Rightarrow> Ret (Field_Error err)
      | Inr (v, rest) \<Rightarrow> Ret (Field_Done (put v st) (idx + (length bs - length rest)) rest))"

definition set_stdout :: "string \<Rightarrow> unmarshal_state \<Rightarrow> unmarshal_state" where
  "set_stdout s st = st\<lparr>um_result := (um_result st)\<lparr>Stdout := s\<rparr>\<rparr>"

definition set_stderr :: "string \<Rightarrow> unmarshal_state \<Rightarrow> unmarshal_state" where
  "set_stderr s st = st\<lparr>um_result := (um_result st)\<lparr>Stderr := s\<rparr>\<rparr>"

definition set_success :: "nat \<Rightarrow> unmarshal_state \<Rightarrow> unmarshal_state" where
  "set_success v st = st\<lparr>um_result := (um_result st)\<lparr>Success := Some (v \<noteq> 0)\<rparr>, um_success := True\<rparr>"

definition set_elapsed :: "nat \<Rightarrow> unmarshal_state \<Rightarrow> unmarshal_state" where
  "set_elapsed v st = st\<lparr>um_result := (um_result st)\<lparr>Elapsed := Some (int64_of v)\<rparr>, um_elapsed := True\<rparr>"

definition unmarshal_field ::
    "unmarshal_state \<Rightarrow> nat \<Rightarrow> string \<Rightarrow> field_outcome go_result" where
  "unmarshal_field st idx bs =
     (case decode_varint 0 0 bs of
        Inl err \<Rightarrow> Ret (Field_Error err)
      | Inr (wire, rest) \<Rightarrow>
          let fieldNum = wire div 8 mod 2 ^ 32; wireType = wire mod 8; idx' = idx + (length bs - length rest)
          in if wireType = 4 then Ret (Field_Error ''proto: ExecResult: wiretype end group for non-group'')
             else if fieldNum = 0 \<or> fieldNum \<ge> 2 ^ 31 then Ret (Field_Error ''proto: ExecResult: illegal tag'')
             else if fieldNum = 1
             then if wireType \<noteq> 2 then Ret (Field_Error ''proto: wrong wireType for field Stdout'')
                  else read_bytes set_stdout st idx' rest
             else if fieldNum = 2
             then if wireType \<noteq> 2 then Ret (Field_Error ''proto: wrong wireType for field Stderr'')
                  else read_bytes set_stderr st idx' rest
             else if fieldNum = 3
             then if wireType \<noteq> 0 then Ret (Field_Error ''proto: wrong wireType for field Success'')
                  else read_number set_success st idx' rest
             else if fieldNum = 4
             then if wireType \<noteq> 0 then Ret (Field_Error ''proto: wrong wireType for field Elapsed'')
                  else read_number set_elapsed st idx' rest
             else (case skipResult bs of
                     Panic p \<Rightarrow> Panic p
                   | Ret (Inl err) \<Rightarrow> Ret (Field_Error err)
                   | Ret (Inr skippy) \<Rightarrow>
                       if skippy < 0 then Ret (Field_Error ErrInvalidLengthResult)
                       else if int idx + skippy \<ge> 2 ^ 63 then Panic ''index out of range''
                       else if nat skippy > length bs then Ret (Field_Error ErrUnexpectedEOF)
                       else Ret (Field_Done st (idx + nat skippy) (drop (nat skippy) bs))))"

partial_function (option) unmarshal_loop ::
    "unmarshal_state \<Rightarrow> nat \<Rightarrow> string \<Rightarrow> (ExecResult \<times> error option) go_result option" where
  "unmarshal_loop st idx bs =
     (if bs = []
      then Some (Ret (um_result st, if um_success st \<and> um_elapsed st then None else Some RequiredNotSetError))
      else case unmarshal_field st idx bs of
        Panic p \<Rightarrow> Some (Panic p)
      | Ret (Field_Error err) \<Rightarrow> Some (Ret (um_result st, Some err))
      | Ret (Field_Done st' idx' bs') \<Rightarrow> unmarshal_loop st' idx' bs')"

text \<open>\<^verbatim>\<open>Unmarshal\<close> fills the message it is called on, also when it returns an error.\<close>

definition result_Unmarshal ::
    "ExecResult \<Rightarrow> string \<Rightarrow> (ExecResult \<times> error option) go_result option" where
  "result_Unmarshal m bs = unmarshal_loop \<lparr>um_result = m, um_success = False, um_elapsed = False\<rparr> 0 bs"

section \<open>Laws\<close>

subsection \<open>Varints\<close>

lemma sov_length: "length (encodeVarintResult v) = sovResult v"
proof (induction v rule: encodeVarintResult.induct)
  case (1 v)
  show ?case
    using 1 by (subst encodeVarintResult.simps, subst sovResult.simps) (auto simp: div_eq_0_iff)
qed

lemma result_Size_exact: "result_Marshal m = Inr bs \<Longrightarrow> length bs = result_Size m"
  by (auto simp: result_Marshal_def result_Size_def bytes_field_def success_field_def elapsed_field_def sov_length
    split: option.splits)

lemma byte_value: "of_char (char_of n :: char) = n mod (256 :: nat)"
  by simp

lemma decode_encode:
  assumes "v * 2 ^ shift + acc < 2 ^ 64" and "acc < 2 ^ shift" and "shift < 64"
  shows "decode_varint shift acc (encodeVarintResult v @ rest) = Inr (acc + v * 2 ^ shift, rest)"
  using assms
proof (induction v arbitrary: shift acc rule: encodeVarintResult.induct)
  case (1 v)
  show ?case
  proof (cases "v \<ge> 128")
    case False
    with 1(2,4) show ?thesis by (subst encodeVarintResult.simps) (simp add: byte_value add.commute del: of_char_eq_iff)
  next
    case True
    let ?acc = "acc + v mod 128 * 2 ^ shift"
    have split: "v * 2 ^ shift = v div 128 * 2 ^ (shift + 7) + v mod 128 * 2 ^ shift"
    proof -
      have "(q * 128 + m) * 2 ^ shift = q * 2 ^ (shift + 7) + m * 2 ^ shift" for q m :: nat by (simp add: algebra_simps power_add)
      from this [of "v div 128" "v mod 128"] show ?thesis by simp
    qed
    have "(2 :: nat) ^ (shift + 7) = 128 * 2 ^ shift" by (simp add: power_add)
    also have "\<dots> \<le> v * 2 ^ shift" using True by (rule mult_right_mono) simp
    also have "\<dots> < 2 ^ 64" using 1(2) by (rule add_lessD1)
    finally have shift: "shift + 7 < 64" using power_less_imp_less_exp [of "2 :: nat" "shift + 7" 64] by simp
    have acc: "?acc < 2 ^ (shift + 7)"
    proof -
      have "v mod 128 * 2 ^ shift \<le> 127 * 2 ^ shift" by (intro mult_right_mono) simp_all
      then have "?acc < 2 ^ shift + 127 * 2 ^ shift" using 1(3) by linarith
      then show ?thesis by (simp add: power_add)
    qed
    have fits: "v div 128 * 2 ^ (shift + 7) + ?acc < 2 ^ 64" using 1(2) split by linarith
    have "decode_varint (shift + 7) ?acc (encodeVarintResult (v div 128) @ rest) = Inr (?acc + v div 128 * 2 ^ (shift + 7), rest)"
      by (rule 1(1) [OF True fits acc shift])
    moreover have "?acc + v div 128 * 2 ^ (shift + 7) = acc + v * 2 ^ shift" using split by linarith
    moreover have "(acc + v mod 128 * 2 ^ shift) mod 2 ^ 64 = ?acc" using fits by simp
    moreover have "encodeVarintResult v = char_of (v mod 128 + 128) # encodeVarintResult (v div 128)"
      using True by (subst encodeVarintResult.simps) simp
    moreover have "of_char (char_of (v mod 128 + 128) :: char) = v mod 128 + (128 :: nat)" unfolding byte_value by simp
    ultimately show ?thesis using 1(4) by simp
  qed
qed

lemma decode_encode_0: "v < 2 ^ 64 \<Longrightarrow> decode_varint 0 0 (encodeVarintResult v @ rest) = Inr (v, rest)"
  using decode_encode [of v 0 0 rest] by simp

lemma decode_cut:
  assumes "k < length (encodeVarintResult v)"
  shows "\<exists>err. decode_varint shift acc (take k (encodeVarintResult v)) = Inl err"
  using assms
proof (induction v arbitrary: k shift acc rule: encodeVarintResult.induct)
  case (1 v)
  show ?case
  proof (cases k)
    case (Suc k')
    then have big: "v \<ge> 128" using 1(2) by (cases "v \<ge> 128") (simp_all add: encodeVarintResult.simps [of v])
    have enc: "encodeVarintResult v = char_of (v mod 128 + 128) # encodeVarintResult (v div 128)"
      using big by (subst encodeVarintResult.simps) simp
    have "of_char (char_of (v mod 128 + 128) :: char) = v mod 128 + (128 :: nat)" unfolding byte_value by simp
    with 1(1) [OF big] 1(2) Suc show ?thesis by (auto simp: enc Let_def)
  qed auto
qed

subsection \<open>Fields\<close>

text \<open>
  A field that is there completely is read, whatever follows; a field that is cut off is an
  error. The index is bounded so that it does not wrap around.
\<close>

lemma tag_decoded: "t < 128 \<Longrightarrow> decode_varint 0 0 (char_of t # bs) = Inr (t, bs)"
  by (simp add: byte_value Let_def)

lemma uint64_bound: "uint64_of e < 2 ^ 64"
  by (simp add: uint64_of_def nat_less_iff)

lemma int64_uint64:
  assumes "- (2 ^ 63) \<le> e" and "e < 2 ^ 63"
  shows "int64_of (uint64_of e) = e"
proof (cases "0 \<le> e")
  case True
  with assms(2) have "uint64_of e = nat e" by (simp add: uint64_of_def)
  with True assms(2) show ?thesis by (simp add: int64_of_def nat_less_iff)
next
  case False
  have "e mod 2 ^ 64 = (e + 2 ^ 64) mod 2 ^ 64" by simp
  also have "\<dots> = e + 2 ^ 64" using assms(1) False by (intro mod_pos_pos_trivial) simp_all
  finally have "uint64_of e = nat (e + 2 ^ 64)" by (simp add: uint64_of_def)
  with False assms(1) show ?thesis by (simp add: int64_of_def nat_less_iff)
qed

lemma loop_unfold:
  "bs \<noteq> [] \<Longrightarrow> unmarshal_loop st idx bs = (case unmarshal_field st idx bs of
        Panic p \<Rightarrow> Some (Panic p)
      | Ret (Field_Error err) \<Rightarrow> Some (Ret (um_result st, Some err))
      | Ret (Field_Done st' idx' bs') \<Rightarrow> unmarshal_loop st' idx' bs')"
  by (subst unmarshal_loop.simps) simp

lemma read_bytes_full:
  assumes "idx + length (encodeVarintResult (length s)) + length s < 2 ^ 63"
  shows "read_bytes put st idx (encodeVarintResult (length s) @ s @ rest) =
    Ret (Field_Done (put s st) (idx + length (encodeVarintResult (length s)) + length s) rest)"
  using assms decode_encode_0 [of "length s" "s @ rest"] by (simp add: read_bytes_def Let_def)

lemma read_bytes_cut:
  assumes "idx + length (encodeVarintResult (length s)) + length s < 2 ^ 63"
    and "k < length (encodeVarintResult (length s)) + length s"
  shows "\<exists>err. read_bytes put st idx (take k (encodeVarintResult (length s) @ s)) = Ret (Field_Error err)"
proof (cases "k < length (encodeVarintResult (length s))")
  case True
  with decode_cut [OF True, of 0 0] show ?thesis by (auto simp: read_bytes_def)
next
  case False
  let ?t = "take (k - length (encodeVarintResult (length s))) s"
  have "decode_varint 0 0 (encodeVarintResult (length s) @ ?t) = Inr (length s, ?t)"
    using assms(1) by (intro decode_encode_0) simp
  with False assms show ?thesis by (simp add: read_bytes_def Let_def)
qed

lemma read_number_full:
  "v < 2 ^ 64 \<Longrightarrow> read_number put st idx (encodeVarintResult v @ rest) =
     Ret (Field_Done (put v st) (idx + length (encodeVarintResult v)) rest)"
  using decode_encode_0 [of v rest] by (simp add: read_number_def)

lemma read_number_cut:
  "k < length (encodeVarintResult v) \<Longrightarrow> \<exists>err. read_number put st idx (take k (encodeVarintResult v)) = Ret (Field_Error err)"
  using decode_cut [of k v 0 0] by (auto simp: read_number_def)

lemma field_tags:
  "unmarshal_field st idx (char_of (10 :: nat) # bs) = read_bytes set_stdout st (Suc idx) bs"
  "unmarshal_field st idx (char_of (18 :: nat) # bs) = read_bytes set_stderr st (Suc idx) bs"
  "unmarshal_field st idx (char_of (24 :: nat) # bs) = read_number set_success st (Suc idx) bs"
  "unmarshal_field st idx (char_of (32 :: nat) # bs) = read_number set_elapsed st (Suc idx) bs"
  by (simp_all only: unmarshal_field_def tag_decoded [of 10] tag_decoded [of 18] tag_decoded [of 24] tag_decoded [of 32])
    (simp_all add: Let_def)

definition put_field :: "(string \<Rightarrow> unmarshal_state \<Rightarrow> unmarshal_state) \<Rightarrow> string \<Rightarrow> unmarshal_state \<Rightarrow> unmarshal_state" where
  "put_field put s st = (if s = [] then st else put s st)"

lemma bytes_field_full:
  assumes "idx + length (bytes_field tag s) < 2 ^ 63"
    and "\<And>bs. unmarshal_field st idx (char_of tag # bs) = read_bytes put st (Suc idx) bs"
  shows "unmarshal_loop st idx (bytes_field tag s @ rest) = unmarshal_loop (put_field put s st) (idx + length (bytes_field tag s)) rest"
proof (cases "s = []")
  case False
  then have "read_bytes put st (Suc idx) (encodeVarintResult (length s) @ s @ rest) =
      Ret (Field_Done (put s st) (Suc idx + length (encodeVarintResult (length s)) + length s) rest)"
    using assms(1) by (intro read_bytes_full) (simp add: bytes_field_def)
  with False assms(2) [of "encodeVarintResult (length s) @ s @ rest"] show ?thesis
    by (simp add: bytes_field_def put_field_def loop_unfold add.assoc)
qed (simp add: bytes_field_def put_field_def)

lemma bytes_field_cut:
  assumes "idx + length (bytes_field tag s) < 2 ^ 63" and "0 < k" and "k < length (bytes_field tag s)"
    and "\<And>bs. unmarshal_field st idx (char_of tag # bs) = read_bytes put st (Suc idx) bs"
  shows "\<exists>err. unmarshal_loop st idx (take k (bytes_field tag s)) = Some (Ret (um_result st, Some err))"
proof -
  obtain k' where k: "k = Suc k'" using assms(2) by (cases k) simp_all
  have s: "s \<noteq> []" using assms(3) by (auto simp: bytes_field_def)
  obtain err where "read_bytes put st (Suc idx) (take k' (encodeVarintResult (length s) @ s)) = Ret (Field_Error err)"
    using read_bytes_cut [of "Suc idx" s k' put st] assms(1,3) s k by (auto simp: bytes_field_def)
  then show ?thesis using s k assms(4) by (simp add: bytes_field_def loop_unfold)
qed

lemma success_field_full:
  "unmarshal_loop st idx (success_field b @ rest) = unmarshal_loop (set_success (if b then 1 else 0) st) (idx + 2) rest"
proof -
  have "encodeVarintResult (if b then 1 else 0) = [char_of (if b then 1 else 0 :: nat)]" by (subst encodeVarintResult.simps) simp
  with read_number_full [of "if b then 1 else 0" set_success st "Suc idx" rest] show ?thesis
    by (simp add: success_field_def loop_unfold field_tags)
qed

lemma success_field_cut: "\<exists>err. unmarshal_loop st idx [char_of (24 :: nat)] = Some (Ret (um_result st, Some err))"
  by (simp add: loop_unfold field_tags read_number_def)

lemma elapsed_field_full:
  "unmarshal_loop st idx (elapsed_field e) = unmarshal_loop (set_elapsed (uint64_of e) st) (idx + length (elapsed_field e)) []"
  using read_number_full [OF uint64_bound, of set_elapsed st "Suc idx" e "[]"]
  by (simp add: elapsed_field_def loop_unfold field_tags)

lemma elapsed_field_cut:
  assumes "0 < k" and "k < length (elapsed_field e)"
  shows "\<exists>err. unmarshal_loop st idx (take k (elapsed_field e)) = Some (Ret (um_result st, Some err))"
proof -
  obtain k' where k: "k = Suc k'" using assms(1) by (cases k) simp_all
  obtain err where "read_number set_elapsed st (Suc idx) (take k' (encodeVarintResult (uint64_of e))) = Ret (Field_Error err)"
    using read_number_cut [of k' "uint64_of e" set_elapsed st "Suc idx"] assms(2) k by (auto simp: elapsed_field_def)
  then show ?thesis using k by (simp add: elapsed_field_def loop_unfold field_tags)
qed

subsection \<open>Messages\<close>

text \<open>A result as a driver makes it, and what attempts to read a part of it may leave in a message.\<close>

definition result_wf :: "ExecResult \<Rightarrow> bool" where
  "result_wf r \<longleftrightarrow> (case (Success r, Elapsed r) of (Some b, Some e) \<Rightarrow> - (2 ^ 63) \<le> e \<and> e < 2 ^ 63 | _ \<Rightarrow> False)"

definition part_of :: "ExecResult \<Rightarrow> ExecResult \<Rightarrow> bool" where
  "part_of m r \<longleftrightarrow> (Stdout m = [] \<or> Stdout m = Stdout r) \<and> (Stderr m = [] \<or> Stderr m = Stderr r)"

lemma put_field_part:
  "part_of (um_result st) r \<Longrightarrow> part_of (um_result (put_field set_stdout (Stdout r) st)) r"
  "part_of (um_result st) r \<Longrightarrow> part_of (um_result (put_field set_stderr (Stderr r) st)) r"
  "part_of (um_result (set_success v st)) r = part_of (um_result st) r"
  by (auto simp: part_of_def put_field_def set_stdout_def set_stderr_def set_success_def)

lemma put_field_seen [simp]:
  "um_success (put_field set_stdout s st) = um_success st" "um_elapsed (put_field set_stdout s st) = um_elapsed st"
  "um_success (put_field set_stderr s st) = um_success st" "um_elapsed (put_field set_stderr s st) = um_elapsed st"
  "um_elapsed (set_success v st) = um_elapsed st"
  by (simp_all add: put_field_def set_stdout_def set_stderr_def set_success_def)

lemma loop_end: "\<not> (um_success st \<and> um_elapsed st) \<Longrightarrow> unmarshal_loop st idx [] = Some (Ret (um_result st, Some RequiredNotSetError))"
  by (subst unmarshal_loop.simps) simp

lemma texts_full:
  assumes "length (bytes_field 10 out) + length (bytes_field 18 err) < 2 ^ 63"
  shows "unmarshal_loop st 0 (bytes_field 10 out @ x) = unmarshal_loop (put_field set_stdout out st) (length (bytes_field 10 out)) x"
    and "unmarshal_loop st (length (bytes_field 10 out)) (bytes_field 18 err @ x) =
      unmarshal_loop (put_field set_stderr err st) (length (bytes_field 10 out) + length (bytes_field 18 err)) x"
  using bytes_field_full [of 0 10 out st set_stdout x] bytes_field_full [of "length (bytes_field 10 out)" 18 err st set_stderr x]
    assms field_tags(1,2) by simp_all

lemma unmarshal_marshal:
  assumes "result_wf r" and "result_Marshal r = Inr bs" and "length bs < 2 ^ 63" and "part_of m r"
  shows "result_Unmarshal m bs = Some (Ret (r, None))"
proof -
  obtain b e where r: "Success r = Some b" "Elapsed r = Some e" "- (2 ^ 63) \<le> e" "e < 2 ^ 63"
    using assms(1) by (auto simp: result_wf_def split: option.splits)
  let ?st0 = "\<lparr>um_result = m, um_success = False, um_elapsed = False\<rparr>"
  let ?st = "set_elapsed (uint64_of e) (set_success (if b then 1 else 0) (put_field set_stderr (Stderr r) (put_field set_stdout (Stdout r) ?st0)))"
  have bs: "bs = bytes_field 10 (Stdout r) @ bytes_field 18 (Stderr r) @ success_field b @ elapsed_field e"
    using assms(2) r by (simp add: result_Marshal_def)
  then have len: "length (bytes_field 10 (Stdout r)) + length (bytes_field 18 (Stderr r)) < 2 ^ 63" using assms(3) by simp
  have "result_Unmarshal m bs = unmarshal_loop ?st (length (bytes_field 10 (Stdout r)) + length (bytes_field 18 (Stderr r)) + 2 + length (elapsed_field e)) []"
    unfolding result_Unmarshal_def bs texts_full [OF len] success_field_full elapsed_field_full by (rule refl)
  moreover have "unmarshal_loop ?st idx [] = Some (Ret (um_result ?st, None))" for idx
    by (subst unmarshal_loop.simps) (simp add: set_elapsed_def set_success_def)
  moreover have "um_result ?st = r"
    using assms(4) r int64_uint64 [OF r(3,4)]
    by (intro ExecResult.equality) (auto simp: part_of_def put_field_def set_stdout_def set_stderr_def set_success_def set_elapsed_def)
  ultimately show ?thesis by simp
qed

lemma unmarshal_cut:
  assumes "result_wf r" and "result_Marshal r = Inr bs" and "length bs < 2 ^ 63" and "part_of m r" and "k < length bs"
  shows "\<exists>m' err. result_Unmarshal m (take k bs) = Some (Ret (m', Some err)) \<and> part_of m' r"
proof -
  obtain b e where r: "Success r = Some b" "Elapsed r = Some e" using assms(1) by (auto simp: result_wf_def split: option.splits)
  let ?A = "bytes_field 10 (Stdout r)" and ?B = "bytes_field 18 (Stderr r)" and ?C = "success_field b" and ?D = "elapsed_field e"
  let ?st0 = "\<lparr>um_result = m, um_success = False, um_elapsed = False\<rparr>"
  let ?st1 = "put_field set_stdout (Stdout r) ?st0"
  let ?st2 = "put_field set_stderr (Stderr r) ?st1"
  let ?st3 = "set_success (if b then 1 else 0) ?st2"
  have bs: "bs = ?A @ ?B @ ?C @ ?D" using assms(2) r by (simp add: result_Marshal_def)
  then have len: "length ?A + length ?B < 2 ^ 63" using assms(3) by simp
  have part: "part_of (um_result ?st0) r" "part_of (um_result ?st1) r" "part_of (um_result ?st2) r" "part_of (um_result ?st3) r"
    using assms(4) put_field_part by (simp_all add: put_field_part(3))
  note A = texts_full(1) [OF len, of ?st0] and B = texts_full(2) [OF len, of ?st1]
    and C = success_field_full [of ?st2 "length ?A + length ?B" b]
  have two: "length ?C = 2" by (simp add: success_field_def)
  then have "k < length ?A + length ?B + 2 + length ?D" using assms(5) by (simp add: bs)
  then consider (a) "k < length ?A" | (b) k' where "k = length ?A + k'" "k' < length ?B" | (c) k' where "k = length ?A + length ?B + k'" "k' < 2"
    | (d) k' where "k = length ?A + length ?B + 2 + k'" "k' < length ?D"
    by (cases "k < length ?A"; cases "k < length ?A + length ?B"; cases "k < length ?A + length ?B + 2")
      (auto dest!: le_Suc_ex simp: not_less)
  then show ?thesis
  proof cases
    case a
    then obtain err where "unmarshal_loop ?st0 0 (take k ?A) = Some (Ret (um_result ?st0, Some err))"
      using bytes_field_cut [of 0 10 "Stdout r" k ?st0 set_stdout] loop_end [of ?st0 0] len field_tags(1) by (cases k) auto
    with a have "result_Unmarshal m (take k bs) = Some (Ret (um_result ?st0, Some err))" by (simp add: bs result_Unmarshal_def)
    with part(1) show ?thesis by blast
  next
    case (b k')
    then obtain err where "unmarshal_loop ?st1 (length ?A) (take k' ?B) = Some (Ret (um_result ?st1, Some err))"
      using bytes_field_cut [of "length ?A" 18 "Stderr r" k' ?st1 set_stderr] loop_end [of ?st1 "length ?A"] len field_tags(2)
      by (cases k') auto
    with b have "result_Unmarshal m (take k bs) = Some (Ret (um_result ?st1, Some err))" by (simp add: bs result_Unmarshal_def A)
    with part(2) show ?thesis by blast
  next
    case (c k')
    then obtain err where "unmarshal_loop ?st2 (length ?A + length ?B) (take k' ?C) = Some (Ret (um_result ?st2, Some err))"
      using success_field_cut [of ?st2 "length ?A + length ?B"] loop_end [of ?st2 "length ?A + length ?B"]
      by (auto simp: success_field_def less_2_cases_iff)
    with c have "result_Unmarshal m (take k bs) = Some (Ret (um_result ?st2, Some err))" by (simp add: bs result_Unmarshal_def A B two)
    with part(3) show ?thesis by blast
  next
    case (d k')
    then obtain err where "unmarshal_loop ?st3 (length ?A + length ?B + 2) (take k' ?D) = Some (Ret (um_result ?st3, Some err))"
      using elapsed_field_cut [of k' e ?st3] loop_end [of ?st3 "length ?A + length ?B + 2"] by (cases k') auto
    moreover from d have "take k bs = ?A @ ?B @ ?C @ take k' ?D" by (simp add: bs success_field_def)
    ultimately have "result_Unmarshal m (take k bs) = Some (Ret (um_result ?st3, Some err))"
      by (simp only: result_Unmarshal_def A B C)
    with part(4) show ?thesis by blast
  qed
qed

subsection \<open>Unknown fields\<close>

lemma skip_nonzero:
  "skipResult data = Ret (Inr n) \<Longrightarrow> length data < 2 ^ 62 \<Longrightarrow> n \<noteq> 0"
  "skip_group data start = Ret (Inr n) \<Longrightarrow> length data < 2 ^ 62 \<Longrightarrow> n \<noteq> 0"
proof (induction data and data start arbitrary: n and n rule: skipResult_skip_group.induct)
  case (1 data)
  note step = 1(2) [unfolded skipResult.simps [of data]]
  show ?case
  proof (cases "decode_varint 0 0 data")
    case (Inr r)
    obtain wire rest where r: "r = (wire, rest)" by (cases r)
    from decode_shortens Inr r have short: "length rest < length data" by simp
    show ?thesis
    proof (cases "wire mod 8 = 3")
      case True
      with step Inr r short have "skip_group data (length data - length rest) = Ret (Inr n)" by (simp add: Let_def split: if_splits)
      moreover have "data \<noteq> []" using short by auto
      ultimately show ?thesis using 1(1) [OF _ Inr [unfolded r] refl refl refl] 1(3) True by simp
    next
      case False
      with step Inr r short 1(3) show ?thesis
        by (auto simp: Let_def split: if_splits sum.splits dest!: decode_shortens)
    qed
  qed (use step in \<open>auto split: if_splits\<close>)
next
  case (2 data start)
  note step = 2(3) [unfolded skip_group.simps [of data start]]
  from step obtain innerWire rest where d: "decode_varint 0 0 (drop start data) = Inr (innerWire, rest)"
    by (cases "decode_varint 0 0 (drop start data)") auto
  show ?case
  proof (cases "innerWire mod 8 = 4")
    case True
    with step d decode_shortens [OF d] show ?thesis by auto
  next
    case False
    with step d obtain next' where "skipResult (drop start data) = Ret (Inr next')" "\<not> (next' \<le> 0 \<or> int start + next' \<ge> 2 ^ 63)"
      "skip_group data (start + nat next') = Ret (Inr n)"
      by (auto split: go_result.splits sum.splits if_splits)
    with 2(2) [OF d refl False] 2(4) show ?thesis by blast
  qed
qed

lemma bytes_shortens: "read_bytes put st i rest = Ret (Field_Done st' idx' bs') \<Longrightarrow> length bs' < length rest"
  apply (cases "decode_varint 0 0 rest")
   apply (simp add: read_bytes_def)
  subgoal for r using decode_shortens [of 0 0 rest "fst r" "snd r"]
    by (cases r) (auto simp: read_bytes_def Let_def split: if_splits)
  done

lemma number_shortens: "read_number put st i rest = Ret (Field_Done st' idx' bs') \<Longrightarrow> length bs' < length rest"
  apply (cases "decode_varint 0 0 rest")
   apply (simp add: read_number_def)
  subgoal for r using decode_shortens [of 0 0 rest "fst r" "snd r"]
    by (cases r) (auto simp: read_number_def)
  done

lemma if_branchE:
  "(if b then x else y) = z \<Longrightarrow> (x = z \<Longrightarrow> P) \<Longrightarrow> (y = z \<Longrightarrow> P) \<Longrightarrow> P"
  by (cases b) auto

lemma field_parts:
  assumes "unmarshal_field st idx bs = Ret (Field_Done st' idx' bs')" "decode_varint 0 0 bs = Inr (wire, rest)"
  obtains put i where "read_bytes put st i rest = Ret (Field_Done st' idx' bs')"
  | put i where "read_number put st i rest = Ret (Field_Done st' idx' bs')"
  | skippy where "skipResult bs = Ret (Inr skippy)" "\<not> skippy < 0" "bs' = drop (nat skippy) bs"
  using assms(1) unfolding unmarshal_field_def assms(2) Let_def sum.case prod.case
  by (elim if_branchE) (auto split: go_result.splits sum.splits if_splits)

lemma field_shortens:
  assumes "unmarshal_field st idx bs = Ret (Field_Done st' idx' bs')" and "length bs < 2 ^ 62"
  shows "length bs' < length bs"
proof -
  obtain wire rest where d: "decode_varint 0 0 bs = Inr (wire, rest)"
    using assms(1) by (cases "decode_varint 0 0 bs") (auto simp: unmarshal_field_def)
  note short = decode_shortens [OF d]
  from assms(1) d show ?thesis
  proof (cases rule: field_parts)
    case (3 skippy)
    then show ?thesis using skip_nonzero(1) [OF 3(1) assms(2)] short by auto
  qed (use short in \<open>auto dest: bytes_shortens number_shortens\<close>)
qed

section \<open>Properties\<close>



text \<open>
  A length can crash the reader. A text field whose length is the largest 63-bit number is
  neither negative nor longer than the data as far as the generated code can see: the index
  after the field wraps around, and the slice expression panics, which ends the relay.
\<close>

theorem huge_length_panics:
  "result_Unmarshal m (char_of (10 :: nat) # encodeVarintResult (2 ^ 63 - 1) @ rest) = Some (Panic ''slice bounds out of range'')"
proof -
  have "decode_varint 0 0 (encodeVarintResult (2 ^ 63 - 1) @ rest) = Inr (2 ^ 63 - 1, rest)" by (rule decode_encode_0) simp
  then have "read_bytes set_stdout st (Suc 0) (encodeVarintResult (2 ^ 63 - 1) @ rest) = Panic ''slice bounds out of range''" for st
    by (simp add: read_bytes_def Let_def)
  then show ?thesis by (simp add: result_Unmarshal_def loop_unfold field_tags)
qed

text \<open>
  Reading a result ends. Whatever bytes arrive from a container, also unknown fields, nested
  groups and lengths that overflow, the generated reader returns or panics; it never loops.
\<close>

theorem Unmarshal_ends:
  assumes "length bs < 2 ^ 62"
  shows "\<exists>outcome. result_Unmarshal m bs = Some outcome"
proof -
  have "\<exists>outcome. unmarshal_loop st idx bs = Some outcome" for st idx
    using assms
  proof (induction bs arbitrary: st idx rule: length_induct)
    case (1 bs)
    show ?case
    proof (cases "unmarshal_field st idx bs")
      case (Ret r)
      show ?thesis
      proof (cases r)
        case (Field_Done st' idx' bs')
        with Ret have "length bs' < length bs" using field_shortens 1(2) by blast
        with 1 Field_Done Ret show ?thesis by (subst unmarshal_loop.simps) auto
      qed (use Ret in \<open>subst unmarshal_loop.simps, simp\<close>)
    qed (subst unmarshal_loop.simps, simp)
  qed
  then show ?thesis by (simp add: result_Unmarshal_def)
qed

theorem Unmarshal_ends_witness: "\<exists>outcome. result_Unmarshal EmptyExecResult [char_of (43 :: nat), char_of (44 :: nat)] = Some outcome"
  by (rule Unmarshal_ends) simp

end
