(* ===== verification/Driver_Stream.thy ===== *)
theory Driver_Stream
  imports Driver_Codec
begin

text \<open>
  How a result travels from the driver in a container to the relay: the framing of
  \<^verbatim>\<open>circuit-driver/io\<close>, the decoder of \<^verbatim>\<open>circuit-driver/api/codec.go\<close> and what the goroutine of a
  Docker environment does with it (\<^verbatim>\<open>circuit/docker_environment.go\<close>). The driver prefixes a
  result with its length; Docker cuts the output into frames for the two output streams; the
  relay takes both apart, on a connection that may deliver any number of bytes at a time.

  A reader fills a buffer: it takes the buffer's contents and returns a count, the new contents,
  an error and its state. It may block for ever (\<open>None\<close>) and it may panic.
\<close>

section \<open>The model\<close>

definition io_EOF :: error where
  "io_EOF = ''EOF''"

type_synonym 's reader = "string \<Rightarrow> 's \<Rightarrow> ((nat \<times> string \<times> error option) \<times> 's) go_result option"

definition run_then :: "'a go_result option \<Rightarrow> ('a \<Rightarrow> 'b go_result option) \<Rightarrow> 'b go_result option" where
  "run_then m f = Option.bind m (\<lambda>r. case r of Panic p \<Rightarrow> Some (Panic p) | Ret x \<Rightarrow> f x)"

lemma run_then_simps [simp]:
  "run_then (Some (Ret x)) f = f x" "run_then (Some (Panic p)) f = Some (Panic p)" "run_then None f = None"
  by (simp_all add: run_then_def)

lemma run_then_mono [partial_function_mono]:
  assumes "mono_option B" and "\<And>y. mono_option (\<lambda>f. C y f)"
  shows "mono_option (\<lambda>f. run_then (B f) (\<lambda>y. C y f))"
  unfolding run_then_def
proof (rule bind_mono [OF assms(1)])
  show "mono_option (\<lambda>f. case r of Ret y \<Rightarrow> C y f | Panic p \<Rightarrow> Some (Panic p))" for r
    by (cases r) (simp_all add: assms(2) option.const_mono)
qed

definition zeros :: "nat \<Rightarrow> string" where
  "zeros n = replicate n (char_of (0 :: nat))"

text \<open>\<^verbatim>\<open>io.ReadFull\<close> of the standard library, from index \<open>n\<close> of the buffer on.\<close>

definition read_full_error :: "nat \<Rightarrow> nat \<Rightarrow> error \<Rightarrow> error option" where
  "read_full_error n len e =
     (if n \<ge> len then None else if n > 0 \<and> e = io_EOF then Some ErrUnexpectedEOF else Some e)"

partial_function (option) ReadFull ::
    "'s reader \<Rightarrow> nat \<Rightarrow> string \<Rightarrow> 's \<Rightarrow> ((nat \<times> string \<times> error option) \<times> 's) go_result option" where
  "ReadFull read n p s =
     (if n \<ge> length p then Some (Ret ((n, p, None), s))
      else run_then (read (drop n p) s) (\<lambda>r. case r of ((c, q, err), s') \<Rightarrow>
        (case err of
           None \<Rightarrow> ReadFull read (n + c) (take n p @ q) s'
         | Some e \<Rightarrow> Some (Ret ((n + c, take n p @ q, read_full_error (n + c) (length p) e), s')))))"

text \<open>
  \<^verbatim>\<open>io.CopyN\<close> into a \<^verbatim>\<open>bytes.Buffer\<close> that was empty, or into \<^verbatim>\<open>ioutil.Discard\<close>; \<open>got\<close> is what was copied
  so far. The destination chooses how much it offers to read at once, \<open>room\<close>.
\<close>

definition copy_error :: "nat \<Rightarrow> nat \<Rightarrow> error \<Rightarrow> error option" where
  "copy_error len n e = (if len = n \<or> (len > n \<and> e = io_EOF) then None else Some e)"

partial_function (option) CopyN ::
    "'s reader \<Rightarrow> (nat \<Rightarrow> nat) \<Rightarrow> nat \<Rightarrow> string \<Rightarrow> 's \<Rightarrow> ((string \<times> error option) \<times> 's) go_result option" where
  "CopyN read room n got s =
     (if length got \<ge> n then Some (Ret ((got, None), s))
      else run_then (read (zeros (min (room (length got)) (n - length got))) s) (\<lambda>r. case r of ((c, q, err), s') \<Rightarrow>
        if c > room (length got) then Some (Panic ''slice bounds out of range'')
        else (case err of
           None \<Rightarrow> CopyN read room n (got @ take c (q @ zeros (room (length got) - length q))) s'
         | Some e \<Rightarrow>
             let got' = got @ take c (q @ zeros (room (length got) - length q))
             in Some (Ret ((got', copy_error (length got') n e), s')))))"

subsection \<open>The driver\<close>

text \<open>Running a process, \<^verbatim>\<open>exec.Cmd.Run\<close>, is a parameter: its outputs, its error and how long it took.\<close>

record process_exit =
  px_stdout :: string
  px_stderr :: string
  px_error :: "error option"
  px_elapsed :: int

definition strip_fork_exec :: "string \<Rightarrow> string" where
  "strip_fork_exec s = (if take 10 s = ''fork/exec '' then drop 10 s else s)"

definition BlockingDriver_Run :: "(string \<Rightarrow> string list \<Rightarrow> string \<Rightarrow> process_exit) \<Rightarrow> ExecRequest \<Rightarrow> ExecResult" where
  "BlockingDriver_Run exec request =
     (let px = exec (case req_Executable request of None \<Rightarrow> [] | Some path \<Rightarrow> path) (convertEnv request) (Stdin request);
          result = SetElapsed (px_elapsed px) EmptyExecResult
      in (case px_error px of
            None \<Rightarrow> (SetSuccess True result)\<lparr>Stderr := px_stderr px, Stdout := px_stdout px\<rparr>
          | Some err \<Rightarrow> (SetSuccess False result)\<lparr>Stderr := px_stderr px @ strip_fork_exec err, Stdout := px_stdout px\<rparr>))"

subsection \<open>Headers\<close>

definition BigEndian_Uint32 :: "string \<Rightarrow> nat" where
  "BigEndian_Uint32 bs = foldl (\<lambda>n b. n * 256 + of_char b) 0 (take 4 bs)"

definition BigEndian_PutUint32 :: "nat \<Rightarrow> string" where
  "BigEndian_PutUint32 n =
     [char_of (n div 2 ^ 24 mod 256), char_of (n div 2 ^ 16 mod 256), char_of (n div 2 ^ 8 mod 256), char_of (n mod 256)]"

text \<open>Both parsers read a prefix and decode it: the size of the data, whether to discard it, and an error.\<close>

definition parse_prefix ::
    "nat \<Rightarrow> (string \<Rightarrow> nat \<times> bool \<times> error option) \<Rightarrow> 's reader \<Rightarrow> 's \<Rightarrow> ((nat \<times> bool \<times> error option) \<times> 's) go_result option" where
  "parse_prefix k decode read s =
     run_then (ReadFull read 0 (zeros k) s) (\<lambda>((count, pre, err), s').
       Some (Ret (if err \<noteq> None \<and> count = 0 then (0, False, err) else decode pre, s')))"

definition circuit_prefix :: "string \<Rightarrow> nat \<times> bool \<times> error option" where
  "circuit_prefix pre = (BigEndian_Uint32 pre, False, None)"

definition docker_prefix :: "nat \<Rightarrow> string \<Rightarrow> nat \<times> bool \<times> error option" where
  "docker_prefix streamID pre =
     (let discardData = pre ! 0 \<noteq> char_of streamID
      in if pre ! 1 = char_of (0 :: nat) \<and> pre ! 2 = char_of (0 :: nat) \<and> pre ! 3 = char_of (0 :: nat)
         then (BigEndian_Uint32 (drop 4 pre), discardData, None)
         else (0, discardData, Some ''Corrupt Docker stream header detected''))"

definition CircuitHeaderParser :: "'s reader \<Rightarrow> 's \<Rightarrow> ((nat \<times> bool \<times> error option) \<times> 's) go_result option" where
  "CircuitHeaderParser = parse_prefix 4 circuit_prefix"

definition dockerHeaderParser :: "nat \<Rightarrow> 's reader \<Rightarrow> 's \<Rightarrow> ((nat \<times> bool \<times> error option) \<times> 's) go_result option" where
  "dockerHeaderParser streamID = parse_prefix 8 (docker_prefix streamID)"

definition CircuitHeaderGenerator :: "string \<Rightarrow> string" where
  "CircuitHeaderGenerator data = BigEndian_PutUint32 (length data mod 2 ^ 32)"

definition dockerHeaderGenerator :: "nat \<Rightarrow> string \<Rightarrow> string" where
  "dockerHeaderGenerator streamID data = char_of streamID # zeros 3 @ BigEndian_PutUint32 (length data mod 2 ^ 32)"

text \<open>A header reader: the reader below it, and the data of the current packet that was not read yet.\<close>

partial_function (option) refill ::
    "('s \<Rightarrow> ((nat \<times> bool \<times> error option) \<times> 's) go_result option) \<Rightarrow> 's reader \<Rightarrow> (nat \<Rightarrow> nat) \<Rightarrow> 's \<Rightarrow>
     ((nat \<times> string \<times> error option) \<times> 's) go_result option" where
  "refill parser read room s =
     run_then (parser s) (\<lambda>r. case r of ((packetSize, discard, err), s') \<Rightarrow>
       if err \<noteq> None \<and> packetSize = 0 then Some (Ret ((0, [], err), s'))
       else run_then (CopyN read room packetSize [] s') (\<lambda>r'. case r' of ((got, err'), s'') \<Rightarrow>
         if \<not> discard then Some (Ret ((length got, got, err'), s'')) else refill parser read room s''))"

definition buffer_Read :: "string \<Rightarrow> string \<Rightarrow> 's \<Rightarrow> (nat \<times> string \<times> error option) \<times> ('s \<times> string)" where
  "buffer_Read p buf s =
     (if buf = [] \<and> p \<noteq> [] then ((0, p, Some io_EOF), (s, []))
      else ((min (length p) (length buf), take (length p) buf @ drop (length buf) p, None), (s, drop (length p) buf)))"

definition header_Read ::
    "('s reader \<Rightarrow> 's \<Rightarrow> ((nat \<times> bool \<times> error option) \<times> 's) go_result option) \<Rightarrow> 's reader \<Rightarrow> (nat \<Rightarrow> nat) \<Rightarrow> ('s \<times> string) reader" where
  "header_Read parser read room p sb = (case sb of (s, buf) \<Rightarrow>
     (if buf = []
      then run_then (refill (parser read) read room s) (\<lambda>((count, got, err), s').
        if err \<noteq> None \<and> err \<noteq> Some io_EOF then Some (Ret ((count, p, err), (s', got)))
        else Some (Ret (buffer_Read p got s')))
      else Some (Ret (buffer_Read p buf s))))"

subsection \<open>The decoder\<close>

partial_function (option) DecodeResult ::
    "'s reader \<Rightarrow> string \<Rightarrow> string \<Rightarrow> ExecResult \<Rightarrow> 's \<Rightarrow> ((ExecResult \<times> error option) \<times> 's) go_result option" where
  "DecodeResult read accum buf result s =
     run_then (read buf s) (\<lambda>r. case r of ((count, buf', err), s') \<Rightarrow>
       if count > length buf then Some (Panic ''slice bounds out of range'')
       else run_then (result_Unmarshal result (accum @ take count buf')) (\<lambda>u. case u of (result', unmarshalErr) \<Rightarrow>
         if unmarshalErr \<noteq> None \<and> err \<noteq> None then Some (Ret ((result', err), s'))
         else if unmarshalErr = None then Some (Ret ((result', None), s'))
         else DecodeResult read (accum @ take count buf') buf' result' s'))"

definition docker_stdout :: "'s reader \<Rightarrow> (nat \<Rightarrow> nat) \<Rightarrow> ('s \<times> string) reader" where
  "docker_stdout read room = header_Read (dockerHeaderParser 1) read room"

definition circuit_reader :: "'s reader \<Rightarrow> (nat \<Rightarrow> nat) \<Rightarrow> ('s \<times> string) reader" where
  "circuit_reader read room = header_Read CircuitHeaderParser read room"

text \<open>What the goroutine does after it has sent a request: a connection that ended gives what was read so far.\<close>

definition receive_result ::
    "'s reader \<Rightarrow> (nat \<Rightarrow> nat) \<Rightarrow> ('s \<times> string) \<times> string \<Rightarrow> (ExecResult \<times> (('s \<times> string) \<times> string)) go_result option" where
  "receive_result read room s =
     run_then (DecodeResult (circuit_reader (docker_stdout read room) room) [] (zeros 4096) EmptyExecResult s)
       (\<lambda>((result, err), s'). case err of
          Some e \<Rightarrow> if e \<noteq> io_EOF then Some (Panic e) else Some (Ret (result, s'))
        | None \<Rightarrow> Some (Ret (result, s')))"

section \<open>Laws\<close>

lemma zeros_length [simp]: "length (zeros n) = n" and zeros_Suc: "zeros n = [] \<longleftrightarrow> n = 0"
  by (simp_all add: zeros_def)

subsection \<open>Readers\<close>

text \<open>
  A reader holds bytes: each read takes some of them from the front. Nothing is said about a
  read when no byte is left, it may block.
\<close>

locale byte_reader =
  fixes read :: "'s reader" and holds :: "'s \<Rightarrow> string \<Rightarrow> bool"
  assumes read_some: "holds s bs \<Longrightarrow> bs \<noteq> [] \<Longrightarrow> p \<noteq> [] \<Longrightarrow>
    \<exists>c s'. 0 < c \<and> c \<le> length p \<and> c \<le> length bs \<and>
      read p s = Some (Ret ((c, take c bs @ drop c p, None), s')) \<and> holds s' (drop c bs)"
begin

lemma ReadFull_gets:
  assumes "holds s (bs @ rest)" and "length p = n + length bs"
  shows "\<exists>s'. ReadFull read n p s = Some (Ret ((length p, take n p @ bs, None), s')) \<and> holds s' rest"
  using assms
proof (induction "length bs" arbitrary: bs n p s rule: less_induct)
  case less
  show ?case
  proof (cases "bs = []")
    case True
    with less(2,3) show ?thesis by (subst ReadFull.simps) simp
  next
    case False
    with less(3) obtain c s' where c: "0 < c" "c \<le> length (drop n p)" "c \<le> length (bs @ rest)"
      and r: "read (drop n p) s = Some (Ret ((c, take c (bs @ rest) @ drop c (drop n p), None), s'))" "holds s' (drop c (bs @ rest))"
      using read_some [OF less(2), of "drop n p"] by auto
    have le: "c \<le> length bs" using c(2) less(3) by simp
    let ?p = "take n p @ take c bs @ drop (n + c) p"
    have "\<exists>s''. ReadFull read (n + c) ?p s' = Some (Ret ((length ?p, take (n + c) ?p @ drop c bs, None), s'')) \<and> holds s'' rest"
      using less(1) [of "drop c bs" s' ?p "n + c"] r(2) le c(1) less(3) False by (simp add: add.commute)
    moreover have "take (n + c) ?p @ drop c bs = take n p @ bs" using less(3) le by simp
    moreover have "length ?p = length p" using less(3) le by simp
    moreover have "ReadFull read n p s = ReadFull read (n + c) ?p s'"
      using r(1) le less(3) False by (subst ReadFull.simps) (simp add: add.commute)
    ultimately show ?thesis by simp
  qed
qed

lemma CopyN_gets:
  assumes "holds s (bs @ rest)" and "\<And>n. 0 < room n"
  shows "\<exists>s'. CopyN read room (length got + length bs) got s = Some (Ret ((got @ bs, None), s')) \<and> holds s' rest"
  using assms(1)
proof (induction "length bs" arbitrary: bs got s rule: less_induct)
  case less
  show ?case
  proof (cases "bs = []")
    case True
    with less(2) show ?thesis by (subst CopyN.simps) simp
  next
    case False
    let ?k = "min (room (length got)) (length bs)"
    have "zeros ?k \<noteq> []" using False assms(2) [of "length got"] by (simp add: zeros_Suc)
    then obtain c s' where c: "0 < c" "c \<le> ?k"
      and r: "read (zeros ?k) s = Some (Ret ((c, take c (bs @ rest) @ drop c (zeros ?k), None), s'))" "holds s' (drop c (bs @ rest))"
      using read_some [OF less(2), of "zeros ?k"] False by auto
    have le: "c \<le> length bs" "c \<le> room (length got)" using c(2) by simp_all
    have "\<exists>s''. CopyN read room (length (got @ take c bs) + length (drop c bs)) (got @ take c bs) s' =
        Some (Ret (((got @ take c bs) @ drop c bs, None), s'')) \<and> holds s'' rest"
      using less(1) [of "drop c bs" s' "got @ take c bs"] r(2) le c(1) False by simp
    moreover have "CopyN read room (length got + length bs) got s = CopyN read room (length got + length bs) (got @ take c bs) s'"
      using r(1) le False by (subst CopyN.simps) (simp add: not_less)
    ultimately show ?thesis using le by simp
  qed
qed

end

subsection \<open>Frames\<close>

type_synonym frame = "nat \<times> string"

definition frame_ok :: "frame \<Rightarrow> bool" where
  "frame_ok f \<longleftrightarrow> fst f < 256 \<and> snd f \<noteq> [] \<and> length (snd f) < 2 ^ 32"

definition framed :: "(frame \<Rightarrow> string) \<Rightarrow> frame list \<Rightarrow> string" where
  "framed header fs = concat (map (\<lambda>f. header f @ snd f) fs)"

definition wanted_data :: "(frame \<Rightarrow> bool) \<Rightarrow> frame list \<Rightarrow> string" where
  "wanted_data wanted fs = concat (map snd (filter wanted fs))"

definition frames_hold ::
    "('s \<Rightarrow> string \<Rightarrow> bool) \<Rightarrow> (frame \<Rightarrow> string) \<Rightarrow> (frame \<Rightarrow> bool) \<Rightarrow> 's \<times> string \<Rightarrow> string \<Rightarrow> bool" where
  "frames_hold holds header wanted sb bs \<longleftrightarrow>
     (\<exists>fs. list_all frame_ok fs \<and> holds (fst sb) (framed header fs) \<and> bs = snd sb @ wanted_data wanted fs)"

lemma framed_simps [simp]:
  "framed header [] = []" "framed header (f # fs) = header f @ snd f @ framed header fs"
  "wanted_data wanted [] = []"
  "wanted_data wanted (f # fs) = (if wanted f then snd f else []) @ wanted_data wanted fs"
  by (simp_all add: framed_def wanted_data_def)

text \<open>A header reader on top of a byte reader holds the data of the frames it does not discard.\<close>

locale framing = byte_reader read holds for read :: "'s reader" and holds :: "'s \<Rightarrow> string \<Rightarrow> bool" +
  fixes size :: nat and decode :: "string \<Rightarrow> nat \<times> bool \<times> error option"
    and header :: "frame \<Rightarrow> string" and wanted :: "frame \<Rightarrow> bool" and room :: "nat \<Rightarrow> nat"
  assumes header_size: "frame_ok f \<Longrightarrow> length (header f) = size"
    and decode_header: "frame_ok f \<Longrightarrow> decode (header f) = (length (snd f), \<not> wanted f, None)"
    and size_pos: "0 < size" and room_pos: "0 < room n"
begin

lemma parse_frame:
  assumes "frame_ok f" and "holds s (header f @ rest)"
  shows "\<exists>s'. parse_prefix size decode read s = Some (Ret ((length (snd f), \<not> wanted f, None), s')) \<and> holds s' rest"
  using ReadFull_gets [OF assms(2), of "zeros size" 0] header_size [OF assms(1)] decode_header [OF assms(1)]
  by (auto simp: parse_prefix_def)

lemma refill_gets:
  assumes "list_all frame_ok fs" and "holds s (framed header fs)" and "wanted_data wanted fs \<noteq> []"
  shows "\<exists>s' got gs. refill (parse_prefix size decode read) read room s = Some (Ret ((length got, got, None), s')) \<and>
    got \<noteq> [] \<and> list_all frame_ok gs \<and> holds s' (framed header gs) \<and> wanted_data wanted fs = got @ wanted_data wanted gs"
  using assms
proof (induction fs arbitrary: s)
  case (Cons f fs)
  then have f: "frame_ok f" "list_all frame_ok fs" by simp_all
  obtain s1 where p: "parse_prefix size decode read s = Some (Ret ((length (snd f), \<not> wanted f, None), s1))" "holds s1 (snd f @ framed header fs)"
    using parse_frame [OF f(1), of s "snd f @ framed header fs"] Cons(3) by auto
  obtain s2 where c: "CopyN read room (length (snd f)) [] s1 = Some (Ret ((snd f, None), s2))" "holds s2 (framed header fs)"
    using CopyN_gets [where got = "[]" and room = room, OF p(2) room_pos] by auto
  show ?case
  proof (cases "wanted f")
    case True
    with p(1) c f have "refill (parse_prefix size decode read) read room s = Some (Ret ((length (snd f), snd f, None), s2))"
      by (subst refill.simps) simp
    with True c f show ?thesis by (intro exI [of _ s2] exI [of _ "snd f"] exI [of _ fs]) (simp add: frame_ok_def [of f])
  next
    case False
    with p(1) c(1) have "refill (parse_prefix size decode read) read room s = refill (parse_prefix size decode read) read room s2"
      by (subst refill.simps) simp
    with False Cons.IH [OF f(2) c(2)] Cons(4) show ?thesis by simp
  qed
qed simp

lemma header_reads:
  assumes "frames_hold holds header wanted sb bs" and "bs \<noteq> []" and "p \<noteq> []"
  shows "\<exists>c sb'. 0 < c \<and> c \<le> length p \<and> c \<le> length bs \<and>
      header_Read (parse_prefix size decode) read room p sb = Some (Ret ((c, take c bs @ drop c p, None), sb')) \<and>
      frames_hold holds header wanted sb' (drop c bs)"
proof -
  obtain s buf where sb: "sb = (s, buf)" by (cases sb)
  obtain fs where fs: "list_all frame_ok fs" "holds s (framed header fs)" "bs = buf @ wanted_data wanted fs"
    using assms(1) sb by (auto simp: frames_hold_def)
  obtain s' got gs where g: "header_Read (parse_prefix size decode) read room p sb = Some (Ret (buffer_Read p got s'))"
    "got \<noteq> []" "list_all frame_ok gs" "holds s' (framed header gs)" "bs = got @ wanted_data wanted gs"
  proof (cases "buf = []")
    case True
    then show ?thesis using refill_gets [OF fs(1,2)] fs(3) assms(2) sb that by (force simp: header_Read_def)
  next
    case False
    then show ?thesis using fs sb that by (simp add: header_Read_def)
  qed
  let ?c = "min (length p) (length got)"
  have "take ?c bs @ drop ?c p = take (length p) got @ drop (length got) p" using g(5) by (simp add: min_def)
  then have "buffer_Read p got s' = ((?c, take ?c bs @ drop ?c p, None), (s', drop (length p) got))" using g(2) by (simp add: buffer_Read_def)
  moreover have "frames_hold holds header wanted (s', drop (length p) got) (drop ?c bs)"
    using g(3-5) by (auto simp: frames_hold_def min_def)
  ultimately show ?thesis using g(1,2,5) assms(3) by (intro exI [of _ ?c] exI [of _ "(s', drop (length p) got)"]) simp
qed

end

sublocale framing \<subseteq> framed: byte_reader "header_Read (parse_prefix size decode) read room" "frames_hold holds header wanted"
  by unfold_locales (rule header_reads)

text \<open>The headers that the writers generate are read back.\<close>

definition docker_header :: "frame \<Rightarrow> string" where
  "docker_header f = dockerHeaderGenerator (fst f) (snd f)"

definition circuit_header :: "frame \<Rightarrow> string" where
  "circuit_header f = CircuitHeaderGenerator (snd f)"

definition is_stdout :: "frame \<Rightarrow> bool" where
  "is_stdout f \<longleftrightarrow> fst f = 1"

lemma big_endian:
  assumes "n < 2 ^ 32"
  shows "BigEndian_Uint32 (BigEndian_PutUint32 n) = n"
proof -
  have "n = ((n div 2 ^ 24 * 256 + n div 2 ^ 16 mod 256) * 256 + n div 2 ^ 8 mod 256) * 256 + n mod 256"
  proof -
    have split: "m div 256 * 256 + m mod 256 = m" for m :: nat by simp
    have "n div 2 ^ 16 = n div 256 div 256" "n div 2 ^ 24 = n div 256 div 256 div 256" by (simp_all add: div_mult2_eq [symmetric])
    then show ?thesis using split [of "n div 256 div 256"] split [of "n div 256"] split [of n] by simp
  qed
  moreover have "n div 2 ^ 24 mod 256 = n div 2 ^ 24" using assms by (intro mod_less) (simp add: less_mult_imp_div_less)
  ultimately show ?thesis by (simp add: BigEndian_Uint32_def BigEndian_PutUint32_def byte_value)
qed

lemma docker_framing:
  assumes "byte_reader read holds" and "\<forall>n. 0 < room n"
  shows "framing read holds 8 (docker_prefix 1) docker_header is_stdout room"
proof -
  have "docker_prefix 1 (docker_header f) = (length (snd f), \<not> is_stdout f, None)" if "frame_ok f" for f
  proof -
    have "of_char (char_of (fst f) :: char) = fst f" using that by (simp add: frame_ok_def byte_value)
    then have "(char_of (fst f) = (char_of (1 :: nat) :: char)) = (fst f = 1)"
      by (metis byte_value mod_less one_less_numeral_iff semiring_norm(76))
    then show ?thesis using that big_endian [of "length (snd f)"]
      by (simp add: docker_header_def dockerHeaderGenerator_def docker_prefix_def is_stdout_def frame_ok_def zeros_def Let_def numeral_3_eq_3)
  qed
  then show ?thesis using assms
    by (intro framing.intro framing_axioms.intro)
      (simp_all add: docker_header_def dockerHeaderGenerator_def BigEndian_PutUint32_def)
qed

lemma circuit_framing:
  assumes "byte_reader read holds" and "\<forall>n. 0 < room n"
  shows "framing read holds 4 circuit_prefix circuit_header (\<lambda>_. True) room"
  using assms big_endian
  by (intro framing.intro framing_axioms.intro)
    (simp_all add: circuit_header_def CircuitHeaderGenerator_def circuit_prefix_def frame_ok_def BigEndian_PutUint32_def)

subsection \<open>Decoding\<close>

context byte_reader
begin

lemma DecodeResult_gets:
  assumes "result_wf r" and "result_Marshal r = Inr data" and "length data < 2 ^ 63"
    and "holds s (drop k data)" and "k < length data" and "part_of m r" and "buf \<noteq> []"
  shows "\<exists>s'. DecodeResult read (take k data) buf m s = Some (Ret ((r, None), s')) \<and> holds s' []"
  using assms(4-7)
proof (induction "length data - k" arbitrary: k m buf s rule: less_induct)
  case less
  obtain c s' where c: "0 < c" "c \<le> length buf" "c \<le> length (drop k data)"
    and r: "read buf s = Some (Ret ((c, take c (drop k data) @ drop c buf, None), s'))" "holds s' (drop c (drop k data))"
    using read_some [OF less(2) _ less(5)] less(3) by auto
  have accum: "take k data @ take c (drop k data) = take (k + c) data" by (simp add: take_add)
  show ?case
  proof (cases "k + c = length data")
    case True
    have "DecodeResult read (take k data) buf m s = Some (Ret ((r, None), s'))"
      using r(1) c True accum unmarshal_marshal [OF assms(1-3) less(4)] by (subst DecodeResult.simps) simp
    moreover have "holds s' []" using r(2) True c(3) less(3) by simp
    ultimately show ?thesis by blast
  next
    case False
    then have kc: "k + c < length data" using c(3) less(3) by simp
    obtain m' err where u: "result_Unmarshal m (take (k + c) data) = Some (Ret (m', Some err))" "part_of m' r"
      using unmarshal_cut [OF assms(1-3) less(4) kc] by blast
    have "DecodeResult read (take k data) buf m s = DecodeResult read (take (k + c) data) (take c (drop k data) @ drop c buf) m' s'"
      using r(1) c accum u(1) by (subst DecodeResult.simps) simp
    moreover have "\<exists>s''. DecodeResult read (take (k + c) data) (take c (drop k data) @ drop c buf) m' s' = Some (Ret ((r, None), s'')) \<and> holds s'' []"
      using less(1) [of "k + c" s' m' "take c (drop k data) @ drop c buf"] r(2) c(1,3) kc u(2) less(5)
      by (simp add: add.commute)
    ultimately show ?thesis by simp
  qed
qed

end

subsection \<open>The end of a stream\<close>

text \<open>A stream that was closed: when nothing is left, a read returns the end of file.\<close>

locale closed_reader = byte_reader +
  assumes read_end: "holds s [] \<Longrightarrow> p \<noteq> [] \<Longrightarrow> \<exists>s'. read p s = Some (Ret ((0, p, Some io_EOF), s')) \<and> holds s' []"
begin

lemma parse_end:
  "holds s [] \<Longrightarrow> 0 < k \<Longrightarrow>
    \<exists>s'. parse_prefix k decode read s = Some (Ret ((0, False, Some io_EOF), s')) \<and> holds s' []"
  using read_end [of s "zeros k"]
  by (auto simp: parse_prefix_def ReadFull.simps [of read 0 "zeros k"] zeros_Suc read_full_error_def)

lemma DecodeResult_end:
  assumes "holds s []" and "buf \<noteq> []"
  shows "\<exists>s'. DecodeResult read [] buf EmptyExecResult s = Some (Ret ((EmptyExecResult, Some io_EOF), s')) \<and> holds s' []"
proof -
  have "result_Unmarshal EmptyExecResult [] = Some (Ret (EmptyExecResult, Some RequiredNotSetError))"
    by (simp add: result_Unmarshal_def unmarshal_loop.simps)
  then show ?thesis using read_end [OF assms] by (subst DecodeResult.simps) auto
qed

end

locale closed_framing = framing read holds size decode header wanted room + closed_reader read holds
  for read :: "'s reader" and holds and size and decode and header and wanted and room
begin

lemma refill_end:
  assumes "list_all frame_ok fs" and "holds s (framed header fs)" and "wanted_data wanted fs = []"
  shows "\<exists>s'. refill (parse_prefix size decode read) read room s = Some (Ret ((0, [], Some io_EOF), s')) \<and> holds s' []"
  using assms
proof (induction fs arbitrary: s)
  case Nil
  then show ?case using parse_end [OF _ size_pos, of s decode] by (subst refill.simps) auto
next
  case (Cons f fs)
  then have f: "frame_ok f" "list_all frame_ok fs" "\<not> wanted f" "wanted_data wanted fs = []"
    by (auto simp: frame_ok_def [of f] split: if_splits)
  obtain s1 where p: "parse_prefix size decode read s = Some (Ret ((length (snd f), \<not> wanted f, None), s1))" "holds s1 (snd f @ framed header fs)"
    using parse_frame [OF f(1), of s "snd f @ framed header fs"] Cons(3) by auto
  obtain s2 where c: "CopyN read room (length (snd f)) [] s1 = Some (Ret ((snd f, None), s2))" "holds s2 (framed header fs)"
    using CopyN_gets [where got = "[]" and room = room, OF p(2) room_pos] by auto
  have "refill (parse_prefix size decode read) read room s = refill (parse_prefix size decode read) read room s2"
    using p(1) c(1) f(3) by (subst refill.simps) simp
  with Cons.IH [OF f(2) c(2) f(4)] show ?case by simp
qed

lemma header_ends:
  assumes "frames_hold holds header wanted sb []" and "p \<noteq> []"
  shows "\<exists>sb'. header_Read (parse_prefix size decode) read room p sb = Some (Ret ((0, p, Some io_EOF), sb')) \<and>
    frames_hold holds header wanted sb' []"
proof -
  obtain s fs where sb: "sb = (s, [])" and fs: "list_all frame_ok fs" "holds s (framed header fs)" "wanted_data wanted fs = []"
    using assms(1) by (cases sb) (auto simp: frames_hold_def)
  obtain s' where r: "refill (parse_prefix size decode read) read room s = Some (Ret ((0, [], Some io_EOF), s'))" "holds s' []"
    using refill_end [OF fs] by blast
  from r(2) have "frames_hold holds header wanted (s', []) []" by (auto simp: frames_hold_def intro!: exI [of _ "[]"])
  with r(1) sb assms(2) show ?thesis by (auto simp: header_Read_def buffer_Read_def)
qed

end

sublocale closed_framing \<subseteq> framed: closed_reader "header_Read (parse_prefix size decode) read room" "frames_hold holds header wanted"
  by unfold_locales (rule header_ends)

definition stdout_holds :: "('s \<Rightarrow> string \<Rightarrow> bool) \<Rightarrow> 's \<times> string \<Rightarrow> string \<Rightarrow> bool" where
  "stdout_holds holds = frames_hold holds docker_header is_stdout"

definition packets_hold :: "('s \<Rightarrow> string \<Rightarrow> bool) \<Rightarrow> ('s \<times> string) \<times> string \<Rightarrow> string \<Rightarrow> bool" where
  "packets_hold holds = frames_hold (stdout_holds holds) circuit_header (\<lambda>_. True)"

lemma stdout_reader:
  assumes "byte_reader read holds" and "\<forall>n. 0 < room n"
  shows "byte_reader (docker_stdout read room) (stdout_holds holds)"
proof -
  from docker_framing [OF assms] have "byte_reader (header_Read (parse_prefix 8 (docker_prefix 1)) read room) (frames_hold holds docker_header is_stdout)"
    by (rule framing.header_reads [THEN byte_reader.intro])
  then show ?thesis by (simp add: docker_stdout_def dockerHeaderParser_def stdout_holds_def)
qed

lemma packet_reader:
  assumes "byte_reader read holds" and "\<forall>n. 0 < room n"
  shows "byte_reader (circuit_reader (docker_stdout read room) room) (packets_hold holds)"
proof -
  from circuit_framing [OF stdout_reader [OF assms] assms(2)]
  have "byte_reader (header_Read (parse_prefix 4 circuit_prefix) (docker_stdout read room) room) (frames_hold (stdout_holds holds) circuit_header (\<lambda>_. True))"
    by (rule framing.header_reads [THEN byte_reader.intro])
  then show ?thesis by (simp add: circuit_reader_def CircuitHeaderParser_def packets_hold_def)
qed

lemma stdout_closed:
  assumes "closed_reader read holds" and "\<forall>n. 0 < room n"
  shows "closed_reader (docker_stdout read room) (stdout_holds holds)"
proof -
  have "byte_reader read holds" using assms(1) by (rule closed_reader.axioms(1))
  with docker_framing assms have "closed_framing read holds 8 (docker_prefix 1) docker_header is_stdout room"
    by (blast intro: closed_framing.intro)
  from closed_framing.header_ends [OF this] stdout_reader [OF \<open>byte_reader read holds\<close> assms(2)] show ?thesis
    by (intro closed_reader.intro closed_reader_axioms.intro) (simp_all add: docker_stdout_def dockerHeaderParser_def stdout_holds_def)
qed

lemma packet_closed:
  assumes "closed_reader read holds" and "\<forall>n. 0 < room n"
  shows "closed_reader (circuit_reader (docker_stdout read room) room) (packets_hold holds)"
proof -
  have "byte_reader read holds" using assms(1) by (rule closed_reader.axioms(1))
  note stdout = stdout_closed [OF assms] and packets = packet_reader [OF this assms(2)]
  have "byte_reader (docker_stdout read room) (stdout_holds holds)" using stdout by (rule closed_reader.axioms(1))
  with circuit_framing assms(2) stdout have "closed_framing (docker_stdout read room) (stdout_holds holds) 4 circuit_prefix circuit_header (\<lambda>_. True) room"
    by (blast intro: closed_framing.intro)
  from closed_framing.header_ends [OF this] packets show ?thesis
    by (intro closed_reader.intro closed_reader_axioms.intro) (simp_all add: circuit_reader_def CircuitHeaderParser_def packets_hold_def)
qed

lemma packets_holdI:
  assumes "list_all frame_ok fs" and "holds s (framed docker_header fs)" and "list_all frame_ok ps"
    and "wanted_data is_stdout fs = framed circuit_header ps"
  shows "packets_hold holds ((s, []), []) (concat (map snd ps))"
proof -
  have "wanted_data (\<lambda>_. True) ps = concat (map snd ps)" by (simp add: wanted_data_def)
  with assms show ?thesis unfolding packets_hold_def stdout_holds_def frames_hold_def by fastforce
qed

subsection \<open>A connection\<close>

text \<open>A network connection has received segments, and may be closed at the other end; a read takes from one segment.\<close>

definition conn_Read :: "bool \<Rightarrow> string list reader" where
  "conn_Read closed p segs =
     (case segs of
        [] \<Rightarrow> if closed then Some (Ret ((0, p, Some io_EOF), [])) else None
      | seg # segs' \<Rightarrow>
          let c = min (length p) (length seg); left = drop c seg
          in Some (Ret ((c, take c seg @ drop c p, None), if left = [] then segs' else left # segs')))"

definition conn_holds :: "string list \<Rightarrow> string \<Rightarrow> bool" where
  "conn_holds segs bs \<longleftrightarrow> [] \<notin> set segs \<and> bs = concat segs"

interpretation conn: byte_reader "conn_Read closed" conn_holds for closed
proof
  fix s bs and p :: string
  assume "conn_holds s bs" "bs \<noteq> []" "p \<noteq> []"
  then show "\<exists>c s'. 0 < c \<and> c \<le> length p \<and> c \<le> length bs \<and>
      conn_Read closed p s = Some (Ret ((c, take c bs @ drop c p, None), s')) \<and> conn_holds s' (drop c bs)"
    by (cases s) (auto simp: conn_holds_def conn_Read_def Let_def min_def)
qed

interpretation closed_conn: closed_reader "conn_Read True" conn_holds
proof
  show "\<exists>s'. conn_Read True p s = Some (Ret ((0, p, Some io_EOF), s')) \<and> conn_holds s' []"
    if "conn_holds s []" and "p \<noteq> []" for s and p :: string
    using that by (cases s) (auto simp: conn_holds_def conn_Read_def)
qed

text \<open>The two readers of an environment, on a connection; a buffer offers at least 512 bytes, \<^verbatim>\<open>bytes.MinRead\<close>.\<close>

definition MinRead :: "nat \<Rightarrow> nat" where
  "MinRead n = 512"

interpretation docker_frames: framing "conn_Read closed" conn_holds 8 "docker_prefix 1" docker_header is_stdout MinRead for closed
  by (rule docker_framing [OF conn.byte_reader_axioms]) (simp add: MinRead_def)

interpretation driver_packets: framing "docker_stdout (conn_Read closed) MinRead" "stdout_holds conn_holds"
    4 circuit_prefix circuit_header "\<lambda>_. True" MinRead for closed
  by (rule circuit_framing [OF stdout_reader [OF conn.byte_reader_axioms]]) (simp_all add: MinRead_def)

subsection \<open>The driver\<close>

definition duration_ok :: "(string \<Rightarrow> string list \<Rightarrow> string \<Rightarrow> process_exit) \<Rightarrow> bool" where
  "duration_ok exec \<longleftrightarrow> (\<forall>path env stdin. - (2 ^ 63) \<le> px_elapsed (exec path env stdin) \<and> px_elapsed (exec path env stdin) < 2 ^ 63)"

lemma driver_result_wf: "duration_ok exec \<Longrightarrow> result_wf (BlockingDriver_Run exec request)"
  by (simp add: duration_ok_def result_wf_def BlockingDriver_Run_def SetElapsed_def SetSuccess_def Let_def ex_bool_eq split: option.split)

lemma marshal_not_empty: "result_Marshal r = Inr data \<Longrightarrow> data \<noteq> []"
  by (auto simp: result_Marshal_def success_field_def split: option.splits)

section \<open>Properties\<close>


definition sample_exit :: "string \<Rightarrow> string list \<Rightarrow> string \<Rightarrow> process_exit" where
  "sample_exit path env stdin = \<lparr>px_stdout = ''hi'', px_stderr = [], px_error = None, px_elapsed = 5\<rparr>"

definition sample_data :: string where
  "sample_data = char_of (10 :: nat) # char_of (2 :: nat) # ''hi'' @ map char_of [24, 1, 32, 5 :: nat]"

definition sample_frames :: "frame list" where
  "sample_frames = [(1, take 6 (CircuitHeaderGenerator sample_data @ sample_data)), (2, ''warning''),
     (1, drop 6 (CircuitHeaderGenerator sample_data @ sample_data))]"




end
