(* ===== verification/Spec2Isabelle.thy ===== *)
theory Spec2Isabelle
  imports Managed_Config Version_List Relay_Main Relay_Workers Circuit_Worker Driver_Stream
begin

text \<open>
  A model of the Cog relay (\<^verbatim>\<open>go-relay\<close>) and the theorems about it.

  \<^bold>\<open>The program.\<close> A relay connects to the message bus of a Cog server, announces which bundles
  it can run, and executes commands of those bundles in Docker containers or as native
  processes. Its parts, with the files under \<^verbatim>\<open>src/\<close> and the theories that model them:

  \<^item> \<^verbatim>\<open>main.go\<close> finds, parses and verifies the configuration, sets the logger up, starts the
    relay and waits for signals (\<^verbatim>\<open>Relay_Main\<close>).
  \<^item> \<^verbatim>\<open>relay/relay.go\<close> is the relay: it handles bus events, directives, commands and timers and
    owns the other parts (\<^verbatim>\<open>Cog_Relay\<close>, one definition per method; \<^verbatim>\<open>Relay_System\<close>, its
    transitions, from the stages of its start to its stop, its invariant and its properties).
  \<^item> \<^verbatim>\<open>relay/announcer.go\<close> announces the catalog until Cog acknowledges it; its goroutines and
    timers are the step relation \<open>announcer_step\<close> (\<^verbatim>\<open>Announcer\<close>, with the messages of
    \<^verbatim>\<open>relay/messages/directives.go\<close> and \<^verbatim>\<open>helpers.go\<close> in \<^verbatim>\<open>Directives\<close>).
  \<^item> \<^verbatim>\<open>relay/bundle/catalog.go\<close> holds the bundles of \<^verbatim>\<open>relay/config/bundle_config.go\<close> and the
    epochs (\<^verbatim>\<open>Bundle_Catalog\<close>, \<^verbatim>\<open>Bundle_Config\<close>); \<^verbatim>\<open>relay/bundle/version_list.go\<close> keeps
    versions in order (\<^verbatim>\<open>Version_List\<close>, with the parts of \<^verbatim>\<open>coreos/go-semver\<close> it calls).
  \<^item> \<^verbatim>\<open>relay/config/*.go\<close> is the configuration (\<^verbatim>\<open>Relay_Config\<close>) and the loader of the bundles'
    dynamic configuration (\<^verbatim>\<open>Dynamic_Config\<close>); \<^verbatim>\<open>relay/dynamic_config.go\<close> keeps the managed
    dynamic configuration up to date (\<^verbatim>\<open>Dynamic_Updater\<close>, \<^verbatim>\<open>Managed_Config\<close>), over a model of
    directories, files and symbolic links (\<^verbatim>\<open>Go_Files\<close>).
  \<^item> \<^verbatim>\<open>relay/worker/execution.go\<close> executes one invocation after the other (\<^verbatim>\<open>Exec_Worker\<close>): it
    decodes the request and builds the command's environment, \<^verbatim>\<open>relay/messages/execution.go\<close> and
    \<^verbatim>\<open>env_builder.go\<close> (\<^verbatim>\<open>Exec_Messages\<close>), runs it and reads the output,
    \<^verbatim>\<open>relay/worker/output_parser_v1.go\<close> (\<^verbatim>\<open>Output_Parser\<close>). \<^verbatim>\<open>Relay_Workers\<close> cuts the execution
    at every call of an engine or of the environment and lets all workers of a relay interleave.
  \<^item> \<^verbatim>\<open>relay/engines/*.go\<close> are the engines and the cache of environments (\<^verbatim>\<open>Exec_Engines\<close>,
    \<^verbatim>\<open>Env_Cache\<close>, \<^verbatim>\<open>Engine_Safety\<close>), over the environments of the vendored \<^verbatim>\<open>circuit\<close> library
    and Docker's version comparison (\<^verbatim>\<open>Circuit_Env\<close>). \<^verbatim>\<open>Circuit_Worker\<close> has the goroutine and the
    channels behind an environment, \<^verbatim>\<open>Driver_Codec\<close> and \<^verbatim>\<open>Driver_Stream\<close> how a result travels
    from the driver in a container to that goroutine (the vendored \<^verbatim>\<open>circuit-driver\<close>).
  \<^item> \<^verbatim>\<open>relay/bus/*.go\<close> is the MQTT connection with its backoff (\<^verbatim>\<open>Mqtt_Bus\<close>).

  \<^verbatim>\<open>Go_Strings\<close> has the functions of Go's standard library on strings and numbers that the
  sources call, \<^verbatim>\<open>Relay_Prelude\<close> the result types, the iteration order of maps and the locale of
  transition systems with an invariant.

  \<^bold>\<open>How the code is modelled.\<close> A struct is a record, an interface with two implementations a
  datatype, a method a function on the record that returns it updated. A panic is the value
  \<open>Panic\<close> of \<open>go_result\<close>, an error result a sum or an option; a handler of the relay can also
  be blocked (\<open>outcome\<close>). Where a goroutine can interleave with another, each atomic region
  (between lock and unlock, or one channel operation) is a step of an inductive relation. A
  \<^verbatim>\<open>range\<close> over a map takes the order as an argument that the theorems quantify over. Epochs
  are 64-bit words, the backoff index is an 8-bit word, the container memory is a 64-bit word.
  The client libraries (MQTT, Docker), JSON and YAML, the validator, compression, the clock,
  the process environment and \<^verbatim>\<open>sort.Sort\<close> are arguments of the definitions that use them.

  \<^bold>\<open>What is proved.\<close>

  \<^item> Catalog: \<^verbatim>\<open>Replace\<close> refines the assignment of a snapshot, whatever the iteration order, and
    reports changes exactly; the invariant of names and epochs holds after any run; the relay's
    \<^verbatim>\<open>updateCatalog\<close> inherits this, with completed versions and checked availability.
  \<^item> Announcer: receipts acknowledge exactly the announced epoch, the retry never gets stuck,
    announcements list exactly the available bundles.
  \<^item> Engines: under every interleaving of workers and clean-ups an environment has one user and
    a used environment is alive; the availability check, the API version and the memory limit.
    The goroutine and the channels of an environment refine its atomic run, and every call
    returns; a result survives its encoding, its framing and the division of the connection.
  \<^item> Workers: exactly one answer for each decoded request, in the order of arrival; when the
    environment is returned; the variables that identify an invocation cannot be overridden;
    options can be enumerated; the output protocol. With the calls of all workers interleaved
    with the relay's handlers the environments stay exclusive and alive; a worker that is not
    interrupted computes exactly \<open>executeCommand\<close>; workers drain the queue.
  \<^item> Configuration: precedence of environment, file and defaults; engine selection; layering and
    filtering of dynamic configuration; atomicity of a managed update at every system call, the
    round trip to the loader, and the clean-up.
  \<^item> Bus: connecting returns when an attempt succeeds, bounds of the waits, certificates.
  \<^item> Composition: in every reachable state the relay and its announcer share one catalog and each
    part is in a state its own model reaches, so the theorems of the parts hold in the whole; a
    started relay comes online and listens; an acknowledged catalog stays quiet; a running relay
    was configured and verified, and is in a reachable state, so that all of this applies to it.
  \<^item> What the code does in situations it does not handle: the null option, the malformed payload,
    the native bundle without an engine, the race at the start of the updater, a container that
    ends early, a length that overflows and others, each stated as a theorem.

  \<^bold>\<open>Interfaces.\<close> Each is a locale, interpreted on the model's own definitions: transition systems
  with an invariant (\<open>invariant_system\<close> in \<^verbatim>\<open>Relay_Prelude\<close>, for the catalog, the announcer, the
  engines, the relay, the relay with interleaved workers and the channels of an environment), the epochs the announcer relies on (\<open>epoch_tracker\<close>, provided by the
  catalog), what a user of an engine may rely on (\<open>execution_engine\<close>, provided by the native
  engine, the Docker engine and the relay's choice between them), readers of bytes (\<open>byte_reader\<close>
  and \<open>closed_reader\<close>; a header reader over a reader is one again, by the sublocales of \<open>framing\<close>
  and \<open>closed_framing\<close>, for Docker's frames and the driver's packets), and the contract of Go's sort
  package (\<open>go_sort\<close> and \<open>version_sort\<close>, provided by the insertion sort it uses for short slices).

  \<^bold>\<open>Bounds and fuel.\<close> The only fuel is that of the connection retry loop, \<open>connect_loop\<close>, which may
  run for ever; \<open>Connect_returns\<close> shows that more fuel than there are refused attempts is enough.
  The loops that read from a connection, in \<^verbatim>\<open>Driver_Codec\<close> and \<^verbatim>\<open>Driver_Stream\<close>, are partial functions
  whose value \<open>None\<close> is not to return; their theorems say that they return, \<open>Unmarshal_ends\<close> for
  every input. Every other function is total. The catalog's invariant is stated for fewer than 2 to the 64
  operations, because the epoch wraps around.

  \<^bold>\<open>Not modelled.\<close> The bodies of third-party libraries, which are parameters; the text of log
  messages; CPU and memory profiles; the wire encoding of a driver's request (generated by the
  same tool as that of its result) and the driver's loop over short writes; the hooks of
  \<^verbatim>\<open>go-semver\<close> that the relay does not call; data races on fields without a lock, except where a
  theorem is about one.
\<close>

end
